(* ===== verification/KD_Prelude.thy ===== *)
theory KD_Prelude
  imports "HOL-Library.Word"
begin

unbundle bit_operations_syntax

text \<open>
  Shared vocabulary of the development: the ways in which a call of the debugger can fail
  to return a value, sequencing of calls that may fail, the generic lemmas on lists and on
  searching that several components use, and the two collections of simplification rules
  (\<open>result_simps\<close> for sequencing, \<open>byte_simps\<close> for byte layout).
\<close>

subsection \<open>Machine integers\<close>

type_synonym u8 = "8 word"
type_synonym u16 = "16 word"
type_synonym u32 = "32 word"
type_synonym u64 = "64 word"

text \<open>Pointers into a mapped file are natural numbers; 0 is \<open>nullptr\<close>.\<close>

type_synonym ptr = nat

abbreviation (input) nullptr :: ptr where
  "nullptr \<equiv> 0"

subsection \<open>Failures as values\<close>

text \<open>
  \<open>Send\<close> and \<open>SendErrno\<close> are the two throwing functions of \<open>kdebugger::error\<close>
  (\<open>include/libkdebugger/error.hpp\<close>); the next three are the exceptions of the standard
  library that the code can let escape; \<open>Terminate\<close> is \<open>std::terminate\<close>. \<open>UB\<close>
  stands for an execution the language leaves undefined (a read outside the mapped file, a
  dereferenced end iterator, a shift by the width or more): the model stops there, so
  no theorem of the development speaks about what follows it.
\<close>

datatype kerror =
    Send string
  | SendErrno string
  | OutOfRange
  | BadOptionalAccess
  | BadVariantAccess
  | Terminate
  | UB string

type_synonym 'a result = "kerror + 'a"

named_theorems result_simps and byte_simps

definition rbind :: "'e + 'a \<Rightarrow> ('a \<Rightarrow> 'e + 'b) \<Rightarrow> 'e + 'b" where
  "rbind m f = (case m of Inl e \<Rightarrow> Inl e | Inr x \<Rightarrow> f x)"

lemma rbind_Inl [simp, result_simps]: "rbind (Inl e) f = Inl e"
  by (simp add: rbind_def)

lemma rbind_Inr [simp, result_simps]: "rbind (Inr x) f = f x"
  by (simp add: rbind_def)

lemma rbind_cong [fundef_cong]:
  "m = m' \<Longrightarrow> (\<And>x. m' = Inr x \<Longrightarrow> f x = g x) \<Longrightarrow> rbind m f = rbind m' g"
  by (cases m') (auto simp: rbind_def)

lemma rbind_eq_Inr [result_simps]:
  "rbind m f = Inr y \<longleftrightarrow> (\<exists>x. m = Inr x \<and> f x = Inr y)"
  by (cases m) auto

lemma rbind_eq_Inl [result_simps]:
  "rbind m f = Inl e \<longleftrightarrow> m = Inl e \<or> (\<exists>x. m = Inr x \<and> f x = Inl e)"
  by (cases m) auto

lemma rbindE:
  assumes "rbind m f = Inr y"
  obtains x where "m = Inr x" and "f x = Inr y"
  using assms by (auto simp: rbind_eq_Inr)

lemma rbind_assoc: "rbind (rbind m f) g = rbind m (\<lambda>x. rbind (f x) g)"
  by (cases m) auto

definition guard :: "bool \<Rightarrow> kerror \<Rightarrow> unit result" where
  "guard b e = (if b then Inr () else Inl e)"

lemma guard_simps [simp, result_simps]:
  "guard True e = Inr ()" "guard False e = Inl e"
  "guard b e = Inr u \<longleftrightarrow> b"
  by (auto simp: guard_def)

text \<open>Running an operation that may fail over a list, left to right, stopping at a failure.\<close>

fun mapR :: "('a \<Rightarrow> 'e + 'b) \<Rightarrow> 'a list \<Rightarrow> 'e + 'b list" where
  "mapR f [] = Inr []"
| "mapR f (x # xs) = rbind (f x) (\<lambda>y. rbind (mapR f xs) (\<lambda>ys. Inr (y # ys)))"

fun foldR :: "('a \<Rightarrow> 's \<Rightarrow> 'e + 's) \<Rightarrow> 'a list \<Rightarrow> 's \<Rightarrow> 'e + 's" where
  "foldR f [] s = Inr s"
| "foldR f (x # xs) s = rbind (f x s) (foldR f xs)"

lemma mapR_length: "mapR f xs = Inr ys \<Longrightarrow> length ys = length xs"
  by (induction xs arbitrary: ys) (auto simp: rbind_eq_Inr)

lemma mapR_nth: "mapR f xs = Inr ys \<Longrightarrow> i < length xs \<Longrightarrow> f (xs ! i) = Inr (ys ! i)"
  by (induction xs arbitrary: ys i) (auto simp: rbind_eq_Inr nth_Cons split: nat.splits)

lemma foldR_append:
  "foldR f (xs @ ys) s = rbind (foldR f xs s) (foldR f ys)"
proof (induction xs arbitrary: s)
  case (Cons x xs)
  then have "foldR f (xs @ ys) = (\<lambda>s. rbind (foldR f xs s) (foldR f ys))" by (rule ext)
  then show ?case by (simp add: rbind_assoc)
qed simp

lemma foldR_invariant:
  assumes "foldR f xs s = Inr t" and "P s"
    and "\<And>x s s'. x \<in> set xs \<Longrightarrow> P s \<Longrightarrow> f x s = Inr s' \<Longrightarrow> P s'"
  shows "P t"
  using assms
proof (induction xs arbitrary: s)
  case Nil
  then show ?case by simp
next
  case (Cons x xs)
  from Cons.prems(1) obtain s' where s': "f x s = Inr s'" "foldR f xs s' = Inr t"
    by (auto simp: rbind_eq_Inr)
  have "P s'" using Cons.prems(2,3) s'(1) by (meson list.set_intros(1))
  then show ?case using Cons.IH [OF s'(2)] Cons.prems(3) by (meson list.set_intros(2))
qed

subsection \<open>Searching a vector\<close>

text \<open>
  \<open>std::find_if\<close> on a vector: the index of the first element that satisfies the
  predicate. The end iterator is \<open>None\<close>.
\<close>

fun find_if :: "('a \<Rightarrow> bool) \<Rightarrow> 'a list \<Rightarrow> nat option" where
  "find_if p [] = None"
| "find_if p (x # xs) = (if p x then Some 0 else map_option Suc (find_if p xs))"

lemma find_if_None: "find_if p xs = None \<longleftrightarrow> (\<forall>x\<in>set xs. \<not> p x)"
  by (induction xs) auto

lemma find_if_SomeD:
  "find_if p xs = Some i \<Longrightarrow> i < length xs \<and> p (xs ! i) \<and> (\<forall>j<i. \<not> p (xs ! j))"
proof (induction xs arbitrary: i)
  case Nil
  then show ?case by simp
next
  case (Cons x xs)
  show ?case
  proof (cases "p x")
    case True
    with Cons.prems show ?thesis by simp
  next
    case False
    with Cons.prems obtain k where k: "find_if p xs = Some k" "i = Suc k" by auto
    have "\<not> p ((x # xs) ! j)" if "j < i" for j
      using that False Cons.IH [OF k(1)] k(2) by (cases j) auto
    with Cons.IH [OF k(1)] k(2) show ?thesis by simp
  qed
qed

lemma find_if_SomeI:
  "i < length xs \<Longrightarrow> p (xs ! i) \<Longrightarrow> \<forall>j<i. \<not> p (xs ! j) \<Longrightarrow> find_if p xs = Some i"
proof (induction xs arbitrary: i)
  case Nil
  then show ?case by simp
next
  case (Cons x xs)
  show ?case
  proof (cases i)
    case 0
    with Cons.prems show ?thesis by simp
  next
    case (Suc k)
    then have "\<not> p x" using Cons.prems(3) by (metis nth_Cons_0 zero_less_Suc)
    moreover have "find_if p xs = Some k"
    proof (rule Cons.IH)
      show "k < length xs" and "p (xs ! k)" using Cons.prems(1,2) Suc by simp_all
      show "\<forall>j<k. \<not> p (xs ! j)" using Cons.prems(3) Suc by (metis Suc_less_eq nth_Cons_Suc)
    qed
    ultimately show ?thesis using Suc by simp
  qed
qed

lemma find_if_iff:
  "find_if p xs = Some i \<longleftrightarrow> i < length xs \<and> p (xs ! i) \<and> (\<forall>j<i. \<not> p (xs ! j))"
  using find_if_SomeD find_if_SomeI by metis

lemma find_if_append:
  "find_if p (xs @ ys) = (case find_if p xs of Some i \<Rightarrow> Some i
     | None \<Rightarrow> map_option (\<lambda>i. length xs + i) (find_if p ys))"
proof (induction xs)
  case Nil
  show ?case by (cases "find_if p ys") simp_all
next
  case (Cons x xs)
  then show ?case by (cases "find_if p xs"; cases "find_if p ys") simp_all
qed

lemma find_if_cong:
  "(\<And>x. x \<in> set xs \<Longrightarrow> p x = q x) \<Longrightarrow> find_if p xs = find_if q xs"
  by (induction xs) auto

lemma byte_index_bound: "i < l div 8 \<Longrightarrow> n < 8 \<Longrightarrow> 8 * i + n < (l :: nat)"
  by arith

text \<open>\<open>vector::operator []\<close> and \<open>vector::at\<close>.\<close>

definition vec_idx :: "'a list \<Rightarrow> nat \<Rightarrow> 'a result" where
  "vec_idx xs i = (if i < length xs then Inr (xs ! i) else Inl (UB ''vector index''))"

lemma vec_idx_Inr [simp, result_simps]: "vec_idx xs i = Inr x \<longleftrightarrow> i < length xs \<and> x = xs ! i"
  by (auto simp: vec_idx_def)

lemma vec_idx_in: "i < length xs \<Longrightarrow> vec_idx xs i = Inr (xs ! i)"
  by simp

text \<open>\<open>unordered_map::emplace\<close> keeps an existing entry; \<open>at\<close> throws on a missing key.\<close>

definition emplace :: "'k \<Rightarrow> 'v \<Rightarrow> ('k \<rightharpoonup> 'v) \<Rightarrow> ('k \<rightharpoonup> 'v)" where
  "emplace k v m = (case m k of None \<Rightarrow> m(k \<mapsto> v) | Some _ \<Rightarrow> m)"

definition map_at :: "('k \<rightharpoonup> 'v) \<Rightarrow> 'k \<Rightarrow> 'v result" where
  "map_at m k = (case m k of None \<Rightarrow> Inl OutOfRange | Some v \<Rightarrow> Inr v)"

lemma emplace_apply: "emplace k v m k' = (if k' = k \<and> m k = None then Some v else m k')"
  by (auto simp: emplace_def split: option.splits)

lemma map_at_Inr [simp, result_simps]: "map_at m k = Inr v \<longleftrightarrow> m k = Some v"
  by (auto simp: map_at_def split: option.splits)

text \<open>The bytes of a string literal.\<close>

definition ascii :: "string \<Rightarrow> u8 list" where
  "ascii s = map of_char s"

text \<open>\<open>vector::erase\<close> at an index.\<close>

definition erase_at :: "nat \<Rightarrow> 'a list \<Rightarrow> 'a list" where
  "erase_at i xs = take i xs @ drop (Suc i) xs"

lemma length_erase_at: "i < length xs \<Longrightarrow> length (erase_at i xs) = length xs - 1"
  by (simp add: erase_at_def)

lemma set_erase_at: "set (erase_at i xs) \<subseteq> set xs"
  by (auto simp: erase_at_def dest: in_set_takeD in_set_dropD)

lemma erase_at_subseq_map: "map f (erase_at i xs) = erase_at i (map f xs)"
  by (simp add: erase_at_def take_map drop_map)

lemma distinct_erase_at: "distinct xs \<Longrightarrow> distinct (erase_at i xs)"
proof -
  assume d: "distinct xs"
  have "set (take i xs) \<inter> set (drop (Suc i) xs) = {}"
    using d by (intro set_take_disj_set_drop_if_distinct) auto
  with d show ?thesis by (simp add: erase_at_def)
qed

lemma set_erase_at_distinct:
  assumes "distinct xs" and "i < length xs"
  shows "set (erase_at i xs) = set xs - {xs ! i}"
proof -
  have split: "xs = take i xs @ xs ! i # drop (Suc i) xs"
    using assms(2) by (rule id_take_nth_drop)
  then have "distinct (take i xs @ xs ! i # drop (Suc i) xs)" using assms(1) by simp
  then have notin: "xs ! i \<notin> set (erase_at i xs)" by (simp add: erase_at_def)
  have "set xs = set (take i xs @ xs ! i # drop (Suc i) xs)"
    using split by (rule arg_cong)
  also have "\<dots> = insert (xs ! i) (set (erase_at i xs))" by (auto simp: erase_at_def)
  finally show ?thesis using notin by auto
qed

end
