(* ===== verification/KD_Bits.thy ===== *)
theory KD_Bits
  imports KD_Prelude
begin

text \<open>
  \<open>include/libkdebugger/bit.hpp\<close>: values seen as the bytes they occupy. The machine is
  little-endian, so byte \<open>i\<close> of a value holds its bits \<open>8 * i\<close> to \<open>8 * i + 7\<close>.
  The lemmas give the round trips and the bit view the register and memory components use.
\<close>

unbundle bit_operations_syntax

subsection \<open>Byte views\<close>

text \<open>
  \<open>from_bytes\<close> copies \<open>sizeof(To)\<close> bytes into a value. Its last line reads
  \<open>return To;\<close>, which names the type; the local \<open>ret\<close> it has just filled is meant.
\<close>

fun from_bytes :: "u8 list \<Rightarrow> 'a::len word" where
  "from_bytes [] = 0"
| "from_bytes (b # bs) = ucast b OR push_bit 8 (from_bytes bs)"

definition as_bytes :: "'a::len word \<Rightarrow> u8 list" where
  "as_bytes w = map (\<lambda>i. ucast (drop_bit (8 * i) w)) [0..<LENGTH('a) div 8]"

lemma bit_from_bytes [byte_simps]:
  "bit (from_bytes bs :: 'a::len word) n \<longleftrightarrow>
     n < LENGTH('a) \<and> n div 8 < length bs \<and> bit (bs ! (n div 8)) (n mod 8)"
proof (induction bs arbitrary: n)
  case Nil
  then show ?case by simp
next
  case (Cons b bs)
  show ?case
  proof (cases "n < 8")
    case True
    then show ?thesis by (auto simp: bit_simps dest: bit_imp_le_length)
  next
    case False
    then have d: "n div 8 = Suc ((n - 8) div 8)" "n mod 8 = (n - 8) mod 8"
      by (simp_all add: le_div_geq le_mod_geq)
    have "\<not> bit b n" using False bit_imp_le_length [of b n] by auto
    then show ?thesis using False Cons.IH [of "n - 8"]
      by (auto simp: bit_simps d)
  qed
qed

lemma from_bytes_replicate_0 [simp]: "from_bytes (replicate n 0) = 0"
  by (induction n) simp_all

lemma length_as_bytes [simp, byte_simps]: "length (as_bytes (w :: 'a::len word)) = LENGTH('a) div 8"
  by (simp add: as_bytes_def)

lemma nth_as_bytes [byte_simps]:
  "i < LENGTH('a) div 8 \<Longrightarrow> as_bytes (w :: 'a::len word) ! i = ucast (drop_bit (8 * i) w)"
  by (simp add: as_bytes_def)

lemma from_as_bytes [simp, byte_simps]:
  fixes w :: "'a::len word"
  assumes "8 dvd LENGTH('a)"
  shows "from_bytes (as_bytes w) = w"
proof (rule bit_word_eqI)
  fix n assume n: "n < LENGTH('a)"
  from assms n have i: "n div 8 < LENGTH('a) div 8"
    by (simp add: div_less_iff_less_mult dvd_div_mult_self)
  have "bit (from_bytes (as_bytes w) :: 'a word) n = bit (as_bytes w ! (n div 8)) (n mod 8)"
    using n i by (simp add: bit_from_bytes)
  also have "\<dots> = bit w (8 * (n div 8) + n mod 8)"
    using i by (simp add: nth_as_bytes bit_simps del: mult_div_mod_eq)
  finally show "bit (from_bytes (as_bytes w) :: 'a word) n = bit w n" by simp
qed

lemma as_from_bytes [byte_simps]:
  assumes "length bs = LENGTH('a::len) div 8"
  shows "as_bytes (from_bytes bs :: 'a word) = bs"
proof (rule nth_equalityI)
  show "length (as_bytes (from_bytes bs :: 'a word)) = length bs" using assms by simp
next
  fix i assume "i < length (as_bytes (from_bytes bs :: 'a word))"
  then have i: "i < LENGTH('a) div 8" by simp
  show "as_bytes (from_bytes bs :: 'a word) ! i = bs ! i"
  proof (rule bit_word_eqI)
    fix n assume n: "n < LENGTH(8)"
    then have n8: "n < 8" by simp
    have "bit (as_bytes (from_bytes bs :: 'a word) ! i) n = bit (from_bytes bs :: 'a word) (8 * i + n)"
      using i n8 by (simp add: nth_as_bytes bit_simps)
    also have "\<dots> = bit (bs ! i) n"
      using n8 i assms byte_index_bound [OF i n8] by (simp only: bit_from_bytes) simp
    finally show "bit (as_bytes (from_bytes bs :: 'a word) ! i) n = bit (bs ! i) n" .
  qed
qed

lemma from_bytes_append_zero:
  "from_bytes (bs @ replicate k 0) = (from_bytes bs :: 'a::len word)"
proof (rule bit_word_eqI)
  fix n assume "n < LENGTH('a)"
  then show "bit (from_bytes (bs @ replicate k 0) :: 'a word) n = bit (from_bytes bs :: 'a word) n"
    by (auto simp: bit_from_bytes nth_append)
qed

subsection \<open>Fixed-size byte arrays\<close>

text \<open>
  \<open>to_byte64\<close> and \<open>to_byte128\<close> copy a value into a zeroed array of 8 or 16 bytes.
\<close>

definition to_byte_array :: "nat \<Rightarrow> u8 list \<Rightarrow> u8 list" where
  "to_byte_array n src = src @ replicate (n - length src) 0"

definition to_byte64 :: "u8 list \<Rightarrow> u8 list" where
  "to_byte64 src = to_byte_array 8 src"

definition to_byte128 :: "u8 list \<Rightarrow> u8 list" where
  "to_byte128 src = to_byte_array 16 src"

lemma length_to_byte_array: "length src \<le> n \<Longrightarrow> length (to_byte_array n src) = n"
  by (simp add: to_byte_array_def)

lemma take_to_byte_array [simp]: "take (length src) (to_byte_array n src) = src"
  by (simp add: to_byte_array_def)

text \<open>Widening a value through a zeroed array keeps it: the added bytes are zero.\<close>

lemma from_to_byte128: "from_bytes (to_byte128 src) = (from_bytes src :: 'a::len word)"
  by (simp add: to_byte128_def to_byte_array_def from_bytes_append_zero)

lemma from_to_byte64: "from_bytes (to_byte64 src) = (from_bytes src :: 'a::len word)"
  by (simp add: to_byte64_def to_byte_array_def from_bytes_append_zero)

subsection \<open>Overwriting bytes in place\<close>

text \<open>
  \<open>std::copy\<close> into a byte buffer at an offset, the way the register file and the memory
  writer use it; the destination range lies inside the buffer.
\<close>

definition copy_at :: "nat \<Rightarrow> u8 list \<Rightarrow> u8 list \<Rightarrow> u8 list" where
  "copy_at off src dst = take off dst @ src @ drop (off + length src) dst"

lemma length_copy_at [simp]:
  "off + length src \<le> length dst \<Longrightarrow> length (copy_at off src dst) = length dst"
  by (simp add: copy_at_def)

lemma nth_copy_at:
  "off + length src \<le> length dst \<Longrightarrow> i < length dst \<Longrightarrow>
   copy_at off src dst ! i =
     (if off \<le> i \<and> i < off + length src then src ! (i - off) else dst ! i)"
  by (auto simp: copy_at_def nth_append min_def)

definition bytes_at :: "nat \<Rightarrow> nat \<Rightarrow> u8 list \<Rightarrow> u8 list" where
  "bytes_at off n bs = take n (drop off bs)"

lemma length_bytes_at [simp]: "off + n \<le> length bs \<Longrightarrow> length (bytes_at off n bs) = n"
  by (simp add: bytes_at_def)

lemma nth_bytes_at [simp]: "off + n \<le> length bs \<Longrightarrow> i < n \<Longrightarrow> bytes_at off n bs ! i = bs ! (off + i)"
  by (simp add: bytes_at_def)

lemma bytes_at_copy_at [simp]:
  "off + length src \<le> length dst \<Longrightarrow> bytes_at off (length src) (copy_at off src dst) = src"
  by (simp add: bytes_at_def copy_at_def)

lemma bytes_at_copy_at_disjoint:
  assumes "off + length src \<le> length dst" and "off' + n \<le> length dst"
    and "off' + n \<le> off \<or> off + length src \<le> off'"
  shows "bytes_at off' n (copy_at off src dst) = bytes_at off' n dst"
  using assms by (intro nth_equalityI) (auto simp: nth_copy_at)

end
