(* ===== verification/KD_Types.thy ===== *)
theory KD_Types
  imports KD_Bits
begin

text \<open>
  \<open>include/libkdebugger/types.hpp\<close>: virtual addresses, file addresses (an address
  together with the ELF file it belongs to), file offsets and spans. Address arithmetic is
  on 64-bit words and wraps. A virtual address is ordered by its number, which is the
  instance of \<open>linorder\<close> below; a file address is not ordered, since its comparisons
  assert that both sides belong to the same file.
\<close>

subsection \<open>Virtual addresses\<close>

datatype virt_addr = VirtAddr (addr: u64)

definition virt_addr_default :: virt_addr where
  "virt_addr_default = VirtAddr 0"

definition va_add :: "virt_addr \<Rightarrow> u64 \<Rightarrow> virt_addr" where
  "va_add a off = VirtAddr (addr a + off)"

definition va_sub :: "virt_addr \<Rightarrow> u64 \<Rightarrow> virt_addr" where
  "va_sub a off = VirtAddr (addr a - off)"

instantiation virt_addr :: linorder
begin

definition less_eq_virt_addr :: "virt_addr \<Rightarrow> virt_addr \<Rightarrow> bool" where
  "less_eq_virt_addr a b \<longleftrightarrow> addr a \<le> addr b"

definition less_virt_addr :: "virt_addr \<Rightarrow> virt_addr \<Rightarrow> bool" where
  "less_virt_addr a b \<longleftrightarrow> addr a < addr b"

instance
  by standard (auto simp: less_eq_virt_addr_def less_virt_addr_def virt_addr.expand)

end

lemmas virt_addr_order = less_eq_virt_addr_def less_virt_addr_def

lemma va_add_addr [simp]: "addr (va_add a off) = addr a + off"
  by (simp add: va_add_def)

lemma va_sub_addr [simp]: "addr (va_sub a off) = addr a - off"
  by (simp add: va_sub_def)

lemma va_sub_add [simp]: "va_sub (va_add a off) off = a" "va_add (va_sub a off) off = a"
  by (simp_all add: va_add_def va_sub_def)

subsection \<open>Spans\<close>

text \<open>
  A pointer and a length. The constructor from two pointers stores their difference as a
  \<open>std::size_t\<close>; \<open>send\<close> is \<open>end()\<close>.
\<close>

record span =
  sdata :: ptr
  ssize :: nat

definition mk_span :: "ptr \<Rightarrow> ptr \<Rightarrow> span" where
  "mk_span b e = \<lparr>sdata = b, ssize = (if b \<le> e then e - b else 2 ^ 64 - (b - e))\<rparr>"

definition send :: "span \<Rightarrow> ptr" where
  "send s = sdata s + ssize s"

lemma send_mk_span [simp]: "b \<le> e \<Longrightarrow> send (mk_span b e) = e"
  by (simp add: send_def mk_span_def)

lemma sdata_mk_span [simp]: "sdata (mk_span b e) = b"
  by (simp add: mk_span_def)

definition null_span :: span where
  "null_span = \<lparr>sdata = nullptr, ssize = 0\<rparr>"

subsection \<open>File addresses and file offsets\<close>

text \<open>
  \<open>const elf *\<close> is the number of the file in the order in which the files were loaded;
  \<open>None\<close> is \<open>nullptr\<close>.
\<close>

type_synonym elf_id = nat

record file_addr =
  fa_elf :: "elf_id option"
  fa_addr :: u64

definition file_addr_default :: file_addr where
  "file_addr_default = \<lparr>fa_elf = None, fa_addr = 0\<rparr>"

definition mk_file_addr :: "elf_id \<Rightarrow> u64 \<Rightarrow> file_addr" where
  "mk_file_addr e a = \<lparr>fa_elf = Some e, fa_addr = a\<rparr>"

text \<open>\<open>operator +\<close> dereferences \<open>m_Elf\<close>, the compound assignments do not.\<close>

definition fa_plus :: "file_addr \<Rightarrow> u64 \<Rightarrow> file_addr result" where
  "fa_plus a off = (case fa_elf a of
      None \<Rightarrow> Inl (UB ''file_addr + on a null address'')
    | Some e \<Rightarrow> Inr (mk_file_addr e (fa_addr a + off)))"

definition fa_minus :: "file_addr \<Rightarrow> u64 \<Rightarrow> file_addr result" where
  "fa_minus a off = (case fa_elf a of
      None \<Rightarrow> Inl (UB ''file_addr - on a null address'')
    | Some e \<Rightarrow> Inr (mk_file_addr e (fa_addr a - off)))"

definition fa_add_assign :: "file_addr \<Rightarrow> u64 \<Rightarrow> file_addr" where
  "fa_add_assign a off = a\<lparr>fa_addr := fa_addr a + off\<rparr>"

definition fa_sub_assign :: "file_addr \<Rightarrow> u64 \<Rightarrow> file_addr" where
  "fa_sub_assign a off = a\<lparr>fa_addr := fa_addr a - off\<rparr>"

definition fa_eq :: "file_addr \<Rightarrow> file_addr \<Rightarrow> bool" where
  "fa_eq a b \<longleftrightarrow> fa_addr a = fa_addr b \<and> fa_elf a = fa_elf b"

definition fa_neq :: "file_addr \<Rightarrow> file_addr \<Rightarrow> bool" where
  "fa_neq a b \<longleftrightarrow> fa_addr a \<noteq> fa_addr b \<and> fa_elf a \<noteq> fa_elf b"

text \<open>The ordered comparisons abort through \<open>assert\<close> when the files differ.\<close>

definition fa_cmp :: "(u64 \<Rightarrow> u64 \<Rightarrow> bool) \<Rightarrow> file_addr \<Rightarrow> file_addr \<Rightarrow> bool result" where
  "fa_cmp cmp a b =
     (if fa_elf a = fa_elf b then Inr (cmp (fa_addr a) (fa_addr b)) else Inl Terminate)"

definition fa_less :: "file_addr \<Rightarrow> file_addr \<Rightarrow> bool result" where
  "fa_less = fa_cmp (<)"

definition fa_less_eq :: "file_addr \<Rightarrow> file_addr \<Rightarrow> bool result" where
  "fa_less_eq = fa_cmp (\<le>)"

definition fa_greater :: "file_addr \<Rightarrow> file_addr \<Rightarrow> bool result" where
  "fa_greater = fa_cmp (>)"

definition fa_greater_eq :: "file_addr \<Rightarrow> file_addr \<Rightarrow> bool result" where
  "fa_greater_eq = fa_cmp (\<ge>)"

lemmas fa_cmp_defs = fa_less_def fa_less_eq_def fa_greater_def fa_greater_eq_def fa_cmp_def

lemma fa_eq_iff: "fa_eq a b \<longleftrightarrow> a = b"
  by (cases a; cases b) (auto simp: fa_eq_def)

lemma fa_add_assign_elf [simp]: "fa_elf (fa_add_assign a off) = fa_elf a"
  by (simp add: fa_add_assign_def)

lemma fa_add_assign_addr [simp]: "fa_addr (fa_add_assign a off) = fa_addr a + off"
  by (simp add: fa_add_assign_def)

text \<open>Adding an offset through the operator and through the assignment agree on a file.\<close>

lemma fa_plus_add_assign: "fa_elf a = Some e \<Longrightarrow> fa_plus a off = Inr (fa_add_assign a off)"
  by (cases a) (simp add: fa_plus_def fa_add_assign_def mk_file_addr_def)

text \<open>
  \<open>operator !=\<close> is not the negation of \<open>operator ==\<close>: two addresses that differ in
  only one of the two parts are neither equal nor unequal.
\<close>

lemma fa_neq_implies_not_eq: "fa_neq a b \<Longrightarrow> \<not> fa_eq a b"
  by (simp add: fa_neq_def fa_eq_def)

record file_offset =
  fo_elf :: elf_id
  fo_off :: u64

definition mk_file_offset :: "elf_id \<Rightarrow> u64 \<Rightarrow> file_offset" where
  "mk_file_offset e off = \<lparr>fo_elf = e, fo_off = off\<rparr>"

end
