(* ===== verification/KD_Cursor.thy ===== *)
theory KD_Cursor
  imports KD_Types
begin

text \<open>
  The byte cursor of \<open>include/libkdebugger/dwarf.hpp\<close> and its readers in
  \<open>src/dwarf.cpp\<close>. All DWARF sections live in one file mapped by
  \<open>elf::elf\<close>; the model of that mapping is an \<open>image\<close>, its address and its bytes.
  The readers do not compare the position with the end of the span before they read, so a
  read succeeds exactly when it lies inside the mapping.
\<close>

unbundle bit_operations_syntax

subsection \<open>The mapped file\<close>

record image =
  ibase :: ptr
  ibytes :: "u8 list"

definition iend :: "image \<Rightarrow> ptr" where
  "iend img = ibase img + length (ibytes img)"

definition load_byte :: "image \<Rightarrow> ptr \<Rightarrow> u8 result" where
  "load_byte img p =
     (if ibase img \<le> p \<and> p < iend img then Inr (ibytes img ! (p - ibase img))
      else Inl (UB ''read outside the mapped file''))"

definition load_bytes :: "image \<Rightarrow> ptr \<Rightarrow> nat \<Rightarrow> u8 list result" where
  "load_bytes img p n =
     (if ibase img \<le> p \<and> p + n \<le> iend img then Inr (bytes_at (p - ibase img) n (ibytes img))
      else Inl (UB ''read outside the mapped file''))"

lemma load_byte_Inr:
  "load_byte img p = Inr b \<longleftrightarrow> ibase img \<le> p \<and> p < iend img \<and> b = ibytes img ! (p - ibase img)"
  by (auto simp: load_byte_def)

lemma load_bytes_Inr:
  "load_bytes img p n = Inr bs \<longleftrightarrow>
     ibase img \<le> p \<and> p + n \<le> iend img \<and> bs = bytes_at (p - ibase img) n (ibytes img)"
  by (auto simp: load_bytes_def)

text \<open>\<open>has_bytes img p bs\<close>: the bytes \<open>bs\<close> are mapped at \<open>p\<close>.\<close>

fun has_bytes :: "image \<Rightarrow> ptr \<Rightarrow> u8 list \<Rightarrow> bool" where
  "has_bytes img p [] \<longleftrightarrow> True"
| "has_bytes img p (b # bs) \<longleftrightarrow> load_byte img p = Inr b \<and> has_bytes img (Suc p) bs"

lemma has_bytes_append [simp]:
  "has_bytes img p (xs @ ys) \<longleftrightarrow> has_bytes img p xs \<and> has_bytes img (p + length xs) ys"
  by (induction xs arbitrary: p) auto

lemma has_bytes_load_bytes:
  "bs \<noteq> [] \<Longrightarrow> has_bytes img p bs \<Longrightarrow> load_bytes img p (length bs) = Inr bs"
proof (induction bs arbitrary: p)
  case Nil
  then show ?case by simp
next
  case (Cons b bs)
  from Cons.prems(2) have b: "ibase img \<le> p" "p < iend img" "b = ibytes img ! (p - ibase img)"
    by (auto simp: load_byte_Inr)
  show ?case
  proof (cases bs)
    case Nil
    with b show ?thesis
      by (auto simp: load_bytes_Inr bytes_at_def iend_def take_Suc hd_drop_conv_nth)
  next
    case (Cons c cs)
    then have "load_bytes img (Suc p) (length bs) = Inr bs"
      using Cons.IH [of "Suc p"] Cons.prems(2) by auto
    then have l: "Suc p + length bs \<le> iend img" "bs = bytes_at (Suc p - ibase img) (length bs) (ibytes img)"
      by (auto simp: load_bytes_Inr)
    have "b # bs = bytes_at (p - ibase img) (Suc (length bs)) (ibytes img)"
    proof (rule nth_equalityI)
      show "length (b # bs) = length (bytes_at (p - ibase img) (Suc (length bs)) (ibytes img))"
        using l(1) b(1) by (simp add: bytes_at_def iend_def)
    next
      fix i assume "i < length (b # bs)"
      then show "(b # bs) ! i = bytes_at (p - ibase img) (Suc (length bs)) (ibytes img) ! i"
        using b l(1) arg_cong [OF l(2), of "\<lambda>xs. xs ! (i - 1)"]
        by (cases i) (auto simp: iend_def Suc_diff_le)
    qed
    from this [symmetric] show ?thesis using b(1) l(1) by (simp add: load_bytes_Inr)
  qed
qed

lemma image_has_bytes:
  "has_bytes \<lparr>ibase = b, ibytes = pre @ bs @ post\<rparr> (b + length pre) bs"
proof (induction bs arbitrary: pre)
  case Nil
  then show ?case by simp
next
  case (Cons x xs)
  have "has_bytes \<lparr>ibase = b, ibytes = (pre @ [x]) @ xs @ post\<rparr> (b + length (pre @ [x])) xs"
    by (rule Cons.IH)
  then show ?case by (simp add: load_byte_def iend_def nth_append)
qed

subsection \<open>The cursor\<close>

record cursor =
  cdata :: span
  cpos :: ptr

definition mk_cursor :: "span \<Rightarrow> cursor" where
  "mk_cursor s = \<lparr>cdata = s, cpos = sdata s\<rparr>"

definition cursor_advance :: "nat \<Rightarrow> cursor \<Rightarrow> cursor" where
  "cursor_advance n c = c\<lparr>cpos := cpos c + n\<rparr>"

definition finished :: "cursor \<Rightarrow> bool" where
  "finished c \<longleftrightarrow> send (cdata c) \<le> cpos c"

type_synonym 'a reader = "cursor \<Rightarrow> ('a \<times> cursor) result"

definition fixed_int :: "image \<Rightarrow> 'a::len word reader" where
  "fixed_int img c =
     rbind (load_bytes img (cpos c) (LENGTH('a) div 8)) (\<lambda>bs.
     Inr (from_bytes bs, cursor_advance (LENGTH('a) div 8) c))"

definition cu8 :: "image \<Rightarrow> u8 reader" where "cu8 = fixed_int"
definition cu16 :: "image \<Rightarrow> u16 reader" where "cu16 = fixed_int"
definition cu32 :: "image \<Rightarrow> u32 reader" where "cu32 = fixed_int"
definition cu64 :: "image \<Rightarrow> u64 reader" where "cu64 = fixed_int"

text \<open>The signed readers return the same bits; their users sign-extend with \<open>scast\<close>.\<close>

definition cs8 :: "image \<Rightarrow> u8 reader" where "cs8 = fixed_int"
definition cs16 :: "image \<Rightarrow> u16 reader" where "cs16 = fixed_int"
definition cs32 :: "image \<Rightarrow> u32 reader" where "cs32 = fixed_int"
definition cs64 :: "image \<Rightarrow> u64 reader" where "cs64 = fixed_int"

lemmas fixed_int_defs = cu8_def cu16_def cu32_def cu64_def cs8_def cs16_def cs32_def cs64_def

lemma cpos_cursor_advance [simp]: "cpos (cursor_advance n c) = cpos c + n"
  by (simp add: cursor_advance_def)

lemma cdata_cursor_advance [simp]: "cdata (cursor_advance n c) = cdata c"
  by (simp add: cursor_advance_def)

lemma cursor_advance_advance [simp]:
  "cursor_advance m (cursor_advance n c) = cursor_advance (n + m) c"
  by (simp add: cursor_advance_def add.assoc)

lemma cursor_advance_0 [simp]: "cursor_advance 0 c = c"
  by (simp add: cursor_advance_def)

subsection \<open>What every reader promises\<close>

text \<open>
  The parsers that use the cursor rely on one contract: a reader that returns keeps the
  span, moves the position forward over bytes that are mapped, and (for the readers that
  consume at least one byte) moves it strictly. The loops over a section terminate because
  of it: the distance to the end of the mapping shrinks with every call.
\<close>

locale forward_reader =
  fixes img :: image and rd :: "'a reader"
  assumes keeps_data: "rd c = Inr (x, c') \<Longrightarrow> cdata c' = cdata c"
    and forward: "rd c = Inr (x, c') \<Longrightarrow> cpos c \<le> cpos c'"
begin

lemma span_end_kept: "rd c = Inr (x, c') \<Longrightarrow> send (cdata c') = send (cdata c)"
  by (simp add: keeps_data)

lemma still_finished: "rd c = Inr (x, c') \<Longrightarrow> finished c \<Longrightarrow> finished c'"
  using forward keeps_data by (fastforce simp: finished_def)

end

locale consuming_reader = forward_reader img rd for img :: image and rd :: "'a reader" +
  assumes inside: "rd c = Inr (x, c') \<Longrightarrow> ibase img \<le> cpos c \<and> cpos c' \<le> iend img"
    and strict: "rd c = Inr (x, c') \<Longrightarrow> cpos c < cpos c'"
begin

definition left :: "cursor \<Rightarrow> nat" where
  "left c = iend img - cpos c"

lemma decreases: "rd c = Inr (x, c') \<Longrightarrow> left c' < left c"
  using inside strict by (fastforce simp: left_def)

lemma fails_outside: "iend img \<le> cpos c \<Longrightarrow> \<exists>e. rd c = Inl e"
proof (cases "rd c")
  case (Inr r)
  moreover assume "iend img \<le> cpos c"
  ultimately show ?thesis using inside strict by (cases r) fastforce
qed simp

end

lemma fixed_int_Inr:
  "fixed_int img c = Inr (x :: 'a::len word, c') \<longleftrightarrow>
     (\<exists>bs. load_bytes img (cpos c) (LENGTH('a) div 8) = Inr bs \<and> x = from_bytes bs
        \<and> c' = cursor_advance (LENGTH('a) div 8) c)"
  by (auto simp: fixed_int_def rbind_eq_Inr)

lemma fixed_int_consuming:
  "8 \<le> LENGTH('a) \<Longrightarrow> consuming_reader img (fixed_int img :: 'a::len word reader)"
  by unfold_locales (auto simp: fixed_int_Inr load_bytes_Inr div_greater_zero_iff)

interpretation cu8: consuming_reader img "cu8 img" for img
  unfolding cu8_def by (rule fixed_int_consuming) simp

interpretation cu16: consuming_reader img "cu16 img" for img
  unfolding cu16_def by (rule fixed_int_consuming) simp

interpretation cu32: consuming_reader img "cu32 img" for img
  unfolding cu32_def by (rule fixed_int_consuming) simp

interpretation cu64: consuming_reader img "cu64 img" for img
  unfolding cu64_def by (rule fixed_int_consuming) simp

lemma fixed_int_has_bytes:
  assumes "has_bytes img (cpos c) (as_bytes x)" and "8 dvd LENGTH('a)"
  shows "fixed_int img c = Inr (x :: 'a::len word, cursor_advance (LENGTH('a) div 8) c)"
proof -
  have "0 < LENGTH('a) div 8" using assms(2) by (metis dvd_div_eq_0_iff len_gt_0 neq0_conv)
  then have "as_bytes x \<noteq> []" by (metis length_as_bytes length_greater_0_conv)
  then have "load_bytes img (cpos c) (length (as_bytes x)) = Inr (as_bytes x)"
    using assms(1) by (rule has_bytes_load_bytes)
  then show ?thesis using assms(2) by (simp add: fixed_int_def)
qed

lemma cu8_Inr: "cu8 img c = Inr (b, c') \<longleftrightarrow> load_byte img (cpos c) = Inr b \<and> c' = cursor_advance 1 c"
proof -
  have "from_bytes [x] = (x :: u8)" for x by simp
  then show ?thesis
    by (auto simp: cu8_def fixed_int_Inr load_bytes_Inr load_byte_Inr bytes_at_def iend_def
        take_Suc hd_drop_conv_nth)
qed

lemma cu8_load: "cu8 img c = rbind (load_byte img (cpos c)) (\<lambda>b. Inr (b, cursor_advance 1 c))"
proof -
  have "from_bytes [x] = (x :: u8)" for x by simp
  then show ?thesis
    by (auto simp: cu8_def fixed_int_def load_bytes_def load_byte_def bytes_at_def iend_def
        take_Suc hd_drop_conv_nth)
qed

end
