(* ===== verification/KD_Leb.thy ===== *)
theory KD_Leb
  imports KD_Cursor
begin

text \<open>
  The variable-length readers of the cursor (\<open>src/dwarf.cpp\<close>): LEB128 numbers and
  NUL-terminated strings, with reference encoders and the round trips between them. A shift
  by 64 or more is undefined in the language and is a failure of the model, so a decoder
  that returns has read at most ten bytes.
\<close>

unbundle bit_operations_syntax

subsection \<open>LEB128\<close>

text \<open>
  The loop that both decoders run: the accumulated bits, the shift after the last byte and
  the last byte itself.
\<close>

function leb128_loop :: "image \<Rightarrow> u64 \<Rightarrow> nat \<Rightarrow> cursor \<Rightarrow> ((u64 \<times> nat \<times> u8) \<times> cursor) result" where
  "leb128_loop img res shift c =
     rbind (cu8 img c) (\<lambda>(byte, c').
     if 64 \<le> shift then Inl (UB ''shift count'')
     else let masked = ucast (byte AND 0x7f); res' = res OR push_bit shift masked; shift' = shift + 7
       in if byte AND 0x80 \<noteq> 0 then leb128_loop img res' shift' c'
          else Inr ((res', shift', byte), c'))"
  by pat_completeness auto
termination
  by (relation "measure (\<lambda>(img, res, shift, c). iend img - cpos c)")
     (auto simp: cu8_Inr load_byte_Inr)

declare leb128_loop.simps [simp del]

definition uleb128 :: "image \<Rightarrow> u64 reader" where
  "uleb128 img c = rbind (leb128_loop img 0 0 c) (\<lambda>((res, shift, byte), c'). Inr (res, c'))"

text \<open>
  The signed decoder sets the bits above the last group only when \<open>shift < sizeof(res)\<close>,
  that is, when the shift in bits is below the eight bytes of the result.
\<close>

definition sleb128 :: "image \<Rightarrow> u64 reader" where
  "sleb128 img c = rbind (leb128_loop img 0 0 c) (\<lambda>((res, shift, byte), c').
     if shift < 8 \<and> byte AND 0x40 \<noteq> 0 then Inr (res OR push_bit shift (NOT 0), c')
     else Inr (res, c'))"

lemma leb128_loopE:
  assumes "leb128_loop img res shift c = Inr (r, c')"
  obtains (stop) byte where "cu8 img c = Inr (byte, c')" and "shift < 64"
      and "byte AND 0x80 = 0" and "r = (res OR push_bit shift (ucast (byte AND 0x7f)), shift + 7, byte)"
    | (more) byte c1 where "cu8 img c = Inr (byte, c1)" and "shift < 64" and "byte AND 0x80 \<noteq> 0"
      and "leb128_loop img (res OR push_bit shift (ucast (byte AND 0x7f))) (shift + 7) c1 = Inr (r, c')"
proof -
  from assms obtain byte c1 where c1: "cu8 img c = Inr (byte, c1)" and lt: "shift < 64"
    by (subst (asm) leb128_loop.simps) (auto simp: rbind_eq_Inr split: if_splits)
  show thesis
  proof (cases "byte AND 0x80 = 0")
    case True
    with assms c1 lt show thesis
      by (subst (asm) leb128_loop.simps) (auto simp: Let_def intro: stop)
  next
    case False
    with assms c1 lt show thesis
      by (subst (asm) leb128_loop.simps) (auto simp: Let_def intro: more)
  qed
qed

lemma leb128_loop_progress:
  "leb128_loop img res shift c = Inr (r, c') \<Longrightarrow>
     cdata c' = cdata c \<and> cpos c < cpos c' \<and> ibase img \<le> cpos c \<and> cpos c' \<le> iend img"
proof (induction "iend img - cpos c" arbitrary: res shift c rule: less_induct)
  case less
  from less.prems show ?case
  proof (cases rule: leb128_loopE)
    case (stop byte)
    then show ?thesis by (auto simp: cu8_Inr load_byte_Inr)
  next
    case (more byte c1)
    then have c1: "cdata c1 = cdata c" "cpos c1 = Suc (cpos c)" "ibase img \<le> cpos c" "cpos c < iend img"
      by (auto simp: cu8_Inr load_byte_Inr)
    then have d: "iend img - cpos c1 < iend img - cpos c" by simp
    show ?thesis using less.hyps [OF d more(4)] c1 by auto
  qed
qed

lemma leb128_loop_bounds:
  "leb128_loop img res shift c = Inr ((r, s, b), c') \<Longrightarrow>
     s \<le> 70 \<and> s = shift + 7 * (cpos c' - cpos c)"
proof (induction "iend img - cpos c" arbitrary: res shift c rule: less_induct)
  case less
  from less.prems show ?case
  proof (cases rule: leb128_loopE)
    case (stop byte)
    then show ?thesis by (auto simp: cu8_Inr)
  next
    case (more byte c1)
    then have c1: "cpos c1 = Suc (cpos c)" "cpos c < iend img"
      by (auto simp: cu8_Inr load_byte_Inr)
    then have d: "iend img - cpos c1 < iend img - cpos c" by simp
    have "s \<le> 70 \<and> s = shift + 7 + 7 * (cpos c' - cpos c1)"
      by (rule less.hyps [OF d more(4)])
    moreover have "cpos c1 < cpos c'" using leb128_loop_progress [OF more(4)] by simp
    ultimately show ?thesis using c1 by simp
  qed
qed

interpretation uleb: consuming_reader img "uleb128 img" for img
  by unfold_locales (auto simp: uleb128_def rbind_eq_Inr dest: leb128_loop_progress)

interpretation sleb: consuming_reader img "sleb128 img" for img
  by unfold_locales
     (fastforce simp: sleb128_def rbind_eq_Inr split: if_splits dest: leb128_loop_progress)+

lemma uleb128_max_length: "uleb128 img c = Inr (x, c') \<Longrightarrow> cpos c' \<le> cpos c + 10"
  by (auto simp: uleb128_def rbind_eq_Inr dest: leb128_loop_bounds)

lemma sleb128_max_length: "sleb128 img c = Inr (x, c') \<Longrightarrow> cpos c' \<le> cpos c + 10"
  by (auto simp: sleb128_def rbind_eq_Inr split: if_splits dest: leb128_loop_bounds)

subsection \<open>The unsigned round trip\<close>

fun encode_uleb128 :: "nat \<Rightarrow> u8 list" where
  "encode_uleb128 n =
     (if n < 128 then [of_nat n] else of_nat (128 + n mod 128) # encode_uleb128 (n div 128))"

declare encode_uleb128.simps [simp del]

lemma encode_uleb128_not_Nil [simp]: "encode_uleb128 n \<noteq> []"
  by (subst encode_uleb128.simps) simp

lemma bit_nat_ge_power: "(n :: nat) < 2 ^ k \<Longrightarrow> k \<le> i \<Longrightarrow> \<not> bit n i"
  by (metis bit_iff_odd div_less even_zero less_le_trans one_le_numeral power_increasing)

lemma of_nat_split_7:
  "(of_nat n :: u64) = of_nat (n mod 128) OR push_bit 7 (of_nat (n div 128))"
proof (rule bit_word_eqI)
  fix i assume i: "i < LENGTH(64)"
  have "bit n i = (if i < 7 then bit (n mod 128) i else bit (n div 128) (i - 7))"
  proof (cases "i < 7")
    case True
    have "n mod 128 = take_bit 7 n" by (simp add: take_bit_eq_mod)
    with True show ?thesis by (simp add: bit_take_bit_iff)
  next
    case False
    have "n div 128 = drop_bit 7 n" by (simp add: drop_bit_eq_div)
    with False show ?thesis by (simp add: bit_drop_bit_eq)
  qed
  moreover have "\<not> bit (n mod 128) i" if "\<not> i < 7"
    using that by (intro bit_nat_ge_power [of _ 7]) auto
  ultimately show "bit (of_nat n :: u64) i = bit (of_nat (n mod 128) OR push_bit 7 (of_nat (n div 128)) :: u64) i"
    using i by (auto simp: bit_simps)
qed

lemma low_seven:
  fixes w :: u8
  assumes "unat w mod 128 = n"
  shows "ucast (w AND 0x7f) = (of_nat n :: u64)" "w AND 0x80 = 0 \<longleftrightarrow> unat w < 128"
proof -
  have m: "0x7f = (mask 7 :: u8)" by (simp add: mask_eq_exp_minus_1)
  have n: "n < 128" using assms by auto
  have t: "unat (w AND 0x7f) = n"
    unfolding m using assms by (simp only: unsigned_take_bit_eq flip: take_bit_eq_mask) (simp add: take_bit_eq_mod)
  have "unat (ucast (w AND 0x7f) :: u64) = n" using t n by (simp add: unsigned_ucast_eq take_bit_nat_eq_self)
  then show "ucast (w AND 0x7f) = (of_nat n :: u64)" using n by (simp add: word_unat_eq_iff unat_of_nat)
  have "w AND 0x80 = 0 \<longleftrightarrow> \<not> bit w 7" using and_exp_eq_0_iff_not_bit [of w 7] by simp
  also have "\<dots> \<longleftrightarrow> even (unat w div 128)" using bit_unsigned_iff [of w 7, where 'a = nat] by (auto simp: bit_iff_odd [of "unat w"])
  also have "\<dots> \<longleftrightarrow> unat w < 128"
  proof -
    have "unat w < 2 ^ LENGTH(8)" by (rule unsigned_less)
    then have "unat w div 128 = 0 \<or> unat w div 128 = 1" by (auto simp: div_eq_0_iff) 
    then show ?thesis by auto
  qed
  finally show "w AND 0x80 = 0 \<longleftrightarrow> unat w < 128" .
qed

lemma leb_group_last: "n < 128 \<Longrightarrow> ucast ((of_nat n :: u8) AND 0x7f) = (of_nat n :: u64)
    \<and> (of_nat n :: u8) AND 0x80 = 0"
  using low_seven [of "of_nat n" n] by (simp add: unat_of_nat)

lemma leb_group_more: "n < 128 \<Longrightarrow> ucast ((of_nat (128 + n) :: u8) AND 0x7f) = (of_nat n :: u64)
    \<and> (of_nat (128 + n) :: u8) AND 0x80 \<noteq> 0"
proof -
  assume "n < 128"
  then have "unat (of_nat (128 + n) :: u8) = 128 + n" unfolding unat_of_nat by simp
  then show ?thesis using low_seven [of "of_nat (128 + n)" n] \<open>n < 128\<close> by simp
qed

text \<open>
  \<open>leb_groups k n\<close> writes \<open>n\<close> in exactly \<open>k\<close> groups of seven bits, with every byte but
  the last marked as continued; it need not be the shortest encoding.
\<close>

fun leb_groups :: "nat \<Rightarrow> nat \<Rightarrow> u8 list" where
  "leb_groups 0 n = []"
| "leb_groups (Suc 0) n = [of_nat (n mod 128)]"
| "leb_groups (Suc (Suc k)) n = of_nat (128 + n mod 128) # leb_groups (Suc k) (n div 128)"

lemma length_leb_groups [simp]: "length (leb_groups k n) = k"
  by (induction k n rule: leb_groups.induct) auto

lemma leb128_loop_groups:
  assumes "has_bytes img (cpos c) (leb_groups (Suc k) n)" and "shift + 7 * k < 64" and "n < 128 ^ Suc k"
  shows "leb128_loop img res shift c =
     Inr ((res OR push_bit shift (of_nat n), shift + 7 * Suc k, last (leb_groups (Suc k) n)),
       cursor_advance (Suc k) c)"
  using assms
proof (induction k arbitrary: res shift c n)
  case 0
  then show ?case using leb_group_last [of n]
    by (subst leb128_loop.simps) (simp add: cu8_load Let_def)
next
  case (Suc k)
  let ?m = "n mod 128" and ?q = "n div 128" and ?res = "res OR push_bit shift (of_nat (n mod 128))"
  from Suc.prems(1) have b: "load_byte img (cpos c) = Inr (of_nat (128 + ?m))"
    and rest: "has_bytes img (cpos (cursor_advance 1 c)) (leb_groups (Suc k) ?q)" by simp_all
  have q: "?q < 128 ^ Suc k" using Suc.prems(3) by (simp add: less_mult_imp_div_less mult.commute)
  have IH: "leb128_loop img ?res (shift + 7) (cursor_advance 1 c) =
      Inr ((?res OR push_bit (shift + 7) (of_nat ?q), shift + 7 + 7 * Suc k, last (leb_groups (Suc k) ?q)),
        cursor_advance (Suc k) (cursor_advance 1 c))"
    using Suc.prems(2) by (intro Suc.IH rest q) simp
  have "?res OR push_bit (shift + 7) (of_nat ?q) = res OR push_bit shift (of_nat n)"
    by (subst of_nat_split_7 [of n]) (simp add: push_bit_or or.assoc push_bit_push_bit)
  moreover have "leb_groups (Suc k) ?q \<noteq> []" by (metis length_leb_groups list.size(3) nat.distinct(1))
  ultimately show ?case using IH leb_group_more [of ?m] b Suc.prems(2)
    by (subst leb128_loop.simps) (simp add: cu8_load Let_def)
qed

lemma encode_uleb128_groups:
  "\<exists>k. encode_uleb128 n = leb_groups (Suc k) n \<and> n < 128 ^ Suc k \<and> (\<forall>j. n < 128 ^ Suc j \<longrightarrow> k \<le> j)"
proof (induction n rule: encode_uleb128.induct)
  case (1 n)
  show ?case
  proof (cases "n < 128")
    case True
    then show ?thesis by (subst encode_uleb128.simps) (auto intro!: exI [of _ 0])
  next
    case False
    then obtain k where k: "encode_uleb128 (n div 128) = leb_groups (Suc k) (n div 128)"
        "n div 128 < 128 ^ Suc k" "\<forall>j. n div 128 < 128 ^ Suc j \<longrightarrow> k \<le> j"
      using 1 by blast
    have e: "encode_uleb128 n = leb_groups (Suc (Suc k)) n"
      using False k(1) by (subst encode_uleb128.simps) simp
    have "Suc k \<le> j" if "n < 128 ^ Suc j" for j
    proof (cases j)
      case 0
      with that False show ?thesis by simp
    next
      case (Suc i)
      with that have "n div 128 < 128 ^ Suc i" by (simp add: less_mult_imp_div_less mult.commute)
      with k(3) Suc show ?thesis by simp
    qed
    moreover have "n < 128 ^ Suc (Suc k)"
      using k(2) by (simp add: div_less_iff_less_mult mult.commute)
    ultimately show ?thesis using e by blast
  qed
qed

lemma uleb128_groups:
  assumes "has_bytes img (cpos c) (leb_groups (Suc k) n)" and "k < 10" and "n < 128 ^ Suc k"
  shows "uleb128 img c = Inr (of_nat n, cursor_advance (Suc k) c)"
  using leb128_loop_groups [OF assms(1) _ assms(3), of 0 0] assms(2) by (simp add: uleb128_def)

lemma uleb128_encode:
  assumes "has_bytes img (cpos c) (encode_uleb128 n)" and "n < 2 ^ 64"
  shows "uleb128 img c = Inr (of_nat n, cursor_advance (length (encode_uleb128 n)) c)"
proof -
  obtain k where k: "encode_uleb128 n = leb_groups (Suc k) n" "n < 128 ^ Suc k"
      "n < 128 ^ Suc 9 \<longrightarrow> k \<le> 9"
    using encode_uleb128_groups [of n] by blast
  have "n < 128 ^ Suc 9" using assms(2) by simp
  with k(3) have "k < 10" by simp
  then show ?thesis using uleb128_groups [of img c k n] assms(1) k(1,2) by simp
qed

subsection \<open>The signed decoder\<close>

lemma div_128_bounds: "128 * (v div 128) \<le> v" "v < 128 * (v div 128) + (128 :: int)"
  by simp_all

lemma abs_div_128_less: "\<not> (- 64 \<le> v \<and> v < 64) \<Longrightarrow> \<bar>v div 128\<bar> < \<bar>v :: int\<bar>"
  using div_128_bounds [of v] by linarith

function encode_sleb128 :: "int \<Rightarrow> u8 list" where
  "encode_sleb128 v =
     (if - 64 \<le> v \<and> v < 64 then [of_nat (nat (v mod 128))]
      else of_nat (128 + nat (v mod 128)) # encode_sleb128 (v div 128))"
  by pat_completeness auto
termination
  by (relation "measure (\<lambda>v. nat \<bar>v\<bar>)") (auto simp: abs_div_128_less)

declare encode_sleb128.simps [simp del]

lemma encode_sleb128_groups:
  "encode_sleb128 v = leb_groups (length (encode_sleb128 v)) (nat (v mod 128 ^ length (encode_sleb128 v)))"
proof (induction v rule: encode_sleb128.induct)
  case (1 v)
  show ?case
  proof (cases "- 64 \<le> v \<and> v < 64")
    case True
    then have "encode_sleb128 v = [of_nat (nat (v mod 128))]" by (subst encode_sleb128.simps) simp
    then show ?thesis by (simp add: nat_mod_distrib)
  next
    case False
    define L where "L = length (encode_sleb128 (v div 128))"
    have e: "encode_sleb128 v = of_nat (128 + nat (v mod 128)) # encode_sleb128 (v div 128)"
      using False by (subst encode_sleb128.simps) simp
    have L: "0 < L" unfolding L_def by (subst encode_sleb128.simps) simp
    have "v mod 128 ^ Suc L = 128 * (v div 128 mod 128 ^ L) + v mod 128"
      by (simp add: zmod_zmult2_eq)
    moreover have "0 \<le> v div 128 mod 128 ^ L" "0 \<le> v mod 128" by simp_all
    ultimately have n: "nat (v mod 128 ^ Suc L) = 128 * nat (v div 128 mod 128 ^ L) + nat (v mod 128)"
      by (simp add: nat_add_distrib nat_mult_distrib)
    have "a mod 128 = r \<and> a div 128 = q" if "a = 128 * q + r" "r < 128" for a q r :: nat using that by simp
    from this [OF n] have d: "nat (v mod 128 ^ Suc L) mod 128 = nat (v mod 128)"
      "nat (v mod 128 ^ Suc L) div 128 = nat (v div 128 mod 128 ^ L)" by simp_all
    have "leb_groups (Suc L) n = of_nat (128 + n mod 128) # leb_groups L (n div 128)" for n using L by (cases L) simp_all
    then have "leb_groups (Suc L) (nat (v mod 128 ^ Suc L)) =
        of_nat (128 + nat (v mod 128)) # leb_groups L (nat (v div 128 mod 128 ^ L))"
      by (simp only: d)
    then show ?thesis using e "1.IH" [OF False] by (simp add: L_def)
  qed
qed

lemma length_encode_sleb128_le:
  "- (64 * 128 ^ k) \<le> v \<Longrightarrow> v < 64 * 128 ^ k \<Longrightarrow> length (encode_sleb128 v) \<le> Suc k"
proof (induction k arbitrary: v)
  case 0
  then show ?case by (subst encode_sleb128.simps) simp
next
  case (Suc k)
  show ?case
  proof (cases "- 64 \<le> v \<and> v < 64")
    case True
    then show ?thesis by (subst encode_sleb128.simps) simp
  next
    case False
    define m :: int where "m = 128 ^ k"
    have "- (64 * (128 * m)) \<le> v" "v < 64 * (128 * m)" using Suc.prems by (simp_all add: m_def)
    then have "- (64 * m) \<le> v div 128" "v div 128 < 64 * m"
      using div_128_bounds [of v] by linarith+
    then show ?thesis using Suc.IH [of "v div 128"] False by (subst encode_sleb128.simps) (simp add: m_def)
  qed
qed

lemma encode_sleb128_single:
  "length (encode_sleb128 v) = 1 \<longleftrightarrow> - 64 \<le> v \<and> v < 64"
  by (subst encode_sleb128.simps) (simp add: encode_sleb128.simps [of "v div 128"])

lemma leb_sign_byte:
  assumes "- 64 \<le> v" and "v < 64"
  shows "((of_nat (nat (v mod 128)) :: u8) AND 0x40 \<noteq> 0 \<longleftrightarrow> v < 0) \<and>
     (if v < 0 then of_nat (nat (v mod 128)) OR push_bit 7 (NOT 0) else of_nat (nat (v mod 128)))
       = (word_of_int v :: u64)"
proof -
  have s: "signed_take_bit 6 v = v" using assms by (intro signed_take_bit_int_eq_self) simp_all
  have high: "bit v i \<longleftrightarrow> v < 0" if "6 \<le> i" for i
    using arg_cong [OF s, of "\<lambda>w. bit w i"] arg_cong [OF s, of "\<lambda>w. w < 0"] that
    by (simp add: bit_signed_take_bit_iff min_def signed_take_bit_negative_iff)
  have m: "(of_nat (nat (v mod 128)) :: 'a::len word) = word_of_int (take_bit 7 v)"
    by (simp add: take_bit_eq_mod)
  have "0x40 = (push_bit 6 1 :: u8)" by simp
  have "(w :: u8) AND 0x40 \<noteq> 0 \<longleftrightarrow> bit w 6" for w using and_exp_eq_0_iff_not_bit [of w 6] by simp
  then have 1: "(of_nat (nat (v mod 128)) :: u8) AND 0x40 \<noteq> 0 \<longleftrightarrow> v < 0"
    unfolding m using high [of 6] by (simp add: bit_simps)
  have 2: "(if v < 0 then of_nat (nat (v mod 128)) OR push_bit 7 (NOT 0) else of_nat (nat (v mod 128))) = (word_of_int v :: u64)"
    unfolding m
  proof (rule bit_word_eqI)
    fix i assume "i < LENGTH(64)"
    then show "bit (if v < 0 then word_of_int (take_bit 7 v) OR push_bit 7 (NOT 0) else word_of_int (take_bit 7 v) :: u64) i = bit (word_of_int v :: u64) i"
      by (cases "6 \<le> i") (auto simp: bit_simps high)
  qed
  from 1 2 show ?thesis by blast
qed

text \<open>What the signed decoder returns on the encoding of any 64-bit signed number.\<close>

definition sleb128_value :: "int \<Rightarrow> u64" where
  "sleb128_value v = (if - 64 \<le> v then word_of_int v
     else word_of_int (v mod 128 ^ length (encode_sleb128 v)))"

lemma sleb128_encode:
  assumes "has_bytes img (cpos c) (encode_sleb128 v)" and "- (2 ^ 63) \<le> v" and "v < 2 ^ 63"
  shows "sleb128 img c = Inr (sleb128_value v, cursor_advance (length (encode_sleb128 v)) c)"
proof -
  define L where "L = length (encode_sleb128 v)"
  let ?n = "nat (v mod 128 ^ L)"
  have "length (encode_sleb128 v) \<le> Suc 9" using assms(2,3) by (intro length_encode_sleb128_le) auto
  moreover have "0 < L" unfolding L_def by (subst encode_sleb128.simps) simp
  ultimately obtain k where k: "L = Suc k" "k < 10"
    by (cases L) (auto simp: L_def)
  have e: "encode_sleb128 v = leb_groups (Suc k) ?n"
    using encode_sleb128_groups [of v] k(1) by (simp add: L_def)
  have "v mod 128 ^ L < 128 ^ L" by simp
  then have lt: "?n < 128 ^ Suc k" by (simp add: k(1) nat_less_iff)
  have loop: "leb128_loop img 0 0 c = Inr ((of_nat ?n, 7 * L, last (encode_sleb128 v)), cursor_advance L c)"
    using leb128_loop_groups [OF assms(1) [unfolded e], of 0 0] k lt e by simp
  have n: "(of_nat ?n :: u64) = word_of_int (v mod 128 ^ L)" by simp
  show ?thesis
  proof (cases "- 64 \<le> v \<and> v < 64")
    case True
    then have "L = 1" using encode_sleb128_single [of v] by (simp add: L_def)
    moreover have "encode_sleb128 v = [of_nat (nat (v mod 128))]"
      using True by (subst encode_sleb128.simps) simp
    ultimately show ?thesis using loop leb_sign_byte [of v] True
      by (auto simp: sleb128_def sleb128_value_def)
  next
    case False
    then have "L \<noteq> 1" using encode_sleb128_single [of v] by (simp add: L_def)
    then have "\<not> 7 * L < 8" using k by simp
    then have r: "sleb128 img c = Inr (word_of_int (v mod 128 ^ L), cursor_advance L c)"
      using loop n by (simp add: sleb128_def)
    have "v mod 128 ^ L = v" if "- 64 \<le> v"
    proof (rule mod_pos_pos_trivial)
      show "0 \<le> v" using that False by simp
      have "v < 128 ^ L" if "0 \<le> v"
        using that unfolding L_def
      proof (induction v rule: encode_sleb128.induct)
        case (1 v)
        then show ?case
        proof (cases "v < 64")
          case True
          with 1 show ?thesis by (subst encode_sleb128.simps) simp
        next
          case False
          then have "v div 128 < 128 ^ length (encode_sleb128 (v div 128))"
            using 1 by simp
          then have "v < 128 * 128 ^ length (encode_sleb128 (v div 128))"
            using div_128_bounds [of v] by linarith
          with False show ?thesis by (subst encode_sleb128.simps) simp
        qed
      qed
      then show "v < 128 ^ L" using that False by simp
    qed
    then show ?thesis using r by (simp add: sleb128_value_def L_def)
  qed
qed

text \<open>
  Numbers from \<open>- 64\<close> up survive; a smaller number that fits nine groups comes back
  without its sign.
\<close>

lemma sint_of_nonneg: "0 \<le> x \<Longrightarrow> x < 2 ^ 63 \<Longrightarrow> sint (word_of_int x :: u64) = x"
  by (simp add: sint_sbintrunc' signed_take_bit_int_eq_self)

lemma sleb128_value_small_negative:
  assumes "- (2 ^ 62) \<le> v" and "v < - 64"
  shows "0 \<le> sint (sleb128_value v)"
proof -
  define L where "L = length (encode_sleb128 v)"
  have "L \<le> Suc 8" unfolding L_def using assms by (intro length_encode_sleb128_le) auto
  then have "(128 :: int) ^ L \<le> 128 ^ 9" by (intro power_increasing) auto
  also have "(128 :: int) ^ 9 = 2 ^ 63" by simp
  finally have "v mod 128 ^ L < 2 ^ 63" using pos_mod_bound [of "128 ^ L" v] by (meson less_le_trans zero_less_numeral zero_less_power)
  moreover have "0 \<le> v mod 128 ^ L" by simp
  ultimately have "sint (word_of_int (v mod 128 ^ L) :: u64) = v mod 128 ^ L"
    by (intro sint_of_nonneg)
  then show ?thesis using assms by (simp add: sleb128_value_def L_def)
qed

subsection \<open>Strings\<close>

text \<open>
  \<open>string\<close> looks for the terminator inside the span to place the cursor, but builds the
  view from the bare pointer: the view ends at the first zero byte in memory, wherever it is.
  \<open>find_byte0\<close> is \<open>std::find\<close> over \<open>[p, e)\<close>, \<open>cstring\<close> is the constructor of
  \<open>std::string_view\<close> from a \<open>const char *\<close>.
\<close>

function find_byte0 :: "image \<Rightarrow> ptr \<Rightarrow> ptr \<Rightarrow> ptr result" where
  "find_byte0 img p e =
     (if p = e then Inr e
      else rbind (load_byte img p) (\<lambda>b. if b = 0 then Inr p else find_byte0 img (Suc p) e))"
  by pat_completeness auto
termination
  by (relation "measure (\<lambda>(img, p, e). iend img - p)") (auto simp: load_byte_Inr)

function cstring :: "image \<Rightarrow> ptr \<Rightarrow> u8 list result" where
  "cstring img p =
     rbind (load_byte img p) (\<lambda>b.
     if b = 0 then Inr [] else rbind (cstring img (Suc p)) (\<lambda>bs. Inr (b # bs)))"
  by pat_completeness auto
termination
  by (relation "measure (\<lambda>(img, p). iend img - p)") (auto simp: load_byte_Inr)

declare find_byte0.simps [simp del] cstring.simps [simp del]

definition cursor_string :: "image \<Rightarrow> u8 list reader" where
  "cursor_string img c =
     rbind (find_byte0 img (cpos c) (send (cdata c))) (\<lambda>null_terminator.
     rbind (cstring img (cpos c)) (\<lambda>ret.
     Inr (ret, c\<lparr>cpos := null_terminator + 1\<rparr>)))"

lemma find_byte0_ge: "find_byte0 img p e = Inr q \<Longrightarrow> p \<le> e \<Longrightarrow> p \<le> q \<and> q \<le> e"
proof (induction img p e arbitrary: q rule: find_byte0.induct)
  case (1 img p e)
  show ?case
  proof (cases "p = e")
    case True
    with "1.prems" show ?thesis by (simp add: find_byte0.simps)
  next
    case False
    with "1.prems" obtain b where b: "load_byte img p = Inr b" "b = 0 \<and> q = p \<or> b \<noteq> 0 \<and> find_byte0 img (Suc p) e = Inr q"
      by (subst (asm) find_byte0.simps) (auto simp: rbind_eq_Inr split: if_splits)
    then show ?thesis using "1.IH" [OF False b(1)] "1.prems"(2) False by fastforce
  qed
qed

lemma find_byte0_string:
  "has_bytes img p (bs @ [0]) \<Longrightarrow> 0 \<notin> set bs \<Longrightarrow> p + length bs < e \<Longrightarrow>
   find_byte0 img p e = Inr (p + length bs)"
  by (induction bs arbitrary: p) (subst find_byte0.simps, fastforce)+

lemma cstring_string:
  "has_bytes img p (bs @ [0]) \<Longrightarrow> 0 \<notin> set bs \<Longrightarrow> cstring img p = Inr bs"
  by (induction bs arbitrary: p) (subst cstring.simps, fastforce)+

lemma cstring_no_zero: "cstring img p = Inr bs \<Longrightarrow> 0 \<notin> set bs \<and> has_bytes img p (bs @ [0])"
proof (induction img p arbitrary: bs rule: cstring.induct)
  case (1 img p)
  from "1.prems" obtain b where b: "load_byte img p = Inr b"
      "b = 0 \<and> bs = [] \<or> b \<noteq> 0 \<and> (\<exists>cs. cstring img (Suc p) = Inr cs \<and> bs = b # cs)"
    by (subst (asm) cstring.simps) (auto simp: rbind_eq_Inr split: if_splits)
  then show ?case using "1.IH" [OF b(1)] by auto
qed

text \<open>A string that ends inside the span is read back and skipped with its terminator.\<close>

lemma cursor_string_encode:
  assumes "has_bytes img (cpos c) (bs @ [0])" and "0 \<notin> set bs" and "cpos c + length bs < send (cdata c)"
  shows "cursor_string img c = Inr (bs, cursor_advance (length bs + 1) c)"
  using find_byte0_string [OF assms] cstring_string [OF assms(1,2)]
  by (simp add: cursor_string_def cursor_advance_def add.assoc)

text \<open>
  A string whose terminator lies beyond the span is returned whole, but the cursor stops one
  past the end of the span.
\<close>

lemma find_byte0_overrun:
  "has_bytes img p (bs @ [0]) \<Longrightarrow> 0 \<notin> set bs \<Longrightarrow> p \<le> e \<Longrightarrow> e \<le> p + length bs \<Longrightarrow>
   find_byte0 img p e = Inr e"
proof (induction bs arbitrary: p)
  case Nil
  then show ?case by (subst find_byte0.simps) simp
next
  case (Cons b bs)
  show ?case
  proof (cases "p = e")
    case True
    then show ?thesis by (simp add: find_byte0.simps)
  next
    case False
    then have "find_byte0 img (Suc p) e = Inr e" using Cons by (intro Cons.IH) auto
    with False Cons.prems show ?thesis by (subst find_byte0.simps) auto
  qed
qed

lemma cursor_string_overrun:
  assumes "has_bytes img (cpos c) (bs @ [0])" and "0 \<notin> set bs"
    and "cpos c \<le> send (cdata c)" and "send (cdata c) \<le> cpos c + length bs"
  shows "cursor_string img c = Inr (bs, c\<lparr>cpos := send (cdata c) + 1\<rparr>)"
  using find_byte0_overrun [OF assms] cstring_string [OF assms(1,2)]
  by (simp add: cursor_string_def)

subsection \<open>Properties\<close>

text \<open>
  C27: the unsigned decoder inverts the reference encoder on every 64-bit number, wherever its
  bytes stand in the mapped file, and stops right behind them.
\<close>

theorem uleb128_round_trip:
  "uleb128 \<lparr>ibase = b, ibytes = pre @ encode_uleb128 (unat (w :: u64)) @ post\<rparr> \<lparr>cdata = s, cpos = b + length pre\<rparr>
     = Inr (w, \<lparr>cdata = s, cpos = b + length pre + length (encode_uleb128 (unat w))\<rparr>)"
  using uleb128_encode [of "\<lparr>ibase = b, ibytes = pre @ encode_uleb128 (unat w) @ post\<rparr>"
      "\<lparr>cdata = s, cpos = b + length pre\<rparr>" "unat w"] unsigned_less [of w]
  by (simp add: image_has_bytes cursor_advance_def)


end
