(* ===== verification/KD_Forms.thy ===== *)
theory KD_Forms
  imports KD_Leb
begin

text \<open>
  The attribute forms of DWARF and \<open>cursor::skip_form\<close> (\<open>src/dwarf.cpp\<close>). The header
  \<open>libkdebugger/detail/dwarf.h\<close> that should define the \<open>DW_\<close> constants is not in the
  repository; they have the values that the DWARF 4 standard assigns to these names.
\<close>

unbundle bit_operations_syntax

subsection \<open>Constants of the DWARF standard\<close>

abbreviation (input) DW_FORM_addr :: u64 where "DW_FORM_addr \<equiv> 0x01"
abbreviation (input) DW_FORM_block2 :: u64 where "DW_FORM_block2 \<equiv> 0x03"
abbreviation (input) DW_FORM_block4 :: u64 where "DW_FORM_block4 \<equiv> 0x04"
abbreviation (input) DW_FORM_data2 :: u64 where "DW_FORM_data2 \<equiv> 0x05"
abbreviation (input) DW_FORM_data4 :: u64 where "DW_FORM_data4 \<equiv> 0x06"
abbreviation (input) DW_FORM_data8 :: u64 where "DW_FORM_data8 \<equiv> 0x07"
abbreviation (input) DW_FORM_string :: u64 where "DW_FORM_string \<equiv> 0x08"
abbreviation (input) DW_FORM_block :: u64 where "DW_FORM_block \<equiv> 0x09"
abbreviation (input) DW_FORM_block1 :: u64 where "DW_FORM_block1 \<equiv> 0x0a"
abbreviation (input) DW_FORM_data1 :: u64 where "DW_FORM_data1 \<equiv> 0x0b"
abbreviation (input) DW_FORM_flag :: u64 where "DW_FORM_flag \<equiv> 0x0c"
abbreviation (input) DW_FORM_sdata :: u64 where "DW_FORM_sdata \<equiv> 0x0d"
abbreviation (input) DW_FORM_strp :: u64 where "DW_FORM_strp \<equiv> 0x0e"
abbreviation (input) DW_FORM_udata :: u64 where "DW_FORM_udata \<equiv> 0x0f"
abbreviation (input) DW_FORM_ref_addr :: u64 where "DW_FORM_ref_addr \<equiv> 0x10"
abbreviation (input) DW_FORM_ref1 :: u64 where "DW_FORM_ref1 \<equiv> 0x11"
abbreviation (input) DW_FORM_ref2 :: u64 where "DW_FORM_ref2 \<equiv> 0x12"
abbreviation (input) DW_FORM_ref4 :: u64 where "DW_FORM_ref4 \<equiv> 0x13"
abbreviation (input) DW_FORM_ref8 :: u64 where "DW_FORM_ref8 \<equiv> 0x14"
abbreviation (input) DW_FORM_ref_udata :: u64 where "DW_FORM_ref_udata \<equiv> 0x15"
abbreviation (input) DW_FORM_indirect :: u64 where "DW_FORM_indirect \<equiv> 0x16"
abbreviation (input) DW_FORM_sec_offset :: u64 where "DW_FORM_sec_offset \<equiv> 0x17"
abbreviation (input) DW_FORM_exprloc :: u64 where "DW_FORM_exprloc \<equiv> 0x18"

abbreviation (input) DW_AT_sibling :: u64 where "DW_AT_sibling \<equiv> 0x01"
abbreviation (input) DW_AT_name :: u64 where "DW_AT_name \<equiv> 0x03"
abbreviation (input) DW_AT_stmt_list :: u64 where "DW_AT_stmt_list \<equiv> 0x10"
abbreviation (input) DW_AT_low_pc :: u64 where "DW_AT_low_pc \<equiv> 0x11"
abbreviation (input) DW_AT_high_pc :: u64 where "DW_AT_high_pc \<equiv> 0x12"
abbreviation (input) DW_AT_comp_dir :: u64 where "DW_AT_comp_dir \<equiv> 0x1b"
abbreviation (input) DW_AT_abstract_origin :: u64 where "DW_AT_abstract_origin \<equiv> 0x31"
abbreviation (input) DW_AT_decl_file :: u64 where "DW_AT_decl_file \<equiv> 0x3a"
abbreviation (input) DW_AT_decl_line :: u64 where "DW_AT_decl_line \<equiv> 0x3b"
abbreviation (input) DW_AT_frame_base :: u64 where "DW_AT_frame_base \<equiv> 0x40"
abbreviation (input) DW_AT_specification :: u64 where "DW_AT_specification \<equiv> 0x47"
abbreviation (input) DW_AT_ranges :: u64 where "DW_AT_ranges \<equiv> 0x55"
abbreviation (input) DW_AT_call_file :: u64 where "DW_AT_call_file \<equiv> 0x58"
abbreviation (input) DW_AT_call_line :: u64 where "DW_AT_call_line \<equiv> 0x59"

abbreviation (input) DW_TAG_inlined_subroutine :: u64 where "DW_TAG_inlined_subroutine \<equiv> 0x1d"
abbreviation (input) DW_TAG_subprogram :: u64 where "DW_TAG_subprogram \<equiv> 0x2e"

subsection \<open>Skipping an attribute value\<close>

text \<open>The loop of \<open>DW_FORM_string\<close>, with the step over the terminator.\<close>

function skip_string :: "image \<Rightarrow> cursor \<Rightarrow> cursor result" where
  "skip_string img c =
     (if finished c then Inr (cursor_advance 1 c)
      else rbind (load_byte img (cpos c)) (\<lambda>b.
        if b \<noteq> 0 then skip_string img (cursor_advance 1 c) else Inr (cursor_advance 1 c)))"
  by pat_completeness auto
termination
  by (relation "measure (\<lambda>(img, c). iend img - cpos c)") (auto simp: load_byte_Inr)

declare skip_string.simps [simp del]

text \<open>Advancing by a length that a reader has just returned.\<close>

definition skip_block :: "'a::len word reader \<Rightarrow> cursor \<Rightarrow> cursor result" where
  "skip_block rd c = rbind (rd c) (\<lambda>(n, c'). Inr (cursor_advance (unat n) c'))"

function skip_form :: "image \<Rightarrow> u64 \<Rightarrow> cursor \<Rightarrow> cursor result" where
  "skip_form img form c =
     (if form \<in> {DW_FORM_data1, DW_FORM_ref1, DW_FORM_flag} then Inr (cursor_advance 1 c)
      else if form \<in> {DW_FORM_data2, DW_FORM_ref2} then Inr (cursor_advance 2 c)
      else if form \<in> {DW_FORM_data4, DW_FORM_ref4, DW_FORM_ref_addr, DW_FORM_sec_offset, DW_FORM_strp}
        then Inr (cursor_advance 4 c)
      else if form = DW_FORM_sdata then rbind (sleb128 img c) (\<lambda>(v, c'). Inr c')
      else if form \<in> {DW_FORM_udata, DW_FORM_ref_udata} then rbind (uleb128 img c) (\<lambda>(v, c'). Inr c')
      else if form = DW_FORM_block1 then skip_block (cu8 img) c
      else if form = DW_FORM_block2 then skip_block (cu16 img) c
      else if form = DW_FORM_block4 then skip_block (cu32 img) c
      else if form \<in> {DW_FORM_block, DW_FORM_exprloc} then skip_block (uleb128 img) c
      else if form = DW_FORM_string then skip_string img c
      else if form = DW_FORM_indirect then rbind (uleb128 img c) (\<lambda>(form', c'). skip_form img form' c')
      else Inl (Send ''Unrecognized DWARF form''))"
  by pat_completeness auto
termination
proof (relation "measure (\<lambda>(img, form, c). iend img - cpos c)")
  fix img form c r form' c'
  assume "uleb128 img c = Inr r" and "(form', c') = r"
  then show "((img, form', c'), img, form, c) \<in> measure (\<lambda>(img, form, c). iend img - cpos c)"
    using uleb.decreases [of img c form' c'] by (auto simp: uleb.left_def)
qed simp

declare skip_form.simps [simp del]

text \<open>The forms for which the code has a case.\<close>

definition known_forms :: "u64 set" where
  "known_forms = {DW_FORM_data1, DW_FORM_ref1, DW_FORM_flag, DW_FORM_data2, DW_FORM_ref2,
     DW_FORM_data4, DW_FORM_ref4, DW_FORM_ref_addr, DW_FORM_sec_offset, DW_FORM_strp, DW_FORM_sdata,
     DW_FORM_udata, DW_FORM_ref_udata, DW_FORM_block1, DW_FORM_block2, DW_FORM_block4,
     DW_FORM_block, DW_FORM_exprloc, DW_FORM_string, DW_FORM_indirect}"

lemma skip_form_unknown:
  "form \<notin> known_forms \<Longrightarrow> skip_form img form c = Inl (Send ''Unrecognized DWARF form'')"
  by (subst skip_form.simps) (simp add: known_forms_def)

text \<open>
  Addresses and eight-byte values have no case, so a DIE with such an attribute cannot be
  parsed.
\<close>

lemma skip_form_eight_bytes:
  "form \<in> {DW_FORM_addr, DW_FORM_data8, DW_FORM_ref8} \<Longrightarrow>
   skip_form img form c = Inl (Send ''Unrecognized DWARF form'')"
  by (rule skip_form_unknown) (auto simp: known_forms_def)

lemma skip_string_forward:
  "skip_string img c = Inr c' \<Longrightarrow> cdata c' = cdata c \<and> cpos c < cpos c'"
proof (induction img c arbitrary: c' rule: skip_string.induct)
  case (1 img c)
  show ?case
  proof (cases "finished c")
    case True
    with "1.prems" show ?thesis by (subst (asm) skip_string.simps) auto
  next
    case False
    with "1.prems" obtain b where b: "load_byte img (cpos c) = Inr b"
        "b = 0 \<and> c' = cursor_advance 1 c \<or> b \<noteq> 0 \<and> skip_string img (cursor_advance 1 c) = Inr c'"
      by (subst (asm) skip_string.simps) (auto simp: rbind_eq_Inr split: if_splits)
    then show ?thesis using "1.IH" [OF False b(1)] by fastforce
  qed
qed

lemma skip_block_forward:
  "consuming_reader img rd \<Longrightarrow> skip_block rd c = Inr c' \<Longrightarrow> cdata c' = cdata c \<and> cpos c < cpos c'"
  unfolding skip_block_def
  by (auto simp: rbind_eq_Inr dest: consuming_reader.strict
      forward_reader.keeps_data [OF consuming_reader.axioms(1)])

lemma skip_form_forward:
  "skip_form img form c = Inr c' \<Longrightarrow> cdata c' = cdata c \<and> cpos c < cpos c'"
proof (induction img form c arbitrary: c' rule: skip_form.induct)
  case (1 img form c)
  show ?case
  proof (cases "form = DW_FORM_indirect")
    case True
    with "1.prems" obtain form' c1 where u: "uleb128 img c = Inr (form', c1)" "skip_form img form' c1 = Inr c'"
      by (subst (asm) skip_form.simps) (auto simp: rbind_eq_Inr)
    then have "cdata c' = cdata c1 \<and> cpos c1 < cpos c'" using "1.IH" [OF _ _ _ _ _ _ _ _ _ _ _ u(1) refl] True by simp
    then show ?thesis using uleb.strict [OF u(1)] uleb.keeps_data [OF u(1)] by simp
  next
    case False
    with "1.prems" show ?thesis
      by (subst (asm) skip_form.simps)
         (auto simp: rbind_eq_Inr split: if_splits dest: skip_string_forward uleb.strict uleb.keeps_data
           sleb.strict sleb.keeps_data skip_block_forward [OF cu8.consuming_reader_axioms]
           skip_block_forward [OF cu16.consuming_reader_axioms]
           skip_block_forward [OF cu32.consuming_reader_axioms]
           skip_block_forward [OF uleb.consuming_reader_axioms])
  qed
qed

text \<open>Skipping is a reader without a value; it keeps the contract of the other readers.\<close>

definition skip_reader :: "image \<Rightarrow> u64 \<Rightarrow> unit reader" where
  "skip_reader img form c = rbind (skip_form img form c) (\<lambda>c'. Inr ((), c'))"

interpretation skipper: forward_reader img "skip_reader img form" for img form
  by unfold_locales (auto simp: skip_reader_def rbind_eq_Inr dest: skip_form_forward)

lemma skip_string_encode:
  "has_bytes img (cpos c) (bs @ [0]) \<Longrightarrow> 0 \<notin> set bs \<Longrightarrow> cpos c + length bs < send (cdata c) \<Longrightarrow>
   skip_string img c = Inr (cursor_advance (length bs + 1) c)"
proof (induction bs arbitrary: c)
  case Nil
  then show ?case by (subst skip_string.simps) (simp add: finished_def)
next
  case (Cons b bs)
  then have "skip_string img (cursor_advance 1 c) = Inr (cursor_advance (length bs + 1) (cursor_advance 1 c))"
    by (intro Cons.IH) auto
  with Cons.prems show ?case by (subst skip_string.simps) (auto simp: finished_def)
qed

text \<open>Skipping a string moves the cursor exactly as reading it does, wherever it ends.\<close>

lemma skip_string_find:
  "cpos c \<le> send (cdata c) \<Longrightarrow> find_byte0 img (cpos c) (send (cdata c)) = Inr q \<Longrightarrow>
   skip_string img c = Inr (c\<lparr>cpos := q + 1\<rparr>)"
proof (induction img c arbitrary: q rule: skip_string.induct)
  case (1 img c)
  show ?case
  proof (cases "finished c")
    case True
    with "1.prems" show ?thesis
      by (subst skip_string.simps, subst (asm) find_byte0.simps) (auto simp: finished_def cursor_advance_def)
  next
    case False
    then have lt: "cpos c < send (cdata c)" by (simp add: finished_def)
    with "1.prems"(2) obtain b where b: "load_byte img (cpos c) = Inr b"
        "b = 0 \<and> q = cpos c \<or> b \<noteq> 0 \<and> find_byte0 img (Suc (cpos c)) (send (cdata c)) = Inr q"
      by (subst (asm) find_byte0.simps) (auto simp: rbind_eq_Inr split: if_splits)
    show ?thesis
    proof (cases "b = 0")
      case True
      with b False show ?thesis by (subst skip_string.simps) (simp add: cursor_advance_def)
    next
      case nz: False
      have "skip_string img (cursor_advance 1 c) = Inr ((cursor_advance 1 c)\<lparr>cpos := q + 1\<rparr>)"
        using b nz lt by (intro "1.IH" [OF False b(1)]) auto
      with b(1) nz False show ?thesis by (subst skip_string.simps) (simp add: cursor_advance_def)
    qed
  qed
qed

lemma skip_string_reads:
  "cpos c \<le> send (cdata c) \<Longrightarrow> cursor_string img c = Inr (s, c') \<Longrightarrow> skip_string img c = Inr c'"
  by (auto simp: cursor_string_def rbind_eq_Inr dest: skip_string_find)

subsection \<open>What the value of a form looks like\<close>

text \<open>
  The byte strings that the format allows for the value of an attribute of each form the code
  knows; \<open>DW_FORM_indirect\<close> carries the actual form in front of the value.
\<close>

inductive form_bytes :: "u64 \<Rightarrow> u8 list \<Rightarrow> bool" where
  one: "form \<in> {DW_FORM_data1, DW_FORM_ref1, DW_FORM_flag} \<Longrightarrow> length bs = 1 \<Longrightarrow> form_bytes form bs"
| two: "form \<in> {DW_FORM_data2, DW_FORM_ref2} \<Longrightarrow> length bs = 2 \<Longrightarrow> form_bytes form bs"
| four: "form \<in> {DW_FORM_data4, DW_FORM_ref4, DW_FORM_ref_addr, DW_FORM_sec_offset, DW_FORM_strp} \<Longrightarrow>
    length bs = 4 \<Longrightarrow> form_bytes form bs"
| sdata: "- (2 ^ 63) \<le> v \<Longrightarrow> v < 2 ^ 63 \<Longrightarrow> form_bytes DW_FORM_sdata (encode_sleb128 v)"
| udata: "form \<in> {DW_FORM_udata, DW_FORM_ref_udata} \<Longrightarrow> form_bytes form (encode_uleb128 (unat (w :: u64)))"
| block1: "length bs = unat (n :: u8) \<Longrightarrow> form_bytes DW_FORM_block1 (as_bytes n @ bs)"
| block2: "length bs = unat (n2 :: u16) \<Longrightarrow> form_bytes DW_FORM_block2 (as_bytes n2 @ bs)"
| block4: "length bs = unat (n4 :: u32) \<Longrightarrow> form_bytes DW_FORM_block4 (as_bytes n4 @ bs)"
| block: "form \<in> {DW_FORM_block, DW_FORM_exprloc} \<Longrightarrow> length bs = unat (w :: u64) \<Longrightarrow>
    form_bytes form (encode_uleb128 (unat w) @ bs)"
| str: "0 \<notin> set bs \<Longrightarrow> form_bytes DW_FORM_string (bs @ [0])"
| indirect: "form_bytes form' bs \<Longrightarrow> form_bytes DW_FORM_indirect (encode_uleb128 (unat form') @ bs)"

lemma uleb128_encode_word:
  "has_bytes img (cpos c) (encode_uleb128 (unat w)) \<Longrightarrow>
   uleb128 img c = Inr (w :: u64, cursor_advance (length (encode_uleb128 (unat w))) c)"
  using uleb128_encode [of img c "unat w"] unsigned_less [of w] by simp

lemma cu_reads:
  "has_bytes img (cpos c) (as_bytes (b :: u8)) \<Longrightarrow> cu8 img c = Inr (b, cursor_advance 1 c)"
  "has_bytes img (cpos c) (as_bytes (h :: u16)) \<Longrightarrow> cu16 img c = Inr (h, cursor_advance 2 c)"
  "has_bytes img (cpos c) (as_bytes (w :: u32)) \<Longrightarrow> cu32 img c = Inr (w, cursor_advance 4 c)"
  "has_bytes img (cpos c) (as_bytes (d :: u64)) \<Longrightarrow> cu64 img c = Inr (d, cursor_advance 8 c)"
  using fixed_int_has_bytes [of img c b] fixed_int_has_bytes [of img c h]
    fixed_int_has_bytes [of img c w] fixed_int_has_bytes [of img c d]
  by (simp_all add: cu8_def cu16_def cu32_def cu64_def)

text \<open>Skipping an attribute moves the cursor over its value, not a byte more or less.\<close>

lemma skip_form_bytes:
  "form_bytes form bs \<Longrightarrow> has_bytes img (cpos c) bs \<Longrightarrow> cpos c + length bs \<le> send (cdata c) \<Longrightarrow>
   skip_form img form c = Inr (cursor_advance (length bs) c)"
proof (induction arbitrary: c rule: form_bytes.induct)
  case (sdata v)
  then show ?case using sleb128_encode [of img c v] by (subst skip_form.simps) simp
next
  case (udata form w)
  then show ?case using uleb128_encode_word [of img c w] by (subst skip_form.simps) auto
next
  case (block1 bs n)
  then show ?case using cu_reads(1) [of img c n] by (subst skip_form.simps) (simp add: skip_block_def)
next
  case (block2 bs n)
  then show ?case using cu_reads(2) [of img c n] by (subst skip_form.simps) (simp add: skip_block_def)
next
  case (block4 bs n)
  then show ?case using cu_reads(3) [of img c n] by (subst skip_form.simps) (simp add: skip_block_def)
next
  case (block form bs w)
  then show ?case using uleb128_encode_word [of img c w]
    by (subst skip_form.simps) (auto simp: skip_block_def)
next
  case (str bs)
  then show ?case using skip_string_encode [of img c bs] by (subst skip_form.simps) simp
next
  case (indirect form' bs)
  let ?n = "length (encode_uleb128 (unat form'))"
  have "skip_form img form' (cursor_advance ?n c) = Inr (cursor_advance (length bs) (cursor_advance ?n c))"
    using indirect.prems by (intro indirect.IH) auto
  moreover have "uleb128 img c = Inr (form', cursor_advance ?n c)"
    using indirect.prems by (intro uleb128_encode_word) simp
  ultimately show ?case by (subst skip_form.simps) simp
qed (subst skip_form.simps, auto)+

subsection \<open>Properties\<close>

text \<open>
  Skipping an attribute moves the cursor exactly over its value, for every form the code
  knows and every byte string the format allows for that form, indirect forms included.
\<close>

theorem skip_form_skips_value:
  assumes "form_bytes form bs" and "has_bytes img (cpos c) bs" and "cpos c + length bs \<le> send (cdata c)"
  shows "skip_form img form c = Inr (cursor_advance (length bs) c)"
  using assms by (rule skip_form_bytes)

lemma skip_form_skips_value_witness:
  "skip_form \<lparr>ibase = 64, ibytes = [8, 104, 105, 0, 9]\<rparr> DW_FORM_indirect \<lparr>cdata = \<lparr>sdata = 64, ssize = 5\<rparr>, cpos = 64\<rparr>
     = Inr \<lparr>cdata = \<lparr>sdata = 64, ssize = 5\<rparr>, cpos = 68\<rparr>"
proof -
  have e: "encode_uleb128 (unat DW_FORM_string) = [8]" by (simp add: encode_uleb128.simps)
  have "form_bytes DW_FORM_indirect (encode_uleb128 (unat DW_FORM_string) @ ([104, 105] @ [0]))"
    by (intro form_bytes.indirect form_bytes.str) simp
  then show ?thesis
    using skip_form_skips_value [of DW_FORM_indirect "[8, 104, 105, 0]" "\<lparr>ibase = 64, ibytes = [8, 104, 105, 0, 9]\<rparr>"
        "\<lparr>cdata = \<lparr>sdata = 64, ssize = 5\<rparr>, cpos = 64\<rparr>"]
    unfolding e by (simp add: load_byte_def iend_def send_def cursor_advance_def)
qed

text \<open>
  No address and no eight-byte value can be skipped: their forms are rejected like an
  unknown one, although \<open>attr::as_address\<close>, \<open>attr::as_int\<close> and \<open>attr::as_reference\<close> read them.
\<close>

theorem skip_form_rejects_eight_bytes:
  "skip_form img DW_FORM_addr c = Inl (Send ''Unrecognized DWARF form'') \<and>
   skip_form img DW_FORM_data8 c = Inl (Send ''Unrecognized DWARF form'') \<and>
   skip_form img DW_FORM_ref8 c = Inl (Send ''Unrecognized DWARF form'')"
  using skip_form_eight_bytes by simp

end
