(* ===== verification/KD_Elf.thy ===== *)
theory KD_Elf
  imports KD_Leb
begin

text \<open>
  \<open>src/elf.cpp\<close>, \<open>include/libkdebugger/elf.hpp\<close> and \<open>src/types.cpp\<close>: the ELF
  file. The record \<open>elf\<close> holds the mapped bytes, the header, the section headers with the
  name map, the load bias, the symbol table and its two indexes. The structures of
  \<open><elf.h>\<close> are decoded at the offsets of the ELF64 ABI, and only the fields that the code
  uses are kept. Opening and mapping the file, and the demangler, are arguments.
\<close>

subsection \<open>The structures of elf.h\<close>

record elf_ehdr =
  e_entry :: u64
  e_shoff :: u64
  e_shentsize :: u16
  e_shnum :: u16
  e_shstrndx :: u16

record elf_shdr =
  sh_name :: u32
  sh_addr :: u64
  sh_offset :: u64
  sh_size :: u64
  sh_entsize :: u64

record elf_sym =
  st_name :: u32
  st_info :: u8
  st_value :: u64
  st_size :: u64

definition sizeof_ehdr :: nat where "sizeof_ehdr = 64"
definition sizeof_shdr :: nat where "sizeof_shdr = 64"
definition sizeof_sym :: nat where "sizeof_sym = 24"

definition ehdr_of_bytes :: "u8 list \<Rightarrow> elf_ehdr" where
  "ehdr_of_bytes bs = \<lparr>e_entry = from_bytes (bytes_at 24 8 bs), e_shoff = from_bytes (bytes_at 40 8 bs),
     e_shentsize = from_bytes (bytes_at 58 2 bs), e_shnum = from_bytes (bytes_at 60 2 bs),
     e_shstrndx = from_bytes (bytes_at 62 2 bs)\<rparr>"

definition shdr_of_bytes :: "u8 list \<Rightarrow> elf_shdr" where
  "shdr_of_bytes bs = \<lparr>sh_name = from_bytes (bytes_at 0 4 bs), sh_addr = from_bytes (bytes_at 16 8 bs),
     sh_offset = from_bytes (bytes_at 24 8 bs), sh_size = from_bytes (bytes_at 32 8 bs),
     sh_entsize = from_bytes (bytes_at 56 8 bs)\<rparr>"

definition sym_of_bytes :: "u8 list \<Rightarrow> elf_sym" where
  "sym_of_bytes bs = \<lparr>st_name = from_bytes (bytes_at 0 4 bs), st_info = from_bytes (bytes_at 4 1 bs),
     st_value = from_bytes (bytes_at 8 8 bs), st_size = from_bytes (bytes_at 16 8 bs)\<rparr>"

text \<open>A byte range as an array of \<open>n\<close> structures of \<open>sz\<close> bytes.\<close>

fun chunks :: "nat \<Rightarrow> nat \<Rightarrow> u8 list \<Rightarrow> u8 list list" where
  "chunks sz 0 bs = []"
| "chunks sz (Suc n) bs = take sz bs # chunks sz n (drop sz bs)"

lemma length_chunks [simp]: "length (chunks sz n bs) = n"
  by (induction sz n bs rule: chunks.induct) auto

lemma nth_chunks: "i < n \<Longrightarrow> chunks sz n bs ! i = bytes_at (i * sz) sz bs"
proof (induction sz n bs arbitrary: i rule: chunks.induct)
  case (2 sz n bs)
  then show ?case by (cases i) (auto simp: bytes_at_def add.commute)
qed simp

subsection \<open>The file\<close>

text \<open>
  A key of the symbol-name index is a view. The view of a demangled name points to a
  buffer that is freed right after the insertion: such a key is \<open>Freed\<close>.
\<close>

datatype name_key = Live "u8 list" | Freed

record elf =
  e_id :: elf_id
  e_path :: string
  e_image :: image
  e_header :: elf_ehdr
  e_sections :: "elf_shdr list"
  e_secmap :: "u8 list \<rightharpoonup> nat"
  e_bias :: virt_addr
  e_symtab :: "elf_sym list"
  e_names :: "(name_key \<times> nat) list"
  e_addrs :: "((u64 \<times> u64) \<times> nat) list"

definition parse_section_headers :: "image \<Rightarrow> elf_ehdr \<Rightarrow> elf_shdr list result" where
  "parse_section_headers img h =
     rbind (if e_shnum h = 0 \<and> e_shentsize h \<noteq> 0
            then rbind (load_bytes img (ibase img + unat (e_shoff h)) sizeof_shdr)
                   (\<lambda>bs. Inr (unat (sh_size (shdr_of_bytes bs))))
            else Inr (unat (e_shnum h))) (\<lambda>n_headers.
     rbind (load_bytes img (ibase img + unat (e_shoff h)) (sizeof_shdr * unat (e_shnum h))) (\<lambda>bs.
     Inr (map shdr_of_bytes (chunks sizeof_shdr (unat (e_shnum h)) bs))))"

definition get_section_name :: "image \<Rightarrow> elf_ehdr \<Rightarrow> elf_shdr list \<Rightarrow> nat \<Rightarrow> u8 list result" where
  "get_section_name img h secs index =
     rbind (vec_idx secs (unat (e_shstrndx h))) (\<lambda>section.
     cstring img (ibase img + unat (sh_offset section) + index))"

text \<open>\<open>m_SectionMap[name] = &section\<close>: a later section with the same name replaces an earlier one.\<close>

fun section_map_from ::
  "image \<Rightarrow> elf_ehdr \<Rightarrow> elf_shdr list \<Rightarrow> nat list \<Rightarrow> (u8 list \<rightharpoonup> nat) \<Rightarrow> (u8 list \<rightharpoonup> nat) result" where
  "section_map_from img h secs [] m = Inr m"
| "section_map_from img h secs (i # is) m =
     rbind (get_section_name img h secs (unat (sh_name (secs ! i)))) (\<lambda>name.
     section_map_from img h secs is (m(name \<mapsto> i)))"

definition build_section_map :: "image \<Rightarrow> elf_ehdr \<Rightarrow> elf_shdr list \<Rightarrow> (u8 list \<rightharpoonup> nat) result" where
  "build_section_map img h secs = section_map_from img h secs [0..<length secs] Map.empty"

definition get_section :: "elf \<Rightarrow> u8 list \<Rightarrow> elf_shdr option" where
  "get_section f name = map_option (\<lambda>i. e_sections f ! i) (e_secmap f name)"

definition get_section_contents :: "elf \<Rightarrow> u8 list \<Rightarrow> span" where
  "get_section_contents f name = (case get_section f name of
      Some sect \<Rightarrow> \<lparr>sdata = ibase (e_image f) + unat (sh_offset sect), ssize = unat (sh_size sect)\<rparr>
    | None \<Rightarrow> null_span)"

definition get_string :: "elf \<Rightarrow> nat \<Rightarrow> u8 list result" where
  "get_string f index =
     (case (case get_section f (ascii ''.strtab'') of
              Some s \<Rightarrow> Some s | None \<Rightarrow> get_section f (ascii ''.dynstr'')) of
        None \<Rightarrow> Inr []
      | Some strtab \<Rightarrow> cstring (e_image f) (ibase (e_image f) + unat (sh_offset strtab) + index))"

definition get_section_start_address :: "elf \<Rightarrow> u8 list \<Rightarrow> file_addr option" where
  "get_section_start_address f name =
     map_option (\<lambda>sect. mk_file_addr (e_id f) (sh_addr sect)) (get_section f name)"

subsection \<open>Sections and addresses\<close>

definition in_section :: "elf_shdr \<Rightarrow> u64 \<Rightarrow> bool" where
  "in_section s a \<longleftrightarrow> sh_addr s \<le> a \<and> sh_addr s + sh_size s > a"

definition section_containing_file :: "elf \<Rightarrow> file_addr \<Rightarrow> nat option" where
  "section_containing_file f a =
     (if fa_elf a \<noteq> Some (e_id f) then None
      else find_if (\<lambda>s. in_section s (fa_addr a)) (e_sections f))"

definition section_containing_virt :: "elf \<Rightarrow> virt_addr \<Rightarrow> nat option" where
  "section_containing_virt f a =
     find_if (\<lambda>s. va_add (e_bias f) (sh_addr s) \<le> a
        \<and> va_add (va_add (e_bias f) (sh_addr s)) (sh_size s) > a) (e_sections f)"

definition notify_loaded :: "virt_addr \<Rightarrow> elf \<Rightarrow> elf" where
  "notify_loaded a f = f\<lparr>e_bias := a\<rparr>"

definition data_pointer_as_file_offset :: "elf \<Rightarrow> ptr \<Rightarrow> file_offset" where
  "data_pointer_as_file_offset f p =
     mk_file_offset (e_id f) (word_of_int (int p - int (ibase (e_image f))))"

definition file_offset_as_data_pointer :: "elf \<Rightarrow> file_offset \<Rightarrow> ptr" where
  "file_offset_as_data_pointer f off = ibase (e_image f) + unat (fo_off off)"

text \<open>The conversions of \<open>src/types.cpp\<close>; the first asserts that the address has a file.\<close>

definition to_virt_addr :: "elf \<Rightarrow> file_addr \<Rightarrow> virt_addr result" where
  "to_virt_addr f a =
     (case fa_elf a of None \<Rightarrow> Inl Terminate | Some _ \<Rightarrow>
        (case section_containing_file f a of
           None \<Rightarrow> Inr virt_addr_default
         | Some _ \<Rightarrow> Inr (VirtAddr (fa_addr a + addr (e_bias f)))))"

definition to_file_addr :: "elf \<Rightarrow> virt_addr \<Rightarrow> file_addr" where
  "to_file_addr f a = (case section_containing_virt f a of
      None \<Rightarrow> file_addr_default
    | Some _ \<Rightarrow> mk_file_addr (e_id f) (addr a - addr (e_bias f)))"

text \<open>
  A file is placed when no section reaches past the top of the address space, neither in
  the file's own addresses nor at its load address; a loader never maps one otherwise.
\<close>

definition placed :: "elf \<Rightarrow> bool" where
  "placed f \<longleftrightarrow> (\<forall>s\<in>set (e_sections f).
     unat (addr (e_bias f)) + unat (sh_addr s) + unat (sh_size s) < 2 ^ 64)"

lemma unat_plus_no_overflow:
  "unat a + unat b < 2 ^ LENGTH('a) \<Longrightarrow> unat (a + b) = unat a + unat (b :: 'a::len word)"
  by (simp add: unat_word_ariths)

lemma in_section_shift:
  assumes "unat b + unat (sh_addr s) + unat (sh_size s) < 2 ^ 64" and "in_section s a"
  shows "b + sh_addr s \<le> a + b \<and> a + b < b + sh_addr s + sh_size s"
proof -
  have n: "unat (sh_addr s + sh_size s) = unat (sh_addr s) + unat (sh_size s)"
    using assms(1) by (intro unat_plus_no_overflow) simp
  then have a: "unat (sh_addr s) \<le> unat a" "unat a < unat (sh_addr s) + unat (sh_size s)"
    using assms(2) by (auto simp: in_section_def word_le_nat_alt word_less_nat_alt)
  have b: "unat (b + sh_addr s) = unat b + unat (sh_addr s)"
    using assms(1) by (intro unat_plus_no_overflow) simp
  then have "unat (b + sh_addr s + sh_size s) = unat b + unat (sh_addr s) + unat (sh_size s)"
    using assms(1) by (subst unat_plus_no_overflow) simp_all
  moreover have "unat (a + b) = unat a + unat b"
    using assms(1) a by (intro unat_plus_no_overflow) simp
  ultimately show ?thesis using a b by (simp add: word_le_nat_alt word_less_nat_alt)
qed

lemma to_file_to_virt_addr:
  assumes "placed f" and "fa_elf a = Some (e_id f)" and "section_containing_file f a \<noteq> None"
  shows "\<exists>v. to_virt_addr f a = Inr v \<and> to_file_addr f v = a"
proof -
  let ?v = "VirtAddr (fa_addr a + addr (e_bias f))"
  from assms(2,3) obtain s where s: "s \<in> set (e_sections f)" "in_section s (fa_addr a)"
    by (auto simp: section_containing_file_def find_if_None)
  have "va_add (e_bias f) (sh_addr s) \<le> ?v \<and> va_add (va_add (e_bias f) (sh_addr s)) (sh_size s) > ?v"
    using in_section_shift [OF _ s(2)] assms(1) s(1)
    by (simp add: placed_def virt_addr_order)
  then have "section_containing_virt f ?v \<noteq> None"
    using s(1) by (auto simp: section_containing_virt_def find_if_None)
  then have "to_file_addr f ?v = a"
    using assms(2) by (cases a) (auto simp: to_file_addr_def mk_file_addr_def)
  moreover have "to_virt_addr f a = Inr ?v"
    using assms(2,3) by (auto simp: to_virt_addr_def)
  ultimately show ?thesis by blast
qed

text \<open>An address outside every section is mapped to the null address, in both directions.\<close>

lemma to_file_addr_outside: "section_containing_virt f a = None \<Longrightarrow> to_file_addr f a = file_addr_default"
  by (simp add: to_file_addr_def)

lemma file_offset_pointer_inverse:
  assumes "ibase (e_image f) \<le> p" and "p < ibase (e_image f) + 2 ^ 64"
  shows "file_offset_as_data_pointer f (data_pointer_as_file_offset f p) = p"
proof -
  have "int p - int (ibase (e_image f)) = int (p - ibase (e_image f))" using assms(1) by simp
  then have "(word_of_int (int p - int (ibase (e_image f))) :: u64) = of_nat (p - ibase (e_image f))"
    by (simp only: of_int_of_nat_eq)
  moreover have "p - ibase (e_image f) < 2 ^ 64" using assms by simp
  ultimately have "unat (word_of_int (int p - int (ibase (e_image f))) :: u64) = p - ibase (e_image f)"
    by (simp add: unat_of_nat)
  then show ?thesis using assms
    by (simp add: file_offset_as_data_pointer_def data_pointer_as_file_offset_def mk_file_offset_def)
qed

subsection \<open>Symbols\<close>

definition elf64_st_type :: "u8 \<Rightarrow> u8" where
  "elf64_st_type info = info AND 0x0f"

abbreviation (input) STT_FUNC :: u8 where "STT_FUNC \<equiv> 2"
abbreviation (input) STT_TLS :: u8 where "STT_TLS \<equiv> 6"

text \<open>
  The table is resized to \<open>sh_size / sh_entsize\<close> zeroed symbols, then \<open>sh_size\<close> bytes
  are copied over it: the division needs a nonzero entry size, the copy needs the room.
\<close>

definition parse_symbol_table :: "elf \<Rightarrow> elf_sym list result" where
  "parse_symbol_table f =
     (case (case get_section f (ascii ''.symtab'') of
              Some s \<Rightarrow> Some s | None \<Rightarrow> get_section f (ascii ''.dynsym'')) of
        None \<Rightarrow> Inr []
      | Some symtab \<Rightarrow>
          if sh_entsize symtab = 0 then Inl (UB ''division by zero'')
          else let size = unat (sh_size symtab); n = size div unat (sh_entsize symtab) in
          rbind (load_bytes (e_image f) (ibase (e_image f) + unat (sh_offset symtab)) size) (\<lambda>bs.
          if sizeof_sym * n < size then Inl (UB ''write past the symbol table'')
          else Inr (map sym_of_bytes
                 (chunks sizeof_sym n (bs @ replicate (sizeof_sym * n - size) 0)))))"

text \<open>
  \<open>std::map::insert\<close> with \<open>range_comparator\<close>: ordered by the start address alone, and an
  entry that starts at the same address stays.
\<close>

fun addr_map_insert :: "u64 \<times> u64 \<Rightarrow> nat \<Rightarrow> ((u64 \<times> u64) \<times> nat) list \<Rightarrow> ((u64 \<times> u64) \<times> nat) list" where
  "addr_map_insert k v [] = [(k, v)]"
| "addr_map_insert k v ((k', v') # m) =
     (if fst k' < fst k then (k', v') # addr_map_insert k v m
      else if fst k < fst k' then (k, v) # (k', v') # m
      else (k', v') # m)"

definition has_address :: "elf_sym \<Rightarrow> bool" where
  "has_address sy \<longleftrightarrow> st_value sy \<noteq> 0 \<and> st_name sy \<noteq> 0 \<and> elf64_st_type (st_info sy) \<noteq> STT_TLS"

fun symbol_maps_from :: "(u8 list \<Rightarrow> u8 list option) \<Rightarrow> elf \<Rightarrow> nat list \<Rightarrow>
    (name_key \<times> nat) list \<Rightarrow> ((u64 \<times> u64) \<times> nat) list \<Rightarrow>
    ((name_key \<times> nat) list \<times> ((u64 \<times> u64) \<times> nat) list) result" where
  "symbol_maps_from demangle f [] names addrs = Inr (names, addrs)"
| "symbol_maps_from demangle f (i # is) names addrs =
     (let sy = e_symtab f ! i in
     rbind (get_string f (unat (st_name sy))) (\<lambda>mangled_name.
     let names' = (case demangle mangled_name of Some _ \<Rightarrow> names @ [(Freed, i)] | None \<Rightarrow> names)
                  @ [(Live mangled_name, i)];
         addrs' = (if has_address sy
                   then addr_map_insert (st_value sy, st_value sy + st_size sy) i addrs else addrs)
     in symbol_maps_from demangle f is names' addrs'))"

definition build_symbol_maps :: "(u8 list \<Rightarrow> u8 list option) \<Rightarrow> elf \<Rightarrow> elf result" where
  "build_symbol_maps demangle f =
     rbind (symbol_maps_from demangle f [0..<length (e_symtab f)] [] []) (\<lambda>(names, addrs).
     Inr (f\<lparr>e_names := names, e_addrs := addrs\<rparr>))"

text \<open>
  A container whose key has been freed has no defined lookup any more: comparing with that
  key reads freed memory.
\<close>

definition get_symbols_by_name :: "elf \<Rightarrow> u8 list \<Rightarrow> nat list result" where
  "get_symbols_by_name f name =
     (if Freed \<in> fst ` set (e_names f) then Inl (UB ''key of a freed buffer'')
      else Inr (map snd (filter (\<lambda>(k, i). k = Live name) (e_names f))))"

definition get_symbol_at_address :: "elf \<Rightarrow> file_addr \<Rightarrow> nat option" where
  "get_symbol_at_address f a =
     (if fa_elf a \<noteq> Some (e_id f) then None
      else map_option (\<lambda>i. snd (e_addrs f ! i)) (find_if (\<lambda>e. fst (fst e) = fa_addr a) (e_addrs f)))"

definition get_symbol_at_virt_address :: "elf \<Rightarrow> virt_addr \<Rightarrow> nat option" where
  "get_symbol_at_virt_address f a = get_symbol_at_address f (to_file_addr f a)"

definition lower_bound :: "((u64 \<times> u64) \<times> nat) list \<Rightarrow> u64 \<Rightarrow> nat" where
  "lower_bound m a = (case find_if (\<lambda>e. \<not> fst (fst e) < a) m of Some i \<Rightarrow> i | None \<Rightarrow> length m)"

text \<open>
  After the exact match fails the code compares the entry at \<open>lower_bound\<close> itself, without
  stepping back to its predecessor; at the end of the map that dereferences the end iterator.
\<close>

definition get_symbol_containing_address :: "elf \<Rightarrow> file_addr \<Rightarrow> nat option result" where
  "get_symbol_containing_address f a =
     (if fa_elf a \<noteq> Some (e_id f) \<or> e_addrs f = [] then Inr None
      else let m = e_addrs f; it = lower_bound m (fa_addr a) in
        if it < length m \<and> fst (fst (m ! it)) = fa_addr a then Inr (Some (snd (m ! it)))
        else if it = 0 then Inr None
        else if it = length m then Inl (UB ''dereference of the end iterator'')
        else if fst (fst (m ! it)) < fa_addr a \<and> snd (fst (m ! it)) > fa_addr a
             then Inr (Some (snd (m ! it)))
        else Inr None)"

definition get_symbol_containing_virt_address :: "elf \<Rightarrow> virt_addr \<Rightarrow> nat option result" where
  "get_symbol_containing_virt_address f a = get_symbol_containing_address f (to_file_addr f a)"

text \<open>The address index is ordered by start address, without repetitions.\<close>

definition addr_map_inv :: "((u64 \<times> u64) \<times> nat) list \<Rightarrow> bool" where
  "addr_map_inv m \<longleftrightarrow> sorted_wrt (<) (map (fst \<circ> fst) m)"

lemma set_addr_map_insert:
  "fst ` fst ` set (addr_map_insert k v m) = insert (fst k) (fst ` fst ` set m)"
  by (induction k v m rule: addr_map_insert.induct) (auto simp: not_less antisym_conv3)

lemma addr_map_insert_inv: "addr_map_inv m \<Longrightarrow> addr_map_inv (addr_map_insert k v m)"
proof (induction k v m rule: addr_map_insert.induct)
  case (1 k v)
  then show ?case by (simp add: addr_map_inv_def)
next
  case (2 k v k' v' m)
  have "fst ` fst ` set (addr_map_insert k v m) = insert (fst k) (fst ` fst ` set m)"
    by (rule set_addr_map_insert)
  then have "\<forall>x\<in>set (addr_map_insert k v m). fst (fst x) = fst k \<or> fst (fst x) \<in> fst ` fst ` set m"
    by blast
  with 2 show ?case by (fastforce simp: addr_map_inv_def)
qed

lemma symbol_maps_from_inv:
  "symbol_maps_from demangle f is names addrs = Inr (names', addrs') \<Longrightarrow> addr_map_inv addrs \<Longrightarrow>
     addr_map_inv addrs'"
  by (induction demangle f "is" names addrs arbitrary: names' addrs' rule: symbol_maps_from.induct)
     (auto simp: rbind_eq_Inr Let_def addr_map_insert_inv split: if_splits)

lemma build_symbol_maps_inv: "build_symbol_maps demangle f = Inr f' \<Longrightarrow> addr_map_inv (e_addrs f')"
  by (auto simp: build_symbol_maps_def rbind_eq_Inr addr_map_inv_def
      dest!: symbol_maps_from_inv [unfolded addr_map_inv_def])

lemma lower_bound_spec:
  assumes "addr_map_inv m"
  shows "lower_bound m a \<le> length m" and "\<forall>j<lower_bound m a. fst (fst (m ! j)) < a"
    and "\<forall>j<length m. lower_bound m a \<le> j \<longrightarrow> a \<le> fst (fst (m ! j))"
proof -
  show "lower_bound m a \<le> length m" and "\<forall>j<lower_bound m a. fst (fst (m ! j)) < a"
    by (auto simp: lower_bound_def find_if_None split: option.splits dest!: find_if_SomeD)
  show "\<forall>j<length m. lower_bound m a \<le> j \<longrightarrow> a \<le> fst (fst (m ! j))"
  proof (intro allI impI)
    fix j assume j: "j < length m" "lower_bound m a \<le> j"
    then obtain i where i: "find_if (\<lambda>e. \<not> fst (fst e) < a) m = Some i" "i \<le> j"
      by (auto simp: lower_bound_def split: option.splits)
    have "i < length m" "a \<le> fst (fst (m ! i))"
      using find_if_SomeD [OF i(1)] by (auto simp: split_beta not_less)
    moreover have "i = j \<or> fst (fst (m ! i)) < fst (fst (m ! j))"
      using assms i(2) j(1) sorted_wrt_nth_less [of "(<)" "map (fst \<circ> fst) m" i j]
      by (cases "i = j") (auto simp: addr_map_inv_def)
    ultimately show "a \<le> fst (fst (m ! j))" by auto
  qed
qed

text \<open>
  The lookup by containing address finds a symbol only at its own start: an address in the
  interior of a symbol is reported as unknown, or runs past the end of the index.
\<close>

lemma containing_only_exact:
  assumes "addr_map_inv (e_addrs f)" and "get_symbol_containing_address f a = Inr (Some i)"
  shows "get_symbol_at_address f a = Some i"
proof -
  let ?m = "e_addrs f" and ?it = "lower_bound (e_addrs f) (fa_addr a)"
  from assms(2) have elf: "fa_elf a = Some (e_id f)" by (auto simp: get_symbol_containing_address_def split: if_splits)
  have "?it < length ?m \<and> fst (fst (?m ! ?it)) = fa_addr a \<and> i = snd (?m ! ?it)"
    using assms(2) lower_bound_spec(1,3) [OF assms(1), of "fa_addr a"]
    by (auto simp: get_symbol_containing_address_def Let_def not_less [symmetric] split: if_splits)
  moreover from this have "find_if (\<lambda>e. fst (fst e) = fa_addr a) ?m = Some ?it"
    using lower_bound_spec(2) [OF assms(1), of "fa_addr a"]
    by (intro find_if_SomeI) (auto simp: split_beta)
  ultimately show ?thesis using elf by (simp add: get_symbol_at_address_def)
qed

lemma containing_past_last:
  assumes "addr_map_inv (e_addrs f)" and "e_addrs f \<noteq> []" and "fa_elf a = Some (e_id f)"
    and "\<forall>e\<in>set (e_addrs f). fst (fst e) < fa_addr a"
  shows "get_symbol_containing_address f a = Inl (UB ''dereference of the end iterator'')"
proof -
  have "lower_bound (e_addrs f) (fa_addr a) = length (e_addrs f)"
    using assms(4) by (auto simp: lower_bound_def find_if_iff split: option.splits)
  then show ?thesis using assms by (simp add: get_symbol_containing_address_def Let_def)
qed

subsection \<open>Opening a file\<close>

text \<open>
  What the operating system answers to \<open>open\<close>, \<open>fstat\<close> and \<open>mmap\<close>: a descriptor, a
  size, a mapping, or a failure. The DWARF part of the constructor is in the theories about
  DWARF.
\<close>

record file_os =
  os_open :: "string \<Rightarrow> nat option"
  os_fstat_size :: "nat \<Rightarrow> nat option"
  os_mmap :: "nat \<Rightarrow> nat \<Rightarrow> image option"

definition elf_parse :: "(u8 list \<Rightarrow> u8 list option) \<Rightarrow> elf_id \<Rightarrow> string \<Rightarrow> image \<Rightarrow> elf result" where
  "elf_parse demangle n path img =
     rbind (load_bytes img (ibase img) sizeof_ehdr) (\<lambda>hb.
     let h = ehdr_of_bytes hb in
     rbind (parse_section_headers img h) (\<lambda>secs.
     rbind (build_section_map img h secs) (\<lambda>secmap.
     let f = \<lparr>e_id = n, e_path = path, e_image = img, e_header = h, e_sections = secs,
              e_secmap = secmap, e_bias = virt_addr_default, e_symtab = [], e_names = [], e_addrs = []\<rparr> in
     rbind (parse_symbol_table f) (\<lambda>syms.
     build_symbol_maps demangle (f\<lparr>e_symtab := syms\<rparr>)))))"

definition elf_open :: "file_os \<Rightarrow> (u8 list \<Rightarrow> u8 list option) \<Rightarrow> elf_id \<Rightarrow> string \<Rightarrow> elf result" where
  "elf_open os demangle n path =
     (case os_open os path of
        None \<Rightarrow> Inl (SendErrno ''Could not open ELF File'')
      | Some fd \<Rightarrow> (case os_fstat_size os fd of
          None \<Rightarrow> Inl (SendErrno ''Could not retrieve ELF file stats'')
        | Some len \<Rightarrow> (case os_mmap os fd len of
            None \<Rightarrow> Inl (SendErrno ''Could not mmap ELF file'')
          | Some img \<Rightarrow> elf_parse demangle n path img)))"

lemma section_map_from_dom:
  "section_map_from img h secs is m = Inr m' \<Longrightarrow> (\<forall>k i. m k = Some i \<longrightarrow> i < length secs) \<Longrightarrow>
   set is \<subseteq> {..<length secs} \<Longrightarrow> m' k = Some i \<Longrightarrow>
   i < length secs \<and> (m k = Some i \<or> get_section_name img h secs (unat (sh_name (secs ! i))) = Inr k)"
proof (induction "is" arbitrary: m)
  case Nil
  then show ?case by simp
next
  case (Cons j js)
  from Cons.prems(1) obtain name where name:
      "get_section_name img h secs (unat (sh_name (secs ! j))) = Inr name"
      "section_map_from img h secs js (m(name \<mapsto> j)) = Inr m'"
    by (auto simp: rbind_eq_Inr)
  have "i < length secs \<and> ((m(name \<mapsto> j)) k = Some i
      \<or> get_section_name img h secs (unat (sh_name (secs ! i))) = Inr k)"
    using Cons.prems by (intro Cons.IH name(2)) auto
  then show ?case using name(1) by (auto split: if_splits)
qed

text \<open>A section found by name is one of the headers and has that name.\<close>

lemma build_section_map_sound:
  assumes "build_section_map img h secs = Inr m" and "m name = Some i"
  shows "i < length secs \<and> get_section_name img h secs (unat (sh_name (secs ! i))) = Inr name"
  using section_map_from_dom [of img h secs "[0..<length secs]" Map.empty m name i] assms
  by (auto simp: build_section_map_def atLeast0LessThan)

text \<open>The fields of an opened file that later lookups rely on.\<close>

definition elf_inv :: "elf \<Rightarrow> bool" where
  "elf_inv f \<longleftrightarrow> length (e_sections f) = unat (e_shnum (e_header f))
     \<and> build_section_map (e_image f) (e_header f) (e_sections f) = Inr (e_secmap f)
     \<and> addr_map_inv (e_addrs f)"

lemma elf_parse_inv: "elf_parse demangle n path img = Inr f \<Longrightarrow> elf_inv f \<and> e_bias f = virt_addr_default"
proof -
  assume p: "elf_parse demangle n path img = Inr f"
  then obtain h secs secmap syms where
      secs: "parse_section_headers img h = Inr secs"
    and secmap: "build_section_map img h secs = Inr secmap"
    and f: "build_symbol_maps demangle \<lparr>e_id = n, e_path = path, e_image = img, e_header = h,
       e_sections = secs, e_secmap = secmap, e_bias = virt_addr_default, e_symtab = syms,
       e_names = [], e_addrs = []\<rparr> = Inr f"
    by (auto simp: elf_parse_def rbind_eq_Inr Let_def)
  from secs have "length secs = unat (e_shnum h)" by (auto simp: parse_section_headers_def rbind_eq_Inr)
  moreover have "addr_map_inv (e_addrs f)" using f by (rule build_symbol_maps_inv)
  ultimately show ?thesis using f secmap
    by (auto simp: elf_inv_def build_symbol_maps_def rbind_eq_Inr)
qed

lemma elf_open_inv: "elf_open os demangle n path = Inr f \<Longrightarrow> elf_inv f \<and> e_bias f = virt_addr_default"
  by (auto simp: elf_open_def elf_parse_inv split: option.splits)

lemma get_section_sound:
  assumes "elf_inv f" and "get_section f name = Some s"
  shows "s \<in> set (e_sections f) \<and>
     get_section_name (e_image f) (e_header f) (e_sections f) (unat (sh_name s)) = Inr name"
  using assms build_section_map_sound [of "e_image f" "e_header f" "e_sections f" "e_secmap f" name]
  by (auto simp: get_section_def elf_inv_def)

subsection \<open>The collection of loaded files\<close>

type_synonym elf_collection = "elf list"

definition elves_push :: "elf \<Rightarrow> elf_collection \<Rightarrow> elf_collection" where
  "elves_push f es = es @ [f]"

definition get_elf_containing_address :: "elf_collection \<Rightarrow> virt_addr \<Rightarrow> elf option" where
  "get_elf_containing_address es a = find (\<lambda>f. section_containing_virt f a \<noteq> None) es"

definition get_elf_by_path :: "elf_collection \<Rightarrow> string \<Rightarrow> elf option" where
  "get_elf_by_path es path = find (\<lambda>f. e_path f = path) es"

text \<open>\<open>path::filename()\<close>: what follows the last separator.\<close>

definition path_filename :: "string \<Rightarrow> string" where
  "path_filename p = rev (takeWhile (\<lambda>ch. ch \<noteq> CHR ''/'') (rev p))"

definition get_elf_by_filename :: "elf_collection \<Rightarrow> string \<Rightarrow> elf option" where
  "get_elf_by_filename es name = find (\<lambda>f. path_filename (e_path f) = name) es"

definition elves_to_file_addr :: "elf_collection \<Rightarrow> virt_addr \<Rightarrow> file_addr" where
  "elves_to_file_addr es a = (case get_elf_containing_address es a of
      None \<Rightarrow> file_addr_default
    | Some f \<Rightarrow> to_file_addr f a)"

lemma elves_to_file_addr_found:
  "fa_elf (elves_to_file_addr es a) = Some n \<Longrightarrow>
   \<exists>f\<in>set es. e_id f = n \<and> section_containing_virt f a \<noteq> None
     \<and> fa_addr (elves_to_file_addr es a) = addr a - addr (e_bias f)"
proof -
  assume n: "fa_elf (elves_to_file_addr es a) = Some n"
  then obtain f where f: "get_elf_containing_address es a = Some f"
    by (auto simp: elves_to_file_addr_def file_addr_default_def split: option.splits)
  then have "f \<in> set es" "section_containing_virt f a \<noteq> None"
    by (auto simp: get_elf_containing_address_def find_Some_iff)
  with n f show ?thesis
    by (auto simp: elves_to_file_addr_def to_file_addr_def mk_file_addr_def intro!: bexI [of _ f])
qed

text \<open>A file without content; the samples that witness a property are updates of it.\<close>

definition blank_elf :: elf where
  "blank_elf = \<lparr>e_id = 1, e_path = ''/a'', e_image = \<lparr>ibase = 4096, ibytes = []\<rparr>,
     e_header = \<lparr>e_entry = 0, e_shoff = 0, e_shentsize = 64, e_shnum = 0, e_shstrndx = 0\<rparr>, e_sections = [], e_secmap = Map.empty,
     e_bias = virt_addr_default, e_symtab = [], e_names = [], e_addrs = []\<rparr>"

subsection \<open>Properties\<close>

text \<open>
  C28: an address of a file that lies in one of its sections survives the conversion to a
  virtual address and back, for every load address that keeps the sections below the top of
  the address space.
\<close>

theorem file_virt_round_trip:
  assumes "placed f" and "fa_elf a = Some (e_id f)" and "section_containing_file f a \<noteq> None"
  shows "\<exists>v. to_virt_addr f a = Inr v \<and> to_file_addr f v = a"
  using assms by (rule to_file_to_virt_addr)

definition loaded_elf :: elf where
  "loaded_elf = blank_elf\<lparr>e_bias := VirtAddr 0x555555554000,
     e_sections := [\<lparr>sh_name = 1, sh_addr = 0x1000, sh_offset = 0x1000, sh_size = 0x200, sh_entsize = 0\<rparr>]\<rparr>"

lemma file_virt_round_trip_witness:
  "\<exists>v. to_virt_addr loaded_elf (mk_file_addr 1 0x1100) = Inr v \<and> to_file_addr loaded_elf v = mk_file_addr 1 0x1100"
  by (rule file_virt_round_trip)
     (simp_all add: placed_def loaded_elf_def blank_elf_def mk_file_addr_def section_containing_file_def
       in_section_def)


definition zero_file_os :: file_os where
  "zero_file_os = \<lparr>os_open = (\<lambda>path. Some 3), os_fstat_size = (\<lambda>fd. Some 64),
     os_mmap = (\<lambda>fd len. Some \<lparr>ibase = 8, ibytes = replicate len 0\<rparr>)\<rparr>"

lemma zero_file_opens: "\<exists>f. elf_open zero_file_os (\<lambda>s. None) 1 ''/a'' = Inr f"
  by (simp add: elf_open_def zero_file_os_def elf_parse_def load_bytes_def iend_def bytes_at_def sizeof_ehdr_def ehdr_of_bytes_def
      parse_section_headers_def sizeof_shdr_def build_section_map_def Let_def parse_symbol_table_def get_section_def build_symbol_maps_def)


text \<open>
  In a file whose index is in that order, the lookup of the symbol containing an address
  never answers with a symbol that merely contains it: an answer is always the symbol that
  starts there, and an address above every start makes the code read the end iterator.
\<close>

theorem symbol_containing_only_at_start:
  assumes "elf_inv f" and "fa_elf a = Some (e_id f)"
  shows "(case get_symbol_containing_address f a of
            Inr (Some i) \<Rightarrow> get_symbol_at_address f a = Some i
          | Inr None \<Rightarrow> e_addrs f = [] \<or> (\<exists>e\<in>set (e_addrs f). fa_addr a < fst (fst e))
          | Inl e \<Rightarrow> \<forall>x\<in>set (e_addrs f). fst (fst x) < fa_addr a)"
proof (cases "get_symbol_containing_address f a")
  case (Inl e)
  then have "lower_bound (e_addrs f) (fa_addr a) = length (e_addrs f)"
    by (auto simp: get_symbol_containing_address_def Let_def split: if_splits)
  then have "\<forall>x\<in>set (e_addrs f). fst (fst x) < fa_addr a"
    using lower_bound_spec(2) [of "e_addrs f" "fa_addr a"] assms(1)
    by (metis elf_inv_def in_set_conv_nth)
  with Inl show ?thesis by simp
next
  case (Inr r)
  show ?thesis
  proof (cases r)
    case None
    have "\<exists>e\<in>set (e_addrs f). fa_addr a < fst (fst e)" if ne: "e_addrs f \<noteq> []"
    proof -
      have inv: "addr_map_inv (e_addrs f)" using assms(1) by (simp add: elf_inv_def)
      let ?it = "lower_bound (e_addrs f) (fa_addr a)"
      have lt: "?it < length (e_addrs f)" and nq: "fst (fst (e_addrs f ! ?it)) \<noteq> fa_addr a"
        using Inr None ne assms(2) lower_bound_spec(1) [OF inv, of "fa_addr a"]
        by (auto simp: get_symbol_containing_address_def Let_def split: if_splits)
      then have "fa_addr a < fst (fst (e_addrs f ! ?it))"
        using lower_bound_spec(3) [OF inv, of "fa_addr a"] by (simp add: order_less_le)
      with lt show ?thesis by (meson nth_mem)
    qed
    then show ?thesis using Inr None by auto
  next
    case (Some i)
    then show ?thesis using Inr assms containing_only_exact [of f a i] by (auto simp: elf_inv_def)
  qed
qed

definition symbol_elf :: elf where
  "symbol_elf = blank_elf\<lparr>e_addrs := [((0x1000, 0x1040), 0), ((0x2000, 0x2040), 1)]\<rparr>"

lemma symbol_containing_only_at_start_witness:
  "get_symbol_containing_address symbol_elf (mk_file_addr 1 0x2000) = Inr (Some 1)
     \<and> get_symbol_at_address symbol_elf (mk_file_addr 1 0x2000) = Some 1"
  using symbol_containing_only_at_start [of symbol_elf "mk_file_addr 1 0x2000"]
  by (simp add: symbol_elf_def blank_elf_def elf_inv_def addr_map_inv_def build_section_map_def mk_file_addr_def
      get_symbol_containing_address_def get_symbol_at_address_def lower_bound_def Let_def)

end
