(* ===== verification/KD_Abbrev.thy ===== *)
theory KD_Abbrev
  imports KD_Forms KD_Elf
begin

text \<open>
  Abbreviation tables (\<open>parse_abbrev_table\<close> and \<open>dwarf::get_abbrev_table\<close> of
  \<open>src/dwarf.cpp\<close>): the parser, a reference encoder with the round trip, and the cache of
  parsed tables, which is transparent.
\<close>

record attr_spec =
  as_attr :: u64
  as_form :: u64

record abbrev =
  ab_code :: u64
  ab_tag :: u64
  ab_has_children :: bool
  ab_specs :: "attr_spec list"

type_synonym abbrev_table = "u64 \<rightharpoonup> abbrev"

subsection \<open>The parser\<close>

function parse_attr_specs :: "image \<Rightarrow> attr_spec list reader" where
  "parse_attr_specs img c =
     rbind (uleb128 img c) (\<lambda>(attr, c1).
     rbind (uleb128 img c1) (\<lambda>(form, c2).
     if attr \<noteq> 0
     then rbind (parse_attr_specs img c2) (\<lambda>(specs, c3). Inr (\<lparr>as_attr = attr, as_form = form\<rparr> # specs, c3))
     else Inr ([], c2)))"
  by pat_completeness auto
termination
proof (relation "measure (\<lambda>(img, c). iend img - cpos c)")
  fix img c r attr c1 r' form c2
  assume "uleb128 img c = Inr r" "(attr, c1) = r" "uleb128 img c1 = Inr r'" "(form, c2) = r'"
  then show "((img, c2), img, c) \<in> measure (\<lambda>(img, c). iend img - cpos c)"
    using uleb.decreases [of img c attr c1] uleb.decreases [of img c1 form c2]
    by (auto simp: uleb.left_def)
qed simp

declare parse_attr_specs.simps [simp del]

lemma parse_attr_specsE:
  assumes "parse_attr_specs img c = Inr (specs, c')"
  obtains (stop) form c1 where "uleb128 img c = Inr (0, c1)" and "uleb128 img c1 = Inr (form, c')"
      and "specs = []"
    | (more) attr c1 form c2 rest where "attr \<noteq> 0" and "uleb128 img c = Inr (attr, c1)"
      and "uleb128 img c1 = Inr (form, c2)" and "parse_attr_specs img c2 = Inr (rest, c')"
      and "specs = \<lparr>as_attr = attr, as_form = form\<rparr> # rest"
  using assms by (subst (asm) parse_attr_specs.simps) (auto simp: rbind_eq_Inr split: if_splits)

lemma parse_attr_specs_progress:
  "parse_attr_specs img c = Inr (specs, c') \<Longrightarrow>
     cdata c' = cdata c \<and> cpos c < cpos c' \<and> ibase img \<le> cpos c \<and> cpos c' \<le> iend img"
proof (induction specs arbitrary: c)
  case Nil
  then show ?case
  proof (cases rule: parse_attr_specsE)
    case (stop form c1)
    then show ?thesis using uleb.strict uleb.inside uleb.keeps_data by (metis less_trans)
  qed simp
next
  case (Cons s specs)
  from Cons.prems show ?case
  proof (cases rule: parse_attr_specsE)
    case (more attr c1 form c2 rest)
    then have "cdata c' = cdata c2 \<and> cpos c2 < cpos c' \<and> ibase img \<le> cpos c2 \<and> cpos c' \<le> iend img"
      using Cons.IH [of c2] by simp
    then show ?thesis
      using uleb.strict [OF more(2)] uleb.strict [OF more(3)] uleb.keeps_data [OF more(2)]
        uleb.keeps_data [OF more(3)] uleb.inside [OF more(2)] by simp
  qed simp
qed

interpretation specs: consuming_reader img "parse_attr_specs img" for img
  by unfold_locales (auto dest: parse_attr_specs_progress)

text \<open>
  One round of the outer loop reads a whole entry before it looks at the code, also when the
  code is the terminating zero.
\<close>

definition parse_abbrev_entry :: "image \<Rightarrow> abbrev reader" where
  "parse_abbrev_entry img c =
     rbind (uleb128 img c) (\<lambda>(code, c1).
     rbind (uleb128 img c1) (\<lambda>(tag, c2).
     rbind (cu8 img c2) (\<lambda>(has_children, c3).
     rbind (parse_attr_specs img c3) (\<lambda>(specs, c4).
     Inr (\<lparr>ab_code = code, ab_tag = tag, ab_has_children = (has_children \<noteq> 0), ab_specs = specs\<rparr>, c4)))))"

lemma parse_abbrev_entry_progress:
  assumes "parse_abbrev_entry img c = Inr (a, c')"
  shows "cdata c' = cdata c \<and> cpos c < cpos c' \<and> ibase img \<le> cpos c \<and> cpos c' \<le> iend img"
proof -
  from assms obtain code c1 tag c2 b c3 specs where
    r: "uleb128 img c = Inr (code, c1)" "uleb128 img c1 = Inr (tag, c2)" "cu8 img c2 = Inr (b, c3)"
      "parse_attr_specs img c3 = Inr (specs, c')"
    by (auto simp: parse_abbrev_entry_def rbind_eq_Inr)
  then show ?thesis
    using uleb.strict [OF r(1)] uleb.strict [OF r(2)] cu8.strict [OF r(3)] specs.strict [OF r(4)]
      uleb.keeps_data [OF r(1)] uleb.keeps_data [OF r(2)] cu8.keeps_data [OF r(3)]
      specs.keeps_data [OF r(4)] uleb.inside [OF r(1)] specs.inside [OF r(4)] by simp
qed

interpretation entry: consuming_reader img "parse_abbrev_entry img" for img
  by unfold_locales (auto dest: parse_abbrev_entry_progress)

function parse_abbrev_loop :: "image \<Rightarrow> abbrev_table \<Rightarrow> cursor \<Rightarrow> abbrev_table result" where
  "parse_abbrev_loop img table c =
     rbind (parse_abbrev_entry img c) (\<lambda>(a, c').
     if ab_code a \<noteq> 0 then parse_abbrev_loop img (emplace (ab_code a) a table) c' else Inr table)"
  by pat_completeness auto
termination
proof (relation "measure (\<lambda>(img, table, c). iend img - cpos c)")
  fix img table c r a c'
  assume "parse_abbrev_entry img c = Inr r" "(a, c') = r"
  then show "((img, emplace (ab_code a) a table, c'), img, table, c) \<in> measure (\<lambda>(img, table, c). iend img - cpos c)"
    using entry.decreases [of img c a c'] by (auto simp: entry.left_def)
qed simp

declare parse_abbrev_loop.simps [simp del]

definition parse_abbrev_table :: "elf \<Rightarrow> nat \<Rightarrow> abbrev_table result" where
  "parse_abbrev_table f offset =
     parse_abbrev_loop (e_image f) Map.empty
       (cursor_advance offset (mk_cursor (get_section_contents f (ascii ''.debug_abbrev''))))"

subsection \<open>Reference encoding\<close>

fun encode_specs :: "attr_spec list \<Rightarrow> u8 list" where
  "encode_specs [] = encode_uleb128 0 @ encode_uleb128 0"
| "encode_specs (s # ss) =
     encode_uleb128 (unat (as_attr s)) @ encode_uleb128 (unat (as_form s)) @ encode_specs ss"

definition encode_abbrev :: "abbrev \<Rightarrow> u8 list" where
  "encode_abbrev a = encode_uleb128 (unat (ab_code a)) @ encode_uleb128 (unat (ab_tag a))
     @ [if ab_has_children a then 1 else 0] @ encode_specs (ab_specs a)"

lemma parse_encode_specs:
  "has_bytes img (cpos c) (encode_specs ss) \<Longrightarrow> \<forall>s\<in>set ss. as_attr s \<noteq> 0 \<Longrightarrow>
   parse_attr_specs img c = Inr (ss, cursor_advance (length (encode_specs ss)) c)"
proof (induction ss arbitrary: c)
  case Nil
  then show ?case
    using uleb128_encode_word [of img c 0]
      uleb128_encode_word [of img "cursor_advance (length (encode_uleb128 0)) c" 0]
    by (subst parse_attr_specs.simps) simp
next
  case (Cons s ss)
  let ?a = "encode_uleb128 (unat (as_attr s))" and ?f = "encode_uleb128 (unat (as_form s))"
  have "parse_attr_specs img (cursor_advance (length ?a + length ?f) c) =
      Inr (ss, cursor_advance (length (encode_specs ss)) (cursor_advance (length ?a + length ?f) c))"
    using Cons.prems by (intro Cons.IH) (auto simp: add.assoc)
  moreover have "uleb128 img c = Inr (as_attr s, cursor_advance (length ?a) c)"
    using Cons.prems by (intro uleb128_encode_word) simp
  moreover have "uleb128 img (cursor_advance (length ?a) c) =
      Inr (as_form s, cursor_advance (length ?a + length ?f) c)"
    using Cons.prems uleb128_encode_word [of img "cursor_advance (length ?a) c" "as_form s"] by simp
  ultimately show ?case using Cons.prems
    by (subst parse_attr_specs.simps) (simp add: add.assoc)
qed

definition wf_abbrev :: "abbrev \<Rightarrow> bool" where
  "wf_abbrev a \<longleftrightarrow> (\<forall>s\<in>set (ab_specs a). as_attr s \<noteq> 0)"

lemma parse_encode_abbrev:
  assumes "has_bytes img (cpos c) (encode_abbrev a)" and "wf_abbrev a"
  shows "parse_abbrev_entry img c = Inr (a, cursor_advance (length (encode_abbrev a)) c)"
proof -
  let ?c = "encode_uleb128 (unat (ab_code a))" and ?t = "encode_uleb128 (unat (ab_tag a))"
  have 1: "uleb128 img c = Inr (ab_code a, cursor_advance (length ?c) c)"
    using assms(1) by (intro uleb128_encode_word) (simp add: encode_abbrev_def)
  have 2: "uleb128 img (cursor_advance (length ?c) c) = Inr (ab_tag a, cursor_advance (length ?c + length ?t) c)"
    using assms(1) uleb128_encode_word [of img "cursor_advance (length ?c) c" "ab_tag a"]
    by (simp add: encode_abbrev_def)
  have 3: "cu8 img (cursor_advance (length ?c + length ?t) c) =
      Inr (if ab_has_children a then 1 else 0, cursor_advance (length ?c + length ?t + 1) c)"
    using assms(1) by (simp add: encode_abbrev_def cu8_Inr add.assoc)
  have 4: "parse_attr_specs img (cursor_advance (length ?c + length ?t + 1) c) = Inr (ab_specs a,
      cursor_advance (length (encode_specs (ab_specs a))) (cursor_advance (length ?c + length ?t + 1) c))"
    using assms by (intro parse_encode_specs) (simp_all add: encode_abbrev_def wf_abbrev_def add.assoc)
  show ?thesis unfolding parse_abbrev_entry_def using 1 2 3 4
    by (simp add: encode_abbrev_def add.assoc)
qed

text \<open>
  What a table of entries means: the first entry of a code wins, as \<open>emplace\<close> keeps it.
\<close>

definition table_of :: "abbrev list \<Rightarrow> abbrev_table" where
  "table_of as code = find (\<lambda>a. ab_code a = code) as"

lemma fold_emplace:
  "(\<forall>a\<in>set as. ab_code a \<noteq> 0) \<Longrightarrow>
   fold (\<lambda>a. emplace (ab_code a) a) as m code =
     (case m code of Some a \<Rightarrow> Some a | None \<Rightarrow> find (\<lambda>a. ab_code a = code) as)"
  by (induction as arbitrary: m) (auto simp: emplace_apply split: option.splits)

lemma parse_abbrev_loop_encode:
  assumes "has_bytes img (cpos c) (concat (map encode_abbrev as) @ encode_abbrev term)"
    and "\<forall>a\<in>set as. ab_code a \<noteq> 0 \<and> wf_abbrev a" and "ab_code term = 0" and "wf_abbrev term"
  shows "parse_abbrev_loop img m c = Inr (fold (\<lambda>a. emplace (ab_code a) a) as m)"
  using assms(1,2)
proof (induction as arbitrary: m c)
  case Nil
  then show ?case using assms(3,4) parse_encode_abbrev [of img c "term"]
    by (subst parse_abbrev_loop.simps) simp
next
  case (Cons a as)
  have 1: "parse_abbrev_entry img c = Inr (a, cursor_advance (length (encode_abbrev a)) c)"
    using Cons.prems by (intro parse_encode_abbrev) auto
  have "parse_abbrev_loop img (emplace (ab_code a) a m) (cursor_advance (length (encode_abbrev a)) c) =
      Inr (fold (\<lambda>a. emplace (ab_code a) a) as (emplace (ab_code a) a m))"
    using Cons.prems by (intro Cons.IH) (auto simp: add.assoc)
  with 1 Cons.prems show ?case by (subst parse_abbrev_loop.simps) simp
qed

lemma parse_abbrev_loop_table_of:
  assumes "has_bytes img (cpos c) (concat (map encode_abbrev as) @ encode_abbrev term)"
    and "\<forall>a\<in>set as. ab_code a \<noteq> 0 \<and> wf_abbrev a" and "ab_code term = 0" and "wf_abbrev term"
  shows "parse_abbrev_loop img Map.empty c = Inr (table_of as)"
proof -
  have "fold (\<lambda>a. emplace (ab_code a) a) as Map.empty = table_of as"
    using fold_emplace [of as Map.empty] assms(2) by (auto simp: table_of_def)
  then show ?thesis using parse_abbrev_loop_encode [OF assms] by simp
qed

text \<open>
  A table that ends in the standard's terminator, a single zero byte, as the last byte of the
  file cannot be parsed: the entry of the terminator is read as well.
\<close>

lemma parse_abbrev_loop_bare_terminator:
  assumes "has_bytes img (cpos c) (concat (map encode_abbrev as) @ [0])"
    and "\<forall>a\<in>set as. ab_code a \<noteq> 0 \<and> wf_abbrev a"
    and "cpos c + length (concat (map encode_abbrev as)) + 1 = iend img"
  shows "\<exists>e. parse_abbrev_loop img m c = Inl e"
  using assms
proof (induction as arbitrary: m c)
  case Nil
  have "encode_uleb128 (unat (0 :: u64)) = [0]" by (simp add: encode_uleb128.simps)
  then have "uleb128 img c = Inr (0, cursor_advance 1 c)"
    using Nil uleb128_encode_word [of img c 0] by simp
  moreover obtain e where "uleb128 img (cursor_advance 1 c) = Inl e"
    using uleb.fails_outside [of img "cursor_advance 1 c"] Nil(3) by auto
  ultimately show ?case
    by (subst parse_abbrev_loop.simps) (simp add: parse_abbrev_entry_def)
next
  case (Cons a as)
  have 1: "parse_abbrev_entry img c = Inr (a, cursor_advance (length (encode_abbrev a)) c)"
    using Cons.prems by (intro parse_encode_abbrev) auto
  have "\<exists>e. parse_abbrev_loop img (emplace (ab_code a) a m) (cursor_advance (length (encode_abbrev a)) c) = Inl e"
    using Cons.prems by (intro Cons.IH) (auto simp: add.assoc)
  with 1 Cons.prems show ?case by (subst parse_abbrev_loop.simps) auto
qed

subsection \<open>The cache\<close>

type_synonym abbrev_cache = "nat \<rightharpoonup> abbrev_table"

definition get_abbrev_table :: "elf \<Rightarrow> nat \<Rightarrow> abbrev_cache \<Rightarrow> (abbrev_table \<times> abbrev_cache) result" where
  "get_abbrev_table f offset cache =
     rbind (if cache offset = None
            then rbind (parse_abbrev_table f offset) (\<lambda>t. Inr (emplace offset t cache))
            else Inr cache) (\<lambda>cache'.
     rbind (map_at cache' offset) (\<lambda>t. Inr (t, cache')))"

definition cache_inv :: "elf \<Rightarrow> abbrev_cache \<Rightarrow> bool" where
  "cache_inv f cache \<longleftrightarrow> (\<forall>offset t. cache offset = Some t \<longrightarrow> parse_abbrev_table f offset = Inr t)"

lemma get_abbrev_table_transparent:
  assumes "cache_inv f cache"
  shows "rbind (get_abbrev_table f offset cache) (\<lambda>(t, _). Inr t) = parse_abbrev_table f offset"
    and "get_abbrev_table f offset cache = Inr (t, cache') \<Longrightarrow> cache_inv f cache'"
proof -
  show "rbind (get_abbrev_table f offset cache) (\<lambda>(t, _). Inr t) = parse_abbrev_table f offset"
    using assms by (cases "parse_abbrev_table f offset"; cases "cache offset")
      (auto simp: get_abbrev_table_def cache_inv_def emplace_apply map_at_def)
  show "get_abbrev_table f offset cache = Inr (t, cache') \<Longrightarrow> cache_inv f cache'"
    using assms by (auto simp: get_abbrev_table_def rbind_eq_Inr cache_inv_def emplace_apply
        split: if_splits)
qed

subsection \<open>Properties\<close>

text \<open>
  C25: parsing the encoding of a table of abbreviations gives the map in which the first entry of
  every code wins, when the codes and attribute names are nonzero and the table is closed by a
  full zero entry.
\<close>

theorem parse_abbrev_table_round_trip:
  assumes "get_section f (ascii ''.debug_abbrev'') = Some s"
    and "has_bytes (e_image f) (ibase (e_image f) + unat (sh_offset s) + offset)
           (concat (map encode_abbrev as) @ encode_abbrev term)"
    and "\<forall>a\<in>set as. ab_code a \<noteq> 0 \<and> wf_abbrev a" and "ab_code term = 0" and "wf_abbrev term"
  shows "parse_abbrev_table f offset = Inr (\<lambda>code. find (\<lambda>a. ab_code a = code) as)"
proof -
  have "parse_abbrev_table f offset = Inr (table_of as)"
    unfolding parse_abbrev_table_def using assms
    by (intro parse_abbrev_loop_table_of) (simp_all add: mk_cursor_def get_section_contents_def)
  then show ?thesis by (simp add: table_of_def [abs_def])
qed

definition sample_abbrevs :: "abbrev list" where
  "sample_abbrevs =
     [\<lparr>ab_code = 1, ab_tag = DW_TAG_subprogram, ab_has_children = True,
        ab_specs = [\<lparr>as_attr = DW_AT_name, as_form = DW_FORM_strp\<rparr>, \<lparr>as_attr = DW_AT_decl_line, as_form = DW_FORM_data1\<rparr>]\<rparr>,
      \<lparr>ab_code = 300, ab_tag = DW_TAG_inlined_subroutine, ab_has_children = False, ab_specs = []\<rparr>]"

definition zero_abbrev :: abbrev where
  "zero_abbrev = \<lparr>ab_code = 0, ab_tag = 0, ab_has_children = False, ab_specs = []\<rparr>"

definition abbrev_elf :: "abbrev list \<Rightarrow> elf" where
  "abbrev_elf as = blank_elf\<lparr>e_image := \<lparr>ibase = 4096, ibytes = [7, 7] @ (concat (map encode_abbrev as) @ encode_abbrev zero_abbrev) @ []\<rparr>,
     e_sections := [\<lparr>sh_name = 0, sh_addr = 0, sh_offset = 2, sh_size = 40, sh_entsize = 0\<rparr>],
     e_secmap := [ascii ''.debug_abbrev'' \<mapsto> 0]\<rparr>"

lemma parse_abbrev_table_round_trip_witness:
  "parse_abbrev_table (abbrev_elf sample_abbrevs) 0 = Inr (\<lambda>code. find (\<lambda>a. ab_code a = code) sample_abbrevs)"
proof (rule parse_abbrev_table_round_trip)
  let ?f = "abbrev_elf sample_abbrevs"
  show "get_section ?f (ascii ''.debug_abbrev'') = Some \<lparr>sh_name = 0, sh_addr = 0, sh_offset = 2, sh_size = 40, sh_entsize = 0\<rparr>"
    by (simp add: get_section_def abbrev_elf_def)
  show "has_bytes (e_image ?f) (ibase (e_image ?f)
      + unat (sh_offset \<lparr>sh_name = 0, sh_addr = 0, sh_offset = 2, sh_size = 40, sh_entsize = 0\<rparr>) + 0)
      (concat (map encode_abbrev sample_abbrevs) @ encode_abbrev zero_abbrev)"
    using image_has_bytes [of 4096 "[7, 7]" "concat (map encode_abbrev sample_abbrevs) @ encode_abbrev zero_abbrev" "[]"]
    by (simp only: abbrev_elf_def elf.simps) simp
qed (simp_all add: sample_abbrevs_def zero_abbrev_def wf_abbrev_def)

text \<open>
  A table closed by a single zero byte at the very end of the file, as the format has it, is
  not parsed: the entry of the terminator is read in full before its code is looked at.
\<close>

theorem parse_abbrev_table_bare_terminator:
  assumes "get_section f (ascii ''.debug_abbrev'') = Some s"
    and "has_bytes (e_image f) (ibase (e_image f) + unat (sh_offset s) + offset) (concat (map encode_abbrev as) @ [0])"
    and "\<forall>a\<in>set as. ab_code a \<noteq> 0 \<and> wf_abbrev a"
    and "ibase (e_image f) + unat (sh_offset s) + offset + length (concat (map encode_abbrev as)) + 1 = iend (e_image f)"
  shows "\<exists>e. parse_abbrev_table f offset = Inl e"
  unfolding parse_abbrev_table_def using assms
  by (intro parse_abbrev_loop_bare_terminator [of _ _ as]) (simp_all add: mk_cursor_def get_section_contents_def)

lemma parse_abbrev_table_bare_terminator_witness:
  "\<exists>e. parse_abbrev_table (abbrev_elf []\<lparr>e_image := \<lparr>ibase = 4096, ibytes = [7, 7, 0]\<rparr>\<rparr>) 0 = Inl e"
  by (rule parse_abbrev_table_bare_terminator
      [where as = "[]" and s = "\<lparr>sh_name = 0, sh_addr = 0, sh_offset = 2, sh_size = 40, sh_entsize = 0\<rparr>"])
     (simp_all add: get_section_def abbrev_elf_def load_byte_def iend_def)

text \<open>
  The cache of abbreviation tables is transparent: a lookup returns what parsing the table
  afresh would, and leaves the cache consistent with the file.
\<close>

theorem get_abbrev_table_cached:
  assumes "cache_inv f cache"
  shows "(case get_abbrev_table f offset cache of
            Inr (t, cache') \<Rightarrow> parse_abbrev_table f offset = Inr t \<and> cache_inv f cache'
          | Inl e \<Rightarrow> parse_abbrev_table f offset = Inl e)"
  using get_abbrev_table_transparent [OF assms, of offset]
  by (cases "get_abbrev_table f offset cache") auto

lemma get_abbrev_table_cached_witness:
  "(case get_abbrev_table blank_elf 0 Map.empty of
      Inr (t, cache') \<Rightarrow> parse_abbrev_table blank_elf 0 = Inr t \<and> cache_inv blank_elf cache'
    | Inl e \<Rightarrow> parse_abbrev_table blank_elf 0 = Inl e)"
  by (rule get_abbrev_table_cached) (simp add: cache_inv_def)

end
