(* ===== verification/KD_Registers.thy ===== *)
theory KD_Registers
  imports KD_Types
begin

text \<open>
  The register file (\<open>register_info.hpp\<close>, \<open>registers.hpp\<close>, \<open>detail/registers.inc\<close> and
  \<open>src/registers.cpp\<close>): the table of registers over the bytes of \<open>struct user\<close>, reading
  and writing a register, and the requests a write makes to the traced process.
\<close>

unbundle bit_operations_syntax

subsection \<open>The table of registers\<close>

datatype register_type = Gpr | SubGpr | Fpr | Dr

datatype register_format = UintF | DoubleFloat | LongDouble | Vector

text \<open>The enumerators of \<open>register_id\<close> are the positions in the table.\<close>

type_synonym register_id = nat

record register_info =
  reg_id :: register_id
  reg_name :: string
  reg_dwarf :: int
  reg_size :: nat
  reg_offset :: nat
  reg_type :: register_type
  reg_fmt :: register_format

text \<open>
  The layout of \<open>struct user\<close> on x86-64: the general registers from offset 0, the floating
  point area from 224, the debug registers from 848, 912 bytes in all.
\<close>

definition sizeof_user :: nat where "sizeof_user = 912"
definition i387_offset :: nat where "i387_offset = 224"
definition sizeof_fpregs :: nat where "sizeof_fpregs = 512"
definition sizeof_regs :: nat where "sizeof_regs = 216"
definition debugreg_offset :: nat where "debugreg_offset = 848"

definition user_regs_fields :: "string list" where
  "user_regs_fields = [''r15'', ''r14'', ''r13'', ''r12'', ''rbp'', ''rbx'', ''r11'', ''r10'', ''r9'', ''r8'',
     ''rax'', ''rcx'', ''rdx'', ''rsi'', ''rdi'', ''orig_rax'', ''rip'', ''cs'', ''eflags'', ''rsp'', ''ss'',
     ''fs_base'', ''gs_base'', ''ds'', ''es'', ''fs'', ''gs'']"

definition gpr_offset :: "string \<Rightarrow> nat" where
  "gpr_offset reg = (case find_if (\<lambda>f. f = reg) user_regs_fields of Some i \<Rightarrow> 8 * i | None \<Rightarrow> 0)"

definition fpregs_fields :: "(string \<times> nat \<times> nat) list" where
  "fpregs_fields = [(''cwd'', 0, 2), (''swd'', 2, 2), (''ftw'', 4, 2), (''fop'', 6, 2), (''rip'', 8, 8), (''rdp'', 16, 8),
     (''mxcsr'', 24, 4), (''mxcr_mask'', 28, 4), (''st_space'', 32, 128), (''xmm_space'', 160, 256)]"

definition fpr_offset :: "string \<Rightarrow> nat" where
  "fpr_offset reg = i387_offset + (case map_of fpregs_fields reg of Some (off, sz) \<Rightarrow> off | None \<Rightarrow> 0)"

definition fpr_size :: "string \<Rightarrow> nat" where
  "fpr_size reg = (case map_of fpregs_fields reg of Some (off, sz) \<Rightarrow> sz | None \<Rightarrow> 0)"

definition decimal :: "nat \<Rightarrow> string" where
  "decimal n = (if n < 10 then [char_of (48 + n)] else [char_of (48 + n div 10), char_of (48 + n mod 10)])"

type_synonym raw_register = "string \<times> int \<times> nat \<times> nat \<times> register_type \<times> register_format"

text \<open>The macros of \<open>registers.inc\<close>.\<close>

definition gpr64 :: "string \<Rightarrow> int \<Rightarrow> raw_register" where
  "gpr64 name d = (name, d, 8, gpr_offset name, Gpr, UintF)"
definition gpr32 :: "string \<Rightarrow> string \<Rightarrow> raw_register" where
  "gpr32 name super = (name, - 1, 4, gpr_offset super, SubGpr, UintF)"
definition gpr16 :: "string \<Rightarrow> string \<Rightarrow> raw_register" where
  "gpr16 name super = (name, - 1, 2, gpr_offset super, SubGpr, UintF)"
definition gpr8h :: "string \<Rightarrow> string \<Rightarrow> raw_register" where
  "gpr8h name super = (name, - 1, 1, gpr_offset super + 1, SubGpr, UintF)"
definition gpr8l :: "string \<Rightarrow> string \<Rightarrow> raw_register" where
  "gpr8l name super = (name, - 1, 1, gpr_offset super, SubGpr, UintF)"
definition fpr :: "string \<Rightarrow> int \<Rightarrow> string \<Rightarrow> raw_register" where
  "fpr name d user_name = (name, d, fpr_size user_name, fpr_offset user_name, Fpr, UintF)"
definition fp_st :: "nat \<Rightarrow> raw_register" where
  "fp_st n = (''st'' @ decimal n, int (33 + n), 16, fpr_offset ''st_space'' + n * 16, Fpr, LongDouble)"
definition fp_mm :: "nat \<Rightarrow> raw_register" where
  "fp_mm n = (''mm'' @ decimal n, int (41 + n), 8, fpr_offset ''st_space'' + n * 16, Fpr, Vector)"
definition fp_xmm :: "nat \<Rightarrow> raw_register" where
  "fp_xmm n = (''xmm'' @ decimal n, int (17 + n), 16, fpr_offset ''xmm_space'' + n * 16, Fpr, Vector)"
definition dr :: "nat \<Rightarrow> raw_register" where
  "dr n = (''dr'' @ decimal n, - 1, 8, debugreg_offset + n * 8, Dr, UintF)"

definition raw_registers :: "raw_register list" where
  "raw_registers = [
    gpr64 ''rax'' 0, gpr64 ''rdx'' 1, gpr64 ''rcx'' 2, gpr64 ''rbx'' 3, gpr64 ''rsi'' 4, gpr64 ''rdi'' 5,
     gpr64 ''rbp'' 6, gpr64 ''rsp'' 7, gpr64 ''r8'' 8, gpr64 ''r9'' 9, gpr64 ''r10'' 10, gpr64 ''r11'' 11,
     gpr64 ''r12'' 12, gpr64 ''r13'' 13, gpr64 ''r14'' 14, gpr64 ''r15'' 15, gpr64 ''rip'' 16,
     gpr64 ''eflags'' 49, gpr64 ''cs'' 51, gpr64 ''fs'' 54, gpr64 ''gs'' 55, gpr64 ''ss'' 52,
     gpr64 ''ds'' 53, gpr64 ''es'' 50, gpr64 ''orig_rax'' (- 1), gpr32 ''eax'' ''rax'',
     gpr32 ''edx'' ''rdx'', gpr32 ''ecx'' ''rcx'', gpr32 ''ebx'' ''rbx'', gpr32 ''esi'' ''rsi'',
     gpr32 ''edi'' ''rdi'', gpr32 ''r8d'' ''r8'', gpr32 ''r9d'' ''r9'', gpr32 ''r10d'' ''r10'',
     gpr32 ''r11d'' ''r11'', gpr32 ''r12d'' ''r12'', gpr32 ''r13d'' ''r13'', gpr32 ''r14d'' ''r14'',
     gpr32 ''r15d'' ''r15'', gpr16 ''ax'' ''rax'', gpr16 ''dx'' ''rdx'', gpr16 ''cx'' ''rcx'',
     gpr16 ''bx'' ''rbx'', gpr16 ''si'' ''rsi'', gpr16 ''di'' ''rdi'', gpr16 ''bp'' ''rbp'',
     gpr16 ''sp'' ''rsp'', gpr16 ''r8w'' ''r8'', gpr16 ''r9w'' ''r9'', gpr16 ''r10w'' ''r10'',
     gpr16 ''r11w'' ''r11'', gpr16 ''r12w'' ''r12'', gpr16 ''r13w'' ''r13'', gpr16 ''r14w'' ''r14'',
     gpr16 ''r15w'' ''r15'', gpr8h ''ah'' ''rax'', gpr8h ''dh'' ''rdx'', gpr8h ''ch'' ''rcx'',
     gpr8h ''bh'' ''rbx'', gpr8l ''al'' ''rax'', gpr8l ''dl'' ''rdx'', gpr8l ''cl'' ''rcx'',
     gpr8l ''bl'' ''rbx'', gpr8l ''sil'' ''rsi'', gpr8l ''dil'' ''rdi'', gpr8l ''bpl'' ''rbp'',
     gpr8l ''spl'' ''rsp'', gpr8l ''r8b'' ''r8'', gpr8l ''r9b'' ''r9'', gpr8l ''r10b'' ''r10'',
     gpr8l ''r11b'' ''r11'', gpr8l ''r12b'' ''r12'', gpr8l ''r13b'' ''r13'', gpr8l ''r14b'' ''r14'',
     gpr8l ''r15b'' ''r15'', fpr ''fcw'' 65 ''cwd'', fpr ''fsw'' 66 ''swd'', fpr ''ftw'' (- 1) ''ftw'',
     fpr ''fop'' (- 1) ''fop'', fpr ''frip'' (- 1) ''rip'', fpr ''frdp'' (- 1) ''rdp'',
     fpr ''mxcsr'' 64 ''mxcsr'', fpr ''mxcsrmask'' (- 1) ''mxcr_mask'', fp_st 0, fp_st 1, fp_st 2, fp_st 3,
     fp_st 4, fp_st 5, fp_st 6, fp_st 7, fp_mm 0, fp_mm 1, fp_mm 2, fp_mm 3, fp_mm 4, fp_mm 5, fp_mm 6,
     fp_mm 7, fp_xmm 0, fp_xmm 1, fp_xmm 2, fp_xmm 3, fp_xmm 4, fp_xmm 5, fp_xmm 6, fp_xmm 7, fp_xmm 8,
     fp_xmm 9, fp_xmm 10, fp_xmm 11, fp_xmm 12, fp_xmm 13, fp_xmm 14, fp_xmm 15, dr 0, dr 1, dr 2, dr 3,
     dr 4, dr 5, dr 6, dr 7]"

definition info_of_raw :: "nat \<times> raw_register \<Rightarrow> register_info" where
  "info_of_raw x = (case x of (i, n, d, s, off, t, f) \<Rightarrow>
     \<lparr>reg_id = i, reg_name = n, reg_dwarf = d, reg_size = s, reg_offset = off, reg_type = t, reg_fmt = f\<rparr>)"

definition g_register_infos :: "register_info list" where
  "g_register_infos = map info_of_raw (enumerate 0 raw_registers)"

definition register_info_by :: "(register_info \<Rightarrow> bool) \<Rightarrow> register_info result" where
  "register_info_by f = (case find_if f g_register_infos of
      None \<Rightarrow> Inl (Send ''Cannot find register info'')
    | Some i \<Rightarrow> Inr (g_register_infos ! i))"

definition register_info_by_id :: "register_id \<Rightarrow> register_info result" where
  "register_info_by_id i = register_info_by (\<lambda>r. reg_id r = i)"

definition register_info_by_name :: "string \<Rightarrow> register_info result" where
  "register_info_by_name n = register_info_by (\<lambda>r. reg_name r = n)"

definition register_info_by_dwarf :: "int \<Rightarrow> register_info result" where
  "register_info_by_dwarf d = register_info_by (\<lambda>r. reg_dwarf r = d)"

definition rid_rax :: register_id where "rid_rax = 0"
definition rid_rsp :: register_id where "rid_rsp = 7"
definition rid_rip :: register_id where "rid_rip = 16"
definition rid_orig_rax :: register_id where "rid_orig_rax = 24"
definition rid_dr0 :: register_id where "rid_dr0 = 115"
definition rid_dr6 :: register_id where "rid_dr6 = 121"
definition rid_dr7 :: register_id where "rid_dr7 = 122"

lemma length_g_register_infos: "length g_register_infos = 123"
  by (simp add: g_register_infos_def raw_registers_def)

lemma reg_id_nth: "i < 123 \<Longrightarrow> reg_id (g_register_infos ! i) = i"
  using length_g_register_infos
  by (simp add: g_register_infos_def info_of_raw_def nth_enumerate_eq split_beta)

lemma register_info_by_id_nth: "register_info_by_id i = (if i < 123 then Inr (g_register_infos ! i)
    else Inl (Send ''Cannot find register info''))"
proof (cases "i < 123")
  case True
  then have "find_if (\<lambda>r. reg_id r = i) g_register_infos = Some i"
    by (intro find_if_SomeI) (auto simp: length_g_register_infos reg_id_nth)
  then show ?thesis using True by (simp add: register_info_by_id_def register_info_by_def)
next
  case False
  then have "find_if (\<lambda>r. reg_id r = i) g_register_infos = None"
    unfolding find_if_None by (metis in_set_conv_nth length_g_register_infos reg_id_nth)
  then show ?thesis using False by (simp add: register_info_by_id_def register_info_by_def)
qed

text \<open>Every entry lies inside \<open>struct user\<close>, has one of the sizes the accessors know, and a name of its own.\<close>

definition info_ok :: "register_info \<Rightarrow> bool" where
  "info_ok r \<longleftrightarrow> reg_offset r + reg_size r \<le> sizeof_user \<and> reg_size r \<in> {1, 2, 4, 8, 16}
     \<and> (reg_fmt r = UintF \<longrightarrow> reg_size r \<le> 8) \<and> (reg_fmt r \<in> {LongDouble} \<longrightarrow> reg_size r = 16)
     \<and> (reg_fmt r = Vector \<longrightarrow> 8 \<le> reg_size r) \<and> reg_fmt r \<noteq> DoubleFloat
     \<and> (reg_type r = Fpr \<longleftrightarrow> i387_offset \<le> reg_offset r \<and> reg_offset r < i387_offset + sizeof_fpregs)"

lemma map_register_infos:
  assumes "\<And>x. f (info_of_raw x) = h (snd x)"
  shows "map f g_register_infos = map h raw_registers"
proof -
  have "map f g_register_infos = map h (map snd (enumerate 0 raw_registers))"
    unfolding g_register_infos_def map_map by (rule map_cong) (simp_all add: assms)
  then show ?thesis by (simp only: map_snd_enumerate)
qed

lemmas raw_register_defs = gpr64_def gpr32_def gpr16_def gpr8h_def gpr8l_def fpr_def fp_st_def fp_mm_def fp_xmm_def dr_def

text \<open>The table without the names, evaluated once: number in DWARF, size, offset, type and format.\<close>

type_synonym place_in_user = "int \<times> nat \<times> nat \<times> register_type \<times> register_format"

definition place_of :: "register_info \<Rightarrow> place_in_user" where
  "place_of r = (reg_dwarf r, reg_size r, reg_offset r, reg_type r, reg_fmt r)"

definition register_layout :: "place_in_user list" where
  "register_layout =
    [(0, 8, 80, Gpr, UintF), (1, 8, 96, Gpr, UintF), (2, 8, 88, Gpr, UintF), (3, 8, 40, Gpr, UintF),
     (4, 8, 104, Gpr, UintF), (5, 8, 112, Gpr, UintF), (6, 8, 32, Gpr, UintF), (7, 8, 152, Gpr, UintF),
     (8, 8, 72, Gpr, UintF), (9, 8, 64, Gpr, UintF), (10, 8, 56, Gpr, UintF), (11, 8, 48, Gpr, UintF),
     (12, 8, 24, Gpr, UintF), (13, 8, 16, Gpr, UintF), (14, 8, 8, Gpr, UintF), (15, 8, 0, Gpr, UintF),
     (16, 8, 128, Gpr, UintF), (49, 8, 144, Gpr, UintF), (51, 8, 136, Gpr, UintF), (54, 8, 200, Gpr, UintF),
     (55, 8, 208, Gpr, UintF), (52, 8, 160, Gpr, UintF), (53, 8, 184, Gpr, UintF), (50, 8, 192, Gpr, UintF),
     (- 1, 8, 120, Gpr, UintF), (- 1, 4, 80, SubGpr, UintF), (- 1, 4, 96, SubGpr, UintF),
     (- 1, 4, 88, SubGpr, UintF), (- 1, 4, 40, SubGpr, UintF), (- 1, 4, 104, SubGpr, UintF),
     (- 1, 4, 112, SubGpr, UintF), (- 1, 4, 72, SubGpr, UintF), (- 1, 4, 64, SubGpr, UintF),
     (- 1, 4, 56, SubGpr, UintF), (- 1, 4, 48, SubGpr, UintF), (- 1, 4, 24, SubGpr, UintF),
     (- 1, 4, 16, SubGpr, UintF), (- 1, 4, 8, SubGpr, UintF), (- 1, 4, 0, SubGpr, UintF),
     (- 1, 2, 80, SubGpr, UintF), (- 1, 2, 96, SubGpr, UintF), (- 1, 2, 88, SubGpr, UintF),
     (- 1, 2, 40, SubGpr, UintF), (- 1, 2, 104, SubGpr, UintF), (- 1, 2, 112, SubGpr, UintF),
     (- 1, 2, 32, SubGpr, UintF), (- 1, 2, 152, SubGpr, UintF), (- 1, 2, 72, SubGpr, UintF),
     (- 1, 2, 64, SubGpr, UintF), (- 1, 2, 56, SubGpr, UintF), (- 1, 2, 48, SubGpr, UintF),
     (- 1, 2, 24, SubGpr, UintF), (- 1, 2, 16, SubGpr, UintF), (- 1, 2, 8, SubGpr, UintF),
     (- 1, 2, 0, SubGpr, UintF), (- 1, 1, 81, SubGpr, UintF), (- 1, 1, 97, SubGpr, UintF),
     (- 1, 1, 89, SubGpr, UintF), (- 1, 1, 41, SubGpr, UintF), (- 1, 1, 80, SubGpr, UintF),
     (- 1, 1, 96, SubGpr, UintF), (- 1, 1, 88, SubGpr, UintF), (- 1, 1, 40, SubGpr, UintF),
     (- 1, 1, 104, SubGpr, UintF), (- 1, 1, 112, SubGpr, UintF), (- 1, 1, 32, SubGpr, UintF),
     (- 1, 1, 152, SubGpr, UintF), (- 1, 1, 72, SubGpr, UintF), (- 1, 1, 64, SubGpr, UintF),
     (- 1, 1, 56, SubGpr, UintF), (- 1, 1, 48, SubGpr, UintF), (- 1, 1, 24, SubGpr, UintF),
     (- 1, 1, 16, SubGpr, UintF), (- 1, 1, 8, SubGpr, UintF), (- 1, 1, 0, SubGpr, UintF),
     (65, 2, 224, Fpr, UintF), (66, 2, 226, Fpr, UintF), (- 1, 2, 228, Fpr, UintF),
     (- 1, 2, 230, Fpr, UintF), (- 1, 8, 232, Fpr, UintF), (- 1, 8, 240, Fpr, UintF),
     (64, 4, 248, Fpr, UintF), (- 1, 4, 252, Fpr, UintF), (33, 16, 256, Fpr, LongDouble),
     (34, 16, 272, Fpr, LongDouble), (35, 16, 288, Fpr, LongDouble), (36, 16, 304, Fpr, LongDouble),
     (37, 16, 320, Fpr, LongDouble), (38, 16, 336, Fpr, LongDouble), (39, 16, 352, Fpr, LongDouble),
     (40, 16, 368, Fpr, LongDouble), (41, 8, 256, Fpr, Vector), (42, 8, 272, Fpr, Vector),
     (43, 8, 288, Fpr, Vector), (44, 8, 304, Fpr, Vector), (45, 8, 320, Fpr, Vector),
     (46, 8, 336, Fpr, Vector), (47, 8, 352, Fpr, Vector), (48, 8, 368, Fpr, Vector),
     (17, 16, 384, Fpr, Vector), (18, 16, 400, Fpr, Vector), (19, 16, 416, Fpr, Vector),
     (20, 16, 432, Fpr, Vector), (21, 16, 448, Fpr, Vector), (22, 16, 464, Fpr, Vector),
     (23, 16, 480, Fpr, Vector), (24, 16, 496, Fpr, Vector), (25, 16, 512, Fpr, Vector),
     (26, 16, 528, Fpr, Vector), (27, 16, 544, Fpr, Vector), (28, 16, 560, Fpr, Vector),
     (29, 16, 576, Fpr, Vector), (30, 16, 592, Fpr, Vector), (31, 16, 608, Fpr, Vector),
     (32, 16, 624, Fpr, Vector), (- 1, 8, 848, Dr, UintF), (- 1, 8, 856, Dr, UintF),
     (- 1, 8, 864, Dr, UintF), (- 1, 8, 872, Dr, UintF), (- 1, 8, 880, Dr, UintF), (- 1, 8, 888, Dr, UintF),
     (- 1, 8, 896, Dr, UintF), (- 1, 8, 904, Dr, UintF)]"
lemma register_places: "map place_of g_register_infos = register_layout"
proof -
  have "map place_of g_register_infos = map snd raw_registers"
    by (rule map_register_infos) (simp add: info_of_raw_def place_of_def split_beta)
  also have "\<dots> = register_layout"
    by (simp add: raw_registers_def register_layout_def raw_register_defs gpr_offset_def user_regs_fields_def fpr_offset_def
        fpr_size_def fpregs_fields_def i387_offset_def debugreg_offset_def)
  finally show ?thesis .
qed

lemma place_nth: "i < 123 \<Longrightarrow> place_of (g_register_infos ! i) = register_layout ! i"
  using length_g_register_infos by (simp flip: register_places)

text \<open>What holds of the places in a part of the table holds of its entries.\<close>

lemma table_part:
  assumes "list_all P (drop m (take n register_layout))" and "m \<le> i" and "i < n" and "n \<le> 123"
  shows "P (place_of (g_register_infos ! i))"
proof -
  have "length register_layout = 123" using register_places length_g_register_infos by (metis length_map)
  then have l: "i - m < length (drop m (take n register_layout))" "drop m (take n register_layout) ! (i - m) = register_layout ! i"
    using assms(2-4) by auto
  have "P (register_layout ! i)" using assms(1) nth_mem [OF l(1)] l(2) by (simp add: list_all_iff)
  then show ?thesis using place_nth [of i] assms(3,4) by simp
qed

lemma all_infos_ok: "\<forall>r\<in>set g_register_infos. info_ok r"
proof -
  have "list_all (\<lambda>(d, sz, off, t, f). info_ok \<lparr>reg_id = 0, reg_name = [], reg_dwarf = d, reg_size = sz, reg_offset = off,
      reg_type = t, reg_fmt = f\<rparr>) (map place_of g_register_infos)"
    unfolding register_places register_layout_def by (simp add: info_ok_def sizeof_user_def i387_offset_def sizeof_fpregs_def)
  then show ?thesis by (simp add: list_all_iff place_of_def info_ok_def)
qed

lemma register_names_distinct: "distinct (map reg_name g_register_infos)"
proof -
  have "map reg_name g_register_infos = map fst raw_registers"
    by (rule map_register_infos) (simp add: info_of_raw_def split_beta)
  moreover have "distinct (map fst raw_registers)"
    by (simp add: raw_registers_def raw_register_defs decimal_def)
  ultimately show ?thesis by simp
qed

text \<open>The 25 general registers and the 8 debug registers.\<close>

lemma gpr_place:
  assumes "i < 25"
  shows "reg_size (g_register_infos ! i) = 8 \<and> 8 dvd reg_offset (g_register_infos ! i) \<and> reg_offset (g_register_infos ! i) + 8 \<le> i387_offset
    \<and> reg_type (g_register_infos ! i) = Gpr \<and> reg_fmt (g_register_infos ! i) = UintF"
proof -
  have "list_all (\<lambda>(d, sz, off, t, f). sz = 8 \<and> 8 dvd off \<and> off + 8 \<le> i387_offset \<and> t = Gpr \<and> f = UintF) (drop 0 (take 25 register_layout))"
    by (simp add: register_layout_def i387_offset_def)
  from table_part [OF this] assms show ?thesis by (simp add: place_of_def)
qed

lemma dr_place:
  assumes "115 \<le> i" and "i < 123"
  shows "reg_size (g_register_infos ! i) = 8 \<and> reg_offset (g_register_infos ! i) = 848 + 8 * (i - 115)
    \<and> reg_type (g_register_infos ! i) = Dr \<and> reg_fmt (g_register_infos ! i) = UintF"
proof -
  have "i \<in> {115, 116, 117, 118, 119, 120, 121, 122}" using assms by auto
  then show ?thesis using place_nth [of i] assms(2) by (auto simp: place_of_def register_layout_def)
qed

lemma gpr_offsets_distinct: "distinct (map reg_offset (take 25 g_register_infos))"
proof -
  have "map reg_offset (take 25 g_register_infos) = map (\<lambda>(d, sz, off, t, f). off) (take 25 (map place_of g_register_infos))"
    by (simp add: take_map place_of_def)
  also have "distinct \<dots>" unfolding register_places by (simp add: register_layout_def)
  finally show ?thesis .
qed

lemma rip_offset: "reg_offset (g_register_infos ! rid_rip) = 128"
  using place_nth [of 16] by (simp add: rid_rip_def place_of_def register_layout_def)

lemma rsp_offset: "reg_offset (g_register_infos ! 7) = 152"
  using place_nth [of 7] by (simp add: place_of_def register_layout_def)

subsection \<open>Values\<close>

text \<open>
  The alternatives of \<open>registers::value\<close>. Signed integers and floating point values are kept
  as their bits; the conversions between floating point formats are the processor's, given as
  an argument.
\<close>

datatype reg_value =
    VU8 u8 | VU16 u16 | VU32 u32 | VU64 u64
  | VI8 u8 | VI16 u16 | VI32 u32 | VI64 u64
  | VFloat u32 | VDouble u64 | VLongDouble "u8 list"
  | VByte64 "u8 list" | VByte128 "u8 list"

record float_conv =
  fc_double_of_float :: "u32 \<Rightarrow> u64"
  fc_ld_of_float :: "u32 \<Rightarrow> u8 list"
  fc_ld_of_double :: "u64 \<Rightarrow> u8 list"
  fc_double_of_ld :: "u8 list \<Rightarrow> u64"

fun value_size :: "reg_value \<Rightarrow> nat" where
  "value_size (VU8 _) = 1" | "value_size (VU16 _) = 2" | "value_size (VU32 _) = 4" | "value_size (VU64 _) = 8"
| "value_size (VI8 _) = 1" | "value_size (VI16 _) = 2" | "value_size (VI32 _) = 4" | "value_size (VI64 _) = 8"
| "value_size (VFloat _) = 4" | "value_size (VDouble _) = 8" | "value_size (VLongDouble _) = 16"
| "value_size (VByte64 _) = 8" | "value_size (VByte128 _) = 16"

fun value_bytes :: "reg_value \<Rightarrow> u8 list" where
  "value_bytes (VU8 w) = as_bytes w" | "value_bytes (VU16 w) = as_bytes w"
| "value_bytes (VU32 w) = as_bytes w" | "value_bytes (VU64 w) = as_bytes w"
| "value_bytes (VI8 w) = as_bytes w" | "value_bytes (VI16 w) = as_bytes w"
| "value_bytes (VI32 w) = as_bytes w" | "value_bytes (VI64 w) = as_bytes w"
| "value_bytes (VFloat w) = as_bytes w" | "value_bytes (VDouble w) = as_bytes w"
| "value_bytes (VLongDouble bs) = bs" | "value_bytes (VByte64 bs) = bs" | "value_bytes (VByte128 bs) = bs"

definition value_ok :: "reg_value \<Rightarrow> bool" where
  "value_ok v \<longleftrightarrow> length (value_bytes v) = value_size v"

fun is_integer :: "reg_value \<Rightarrow> bool" where
  "is_integer (VFloat _) = False" | "is_integer (VDouble _) = False" | "is_integer (VLongDouble _) = False"
| "is_integer _ = True"

text \<open>\<open>widen\<close> for the signed alternatives: sign extension to the size of the register.\<close>

definition widen_signed :: "register_info \<Rightarrow> 'a::len word \<Rightarrow> u8 list" where
  "widen_signed info t =
     (if reg_fmt info = UintF then
        if reg_size info = 2 then to_byte128 (as_bytes (scast t :: u16))
        else if reg_size info = 4 then to_byte128 (as_bytes (scast t :: u32))
        else if reg_size info = 8 then to_byte128 (as_bytes (scast t :: u64))
        else to_byte128 (as_bytes t)
      else to_byte128 (as_bytes t))"

fun widen :: "float_conv \<Rightarrow> register_info \<Rightarrow> reg_value \<Rightarrow> u8 list" where
  "widen fc info (VFloat x) = (if reg_fmt info = DoubleFloat then to_byte128 (as_bytes (fc_double_of_float fc x))
     else if reg_fmt info = LongDouble then to_byte128 (fc_ld_of_float fc x) else to_byte128 (as_bytes x))"
| "widen fc info (VDouble x) = (if reg_fmt info = LongDouble then to_byte128 (fc_ld_of_double fc x)
     else to_byte128 (as_bytes x))"
| "widen fc info (VLongDouble x) = (if reg_fmt info = DoubleFloat then to_byte128 (as_bytes (fc_double_of_ld fc x))
     else to_byte128 x)"
| "widen fc info (VI8 t) = widen_signed info t"
| "widen fc info (VI16 t) = widen_signed info t"
| "widen fc info (VI32 t) = widen_signed info t"
| "widen fc info (VI64 t) = widen_signed info t"
| "widen fc info v = to_byte128 (value_bytes v)"

subsection \<open>Reading and writing\<close>

record registers =
  rg_data :: "u8 list"
  rg_undefined :: "nat list"
  rg_cfa :: virt_addr
  rg_tid :: int

definition undefine :: "register_id \<Rightarrow> registers \<Rightarrow> registers result" where
  "undefine i r = rbind (register_info_by_id i) (\<lambda>info.
     Inr (r\<lparr>rg_undefined := rg_undefined r @ [reg_offset info div 2]\<rparr>))"

definition is_undefined :: "register_id \<Rightarrow> registers \<Rightarrow> bool result" where
  "is_undefined i r = rbind (register_info_by_id i) (\<lambda>info.
     Inr (find_if (\<lambda>off. off = reg_offset info div 2) (rg_undefined r) \<noteq> None))"

definition reg_bytes :: "register_info \<Rightarrow> registers \<Rightarrow> nat \<Rightarrow> u8 list" where
  "reg_bytes info r n = bytes_at (reg_offset info) n (rg_data r)"

definition reg_read :: "register_info \<Rightarrow> registers \<Rightarrow> reg_value result" where
  "reg_read info r =
     rbind (is_undefined (reg_id info) r) (\<lambda>u.
     if u then Inl (Send ''Register is undefined'')
     else if reg_fmt info = UintF then
       if reg_size info = 1 then Inr (VU8 (from_bytes (reg_bytes info r 1)))
       else if reg_size info = 2 then Inr (VU16 (from_bytes (reg_bytes info r 2)))
       else if reg_size info = 4 then Inr (VU32 (from_bytes (reg_bytes info r 4)))
       else if reg_size info = 8 then Inr (VU64 (from_bytes (reg_bytes info r 8)))
       else Inl (Send ''Unexpected register size'')
     else if reg_fmt info = DoubleFloat then Inr (VDouble (from_bytes (reg_bytes info r 8)))
     else if reg_fmt info = LongDouble then Inr (VLongDouble (reg_bytes info r 16))
     else if reg_fmt info = Vector \<and> reg_size info = 8 then Inr (VByte64 (reg_bytes info r 8))
     else Inr (VByte128 (reg_bytes info r 16)))"

text \<open>What a write asks of the traced process; the thread is an optional argument.\<close>

datatype user_req =
    PokeUser nat u64 "int option"
  | SetFpRegs "u8 list" "int option"
  | SetRegs "u8 list" "int option"

definition aligned_offset :: "register_info \<Rightarrow> nat" where
  "aligned_offset info = reg_offset info - reg_offset info mod 8"

definition write_request :: "register_info \<Rightarrow> u8 list \<Rightarrow> int option \<Rightarrow> user_req" where
  "write_request info data tid =
     (if reg_type info = Fpr then SetFpRegs (bytes_at i387_offset sizeof_fpregs data) tid
      else PokeUser (aligned_offset info) (from_bytes (bytes_at (aligned_offset info) 8 data)) tid)"

text \<open>
  \<open>write\<close> copies the first \<open>sizeof(v)\<close> bytes of the widened value, aborts when the value is
  larger than the register, and sends a request before it looks at \<open>commit\<close>.
\<close>

definition reg_write :: "float_conv \<Rightarrow> register_info \<Rightarrow> reg_value \<Rightarrow> bool \<Rightarrow> registers \<Rightarrow>
    (registers \<times> user_req list) result" where
  "reg_write fc info v commit r =
     (if value_size v \<le> reg_size info then
        let wide = widen fc info v;
            data = copy_at (reg_offset info) (take (value_size v) wide) (rg_data r)
        in Inr (r\<lparr>rg_data := data\<rparr>, write_request info data None
             # (if commit then [write_request info data (Some (rg_tid r))] else []))
      else Inl Terminate)"

definition get_u64 :: "reg_value \<Rightarrow> u64 result" where
  "get_u64 v = (case v of VU64 w \<Rightarrow> Inr w | _ \<Rightarrow> Inl BadVariantAccess)"

definition read_by_id_as_u64 :: "register_id \<Rightarrow> registers \<Rightarrow> u64 result" where
  "read_by_id_as_u64 i r = rbind (register_info_by_id i) (\<lambda>info. rbind (reg_read info r) get_u64)"

definition write_by_id :: "float_conv \<Rightarrow> register_id \<Rightarrow> reg_value \<Rightarrow> bool \<Rightarrow> registers \<Rightarrow> (registers \<times> user_req list) result" where
  "write_by_id fc i v commit r = rbind (register_info_by_id i) (\<lambda>info. reg_write fc info v commit r)"

definition flush :: "registers \<Rightarrow> user_req list result" where
  "flush r = rbind (register_info_by_id rid_dr0) (\<lambda>info.
     Inr (SetFpRegs (bytes_at i387_offset sizeof_fpregs (rg_data r)) (Some (rg_tid r))
       # SetRegs (bytes_at 0 sizeof_regs (rg_data r)) (Some (rg_tid r))
       # map (\<lambda>i. PokeUser (reg_offset info + 8 * i)
              (from_bytes (bytes_at (debugreg_offset + 8 * i) 8 (rg_data r))) (Some (rg_tid r)))
           [0, 1, 2, 3, 6, 7]))"

subsection \<open>What a write leaves behind\<close>

definition regs_inv :: "registers \<Rightarrow> bool" where
  "regs_inv r \<longleftrightarrow> length (rg_data r) = sizeof_user"

lemma as_bytes_scast_prefix:
  assumes "LENGTH('a) \<le> LENGTH('b)" and "8 dvd LENGTH('a)" and "8 dvd LENGTH('b)"
  shows "take (LENGTH('a) div 8) (as_bytes (scast (t :: 'a::len word) :: 'b::len word)) = as_bytes t"
proof (rule nth_equalityI)
  show "length (take (LENGTH('a) div 8) (as_bytes (scast t :: 'b word))) = length (as_bytes t)"
    using div_le_mono [OF assms(1), of 8] by simp
next
  fix i assume "i < length (take (LENGTH('a) div 8) (as_bytes (scast t :: 'b word)))"
  then have i: "i < LENGTH('a) div 8" "i < LENGTH('b) div 8" by simp_all
  have bound: "8 * i + 8 \<le> LENGTH('a)" using i(1) assms(2) by (auto elim!: dvdE)
  have "ucast (drop_bit (8 * i) (scast t :: 'b word)) = (ucast (drop_bit (8 * i) t) :: u8)"
  proof (rule bit_word_eqI)
    fix n assume "n < LENGTH(8)"
    then show "bit (ucast (drop_bit (8 * i) (scast t :: 'b word)) :: u8) n = bit (ucast (drop_bit (8 * i) t) :: u8) n"
      using bound assms(1) by (auto simp: bit_simps)
  qed
  then show "take (LENGTH('a) div 8) (as_bytes (scast t :: 'b word)) ! i = as_bytes t ! i"
    using i by (simp add: nth_as_bytes)
qed

text \<open>The bytes that end up in the register are the bytes of the value: widening has no effect on integers.\<close>

lemma take_widen_integer:
  assumes "is_integer v" and "value_ok v" and "value_size v \<le> reg_size info"
  shows "take (value_size v) (widen fc info v) = value_bytes v"
proof -
  have ext: "n \<le> length xs \<Longrightarrow> take n (to_byte128 xs) = take n xs" for n and xs :: "u8 list"
    by (simp add: to_byte128_def to_byte_array_def)
  have pre: "take (length xs) (to_byte128 xs) = xs" for xs :: "u8 list"
    by (simp add: to_byte128_def)
  show ?thesis
    using assms as_bytes_scast_prefix [where 'a = 8 and 'b = 16] as_bytes_scast_prefix [where 'a = 8 and 'b = 32]
      as_bytes_scast_prefix [where 'a = 8 and 'b = 64] as_bytes_scast_prefix [where 'a = 16 and 'b = 16]
      as_bytes_scast_prefix [where 'a = 16 and 'b = 32] as_bytes_scast_prefix [where 'a = 16 and 'b = 64]
      as_bytes_scast_prefix [where 'a = 32 and 'b = 32] as_bytes_scast_prefix [where 'a = 32 and 'b = 64]
      as_bytes_scast_prefix [where 'a = 64 and 'b = 64]
    by (cases v) (auto simp: value_ok_def widen_signed_def ext)
qed

lemma reg_write_data:
  assumes "reg_write fc info v commit r = Inr (r', reqs)" and "is_integer v" and "value_ok v"
  shows "rg_data r' = copy_at (reg_offset info) (value_bytes v) (rg_data r)"
    and "rg_undefined r' = rg_undefined r" and "rg_tid r' = rg_tid r" and "rg_cfa r' = rg_cfa r"
    and "value_size v \<le> reg_size info"
  using assms take_widen_integer [OF assms(2,3), of info fc]
  by (auto simp: reg_write_def Let_def split: if_splits)

lemma info_ok_bound: "info_ok info \<Longrightarrow> reg_offset info + reg_size info \<le> 912"
  by (simp add: info_ok_def sizeof_user_def)

lemma info_ok_formats:
  assumes "info_ok info"
  obtains "reg_fmt info = UintF" | "reg_fmt info = LongDouble" and "reg_size info = 16"
    | "reg_fmt info = Vector" and "reg_size info = 8" | "reg_fmt info = Vector" and "reg_size info = 16"
  using assms by (cases "reg_fmt info") (auto simp: info_ok_def)

lemma reg_write_inv:
  assumes "reg_write fc info v commit r = Inr (r', reqs)" and "is_integer v" and "value_ok v"
    and "regs_inv r" and "info_ok info"
  shows "regs_inv r'"
  using reg_write_data(1,5) [OF assms(1-3)] assms(3,4) info_ok_bound [OF assms(5)]
  by (simp add: regs_inv_def value_ok_def sizeof_user_def)

fun is_unsigned :: "reg_value \<Rightarrow> bool" where
  "is_unsigned (VU8 _) = True" | "is_unsigned (VU16 _) = True" | "is_unsigned (VU32 _) = True"
| "is_unsigned (VU64 _) = True" | "is_unsigned _ = False"

lemma unsigned_value: "is_unsigned v \<Longrightarrow> is_integer v \<and> value_ok v"
  by (cases v) (simp_all add: value_ok_def)

definition disjoint_regs :: "register_info \<Rightarrow> register_info \<Rightarrow> bool" where
  "disjoint_regs a b \<longleftrightarrow> reg_offset a + reg_size a \<le> reg_offset b \<or> reg_offset b + reg_size b \<le> reg_offset a"

lemma reg_read_cong:
  assumes "rg_undefined r' = rg_undefined r" and "reg_bytes info r' (reg_size info) = reg_bytes info r (reg_size info)"
    and "info_ok info"
  shows "reg_read info r' = reg_read info r"
proof -
  have u: "is_undefined (reg_id info) r' = is_undefined (reg_id info) r"
    using assms(1) by (simp add: is_undefined_def)
  from assms(3) show ?thesis
    by (cases rule: info_ok_formats) (use assms(2) in \<open>auto simp: reg_read_def u intro!: rbind_cong [OF refl]\<close>)
qed

lemma reg_write_read:
  assumes "reg_write fc info v commit r = Inr (r', reqs)" and "is_unsigned v" and "value_size v = reg_size info"
    and "reg_fmt info = UintF" and "is_undefined (reg_id info) r = Inr False" and "info_ok info" and "regs_inv r"
  shows "reg_read info r' = Inr v"
proof -
  have ok: "is_integer v" "value_ok v" using unsigned_value [OF assms(2)] by auto
  have len: "length (value_bytes v) = reg_size info" using ok(2) assms(3) by (simp add: value_ok_def)
  have "reg_bytes info r' (reg_size info) = value_bytes v"
    using bytes_at_copy_at [of "reg_offset info" "value_bytes v" "rg_data r"] info_ok_bound [OF assms(6)] assms(7) len
    by (simp add: reg_bytes_def reg_write_data(1) [OF assms(1) ok] regs_inv_def sizeof_user_def)
  moreover have "is_undefined (reg_id info) r' = Inr False"
    using assms(5) reg_write_data(2) [OF assms(1) ok] by (simp add: is_undefined_def)
  ultimately show ?thesis using assms(2-4) by (cases v) (auto simp: reg_read_def)
qed

lemma reg_write_frame:
  assumes "reg_write fc info v commit r = Inr (r', reqs)" and "is_integer v" and "value_ok v"
    and "disjoint_regs info other" and "info_ok info" and "info_ok other" and "regs_inv r"
  shows "reg_read other r' = reg_read other r"
proof (rule reg_read_cong)
  note w = reg_write_data [OF assms(1-3)]
  show "rg_undefined r' = rg_undefined r" by (rule w(2))
  show "reg_bytes other r' (reg_size other) = reg_bytes other r (reg_size other)"
    unfolding reg_bytes_def w(1) using assms(3-7) w(5)
    using info_ok_bound [OF assms(5)] info_ok_bound [OF assms(6)]
    by (intro bytes_at_copy_at_disjoint) (auto simp: regs_inv_def sizeof_user_def value_ok_def disjoint_regs_def)
qed (rule assms(6))

lemma bytes_at_copy_at_prefix:
  assumes "off + n \<le> length dst" and "length src \<le> n"
  shows "bytes_at off n (copy_at off src dst) = src @ bytes_at (off + length src) (n - length src) dst"
  using assms by (intro nth_equalityI) (auto simp: nth_copy_at nth_append)

subsection \<open>Properties\<close>

text \<open>
  C20: after an unsigned value has been written to a register of its size, reading the register
  returns the value, and every register of the table that shares no byte with it reads as
  before.
\<close>

theorem register_write_then_read:
  assumes "info \<in> set g_register_infos" and "reg_fmt info = UintF" and "is_unsigned v" and "value_size v = reg_size info"
    and "is_undefined (reg_id info) r = Inr False" and "regs_inv r"
  shows "\<exists>r' reqs. reg_write fc info v commit r = Inr (r', reqs) \<and> reg_read info r' = Inr v
     \<and> (\<forall>other\<in>set g_register_infos. disjoint_regs info other \<longrightarrow> reg_read other r' = reg_read other r)"
proof -
  have oks: "info_ok info" "\<forall>other\<in>set g_register_infos. info_ok other" using all_infos_ok assms(1) by auto
  obtain r' reqs where w: "reg_write fc info v commit r = Inr (r', reqs)"
    using assms(4) by (simp add: reg_write_def Let_def)
  then show ?thesis
    using reg_write_read [OF w assms(3,4,2,5) oks(1) assms(6)] reg_write_frame [OF w _ _ _ oks(1) _ assms(6)]
      unsigned_value [OF assms(3)] oks(2) by auto
qed

definition zero_registers :: registers where
  "zero_registers = \<lparr>rg_data = replicate sizeof_user 0, rg_undefined = [], rg_cfa = virt_addr_default, rg_tid = 100\<rparr>"

lemma zero_registers_inv: "regs_inv zero_registers"
  by (simp add: regs_inv_def zero_registers_def)

lemma from_zero_bytes: "(from_bytes (replicate 8 0) :: u64) = 0"
  by simp

lemma zero_registers_read:
  assumes "i < 25"
  shows "is_undefined i zero_registers = Inr False" and "reg_read (g_register_infos ! i) zero_registers = Inr (VU64 0)"
proof -
  show u: "is_undefined i zero_registers = Inr False"
    using assms by (simp add: is_undefined_def zero_registers_def register_info_by_id_nth find_if_None)
  have "bytes_at (reg_offset (g_register_infos ! i)) 8 (replicate 912 0) = replicate 8 (0 :: u8)"
  proof -
    have "8 \<le> 912 - reg_offset (g_register_infos ! i)" using gpr_place [OF assms] by (simp add: i387_offset_def) linarith
    then show ?thesis by (simp add: bytes_at_def min_def)
  qed
  then show "reg_read (g_register_infos ! i) zero_registers = Inr (VU64 0)"
    using assms u from_zero_bytes gpr_place [OF assms] reg_id_nth [of i]
    by (simp add: reg_read_def reg_bytes_def) (simp add: zero_registers_def sizeof_user_def)
qed

lemma zero_rip_read: "reg_read (g_register_infos ! rid_rip) zero_registers = Inr (VU64 0)"
  using zero_registers_read(2) [of rid_rip] by (simp add: rid_rip_def)

definition no_conv :: float_conv where
  "no_conv = \<lparr>fc_double_of_float = (\<lambda>x. 0), fc_ld_of_float = (\<lambda>x. []), fc_ld_of_double = (\<lambda>x. []), fc_double_of_ld = (\<lambda>x. 0)\<rparr>"

lemma rax_info: "g_register_infos ! rid_rax \<in> set g_register_infos" "reg_fmt (g_register_infos ! rid_rax) = UintF"
    "reg_size (g_register_infos ! rid_rax) = 8" "reg_id (g_register_infos ! rid_rax) = 0"
    "reg_offset (g_register_infos ! rid_rax) = 80"
  using nth_mem [of 0 g_register_infos] length_g_register_infos place_nth [of 0] reg_id_nth [of 0]
  by (simp_all add: rid_rax_def place_of_def register_layout_def)

lemma register_write_then_read_witness:
  "\<exists>r' reqs. reg_write no_conv (g_register_infos ! rid_rax) (VU64 0xdeadbeefcafe) True zero_registers = Inr (r', reqs)
     \<and> reg_read (g_register_infos ! rid_rax) r' = Inr (VU64 0xdeadbeefcafe)
     \<and> (\<forall>other\<in>set g_register_infos. disjoint_regs (g_register_infos ! rid_rax) other \<longrightarrow>
          reg_read other r' = reg_read other zero_registers)"
  using register_write_then_read [OF rax_info(1,2), of "VU64 0xdeadbeefcafe" zero_registers] zero_registers_inv rax_info
  by (simp add: is_undefined_def register_info_by_id_nth zero_registers_def)

text \<open>
  An integer narrower than the register changes only its own bytes: the bytes above keep
  their old contents, so neither zero nor sign extension reaches the register.
\<close>

theorem narrow_write_keeps_upper_bytes:
  assumes "reg_write fc info v commit r = Inr (r', reqs)" and "is_integer v" and "value_ok v"
    and "info_ok info" and "regs_inv r"
  shows "reg_bytes info r' (reg_size info) = value_bytes v
     @ bytes_at (reg_offset info + value_size v) (reg_size info - value_size v) (rg_data r)"
  using reg_write_data(5) [OF assms(1-3)] assms(3,5) info_ok_bound [OF assms(4)]
    bytes_at_copy_at_prefix [of "reg_offset info" "reg_size info" "rg_data r" "value_bytes v"]
  by (simp add: reg_bytes_def reg_write_data(1) [OF assms(1-3)] regs_inv_def sizeof_user_def value_ok_def)

definition ones_registers :: registers where
  "ones_registers = zero_registers\<lparr>rg_data := replicate sizeof_user 0xff\<rparr>"

lemma narrow_write_keeps_upper_bytes_witness:
  "\<exists>r' reqs. reg_write no_conv (g_register_infos ! rid_rax) (VI32 0) True ones_registers = Inr (r', reqs)
     \<and> reg_bytes (g_register_infos ! rid_rax) r' 8 = [0, 0, 0, 0, 0xff, 0xff, 0xff, 0xff]"
proof -
  obtain r' reqs where w: "reg_write no_conv (g_register_infos ! rid_rax) (VI32 0) True ones_registers = Inr (r', reqs)"
    using rax_info(3) by (simp add: reg_write_def Let_def)
  have z: "as_bytes (0 :: u32) = [0, 0, 0, 0]" by code_simp
  have t: "bytes_at 84 4 (replicate 912 0xff) = [0xff, 0xff, 0xff, 0xff :: u8]"
    by (simp add: bytes_at_def drop_replicate take_replicate numeral_eq_Suc min_def)
  have "reg_bytes (g_register_infos ! rid_rax) r' (reg_size (g_register_infos ! rid_rax)) = [0, 0, 0, 0] @ [0xff, 0xff, 0xff, 0xff]"
    using narrow_write_keeps_upper_bytes [OF w] all_infos_ok rax_info z t
    by (simp add: value_ok_def regs_inv_def ones_registers_def zero_registers_def sizeof_user_def)
  with w rax_info(3) show ?thesis by auto
qed

text \<open>
  Marking one 64-bit general register undefined makes no other 64-bit general register
  undefined, although the mark is kept by half the offset.
\<close>

theorem undefine_other_registers:
  assumes "i < 25" and "j < 25" and "undefine i r = Inr r'"
  shows "is_undefined j r' = (if i = j then Inr True else is_undefined j r)"
proof -
  have "inj_on (\<lambda>n :: nat. n div 2) (reg_offset ` set (take 25 g_register_infos))"
  proof (rule inj_onI)
    fix m n :: nat
    assume "m \<in> reg_offset ` set (take 25 g_register_infos)" "n \<in> reg_offset ` set (take 25 g_register_infos)" and e: "m div 2 = n div 2"
    then have "8 dvd m" "8 dvd n" using gpr_place length_g_register_infos by (auto simp: in_set_conv_nth)
    then show "m = n" using e by (auto elim!: dvdE)
  qed
  then have d: "distinct (map (\<lambda>x. reg_offset x div 2) (take 25 g_register_infos))"
    using distinct_map [of "\<lambda>n. n div 2" "map reg_offset (take 25 g_register_infos)"] gpr_offsets_distinct by (simp add: comp_def)
  have nth: "map (\<lambda>x. reg_offset x div 2) (take 25 g_register_infos) ! k = reg_offset (g_register_infos ! k) div 2" if "k < 25" for k
    using that length_g_register_infos by simp
  have "reg_offset (g_register_infos ! i) div 2 = reg_offset (g_register_infos ! j) div 2 \<longleftrightarrow> i = j"
    using nth_eq_iff_index_eq [OF d, of i j] assms(1,2) nth length_g_register_infos by simp
  then show ?thesis using assms
    by (auto simp: undefine_def is_undefined_def register_info_by_id_nth find_if_append find_if_None split: option.splits)
qed

lemma undefine_other_registers_witness:
  "\<exists>r'. undefine rid_rsp zero_registers = Inr r' \<and> is_undefined rid_rip r' = Inr False \<and> is_undefined rid_rsp r' = Inr True"
proof -
  obtain r' where "undefine rid_rsp zero_registers = Inr r'"
    by (simp add: undefine_def register_info_by_id_nth rid_rsp_def)
  then show ?thesis
    using undefine_other_registers [of rid_rsp rid_rip zero_registers r'] undefine_other_registers [of rid_rsp rid_rsp zero_registers r']
    by (auto simp: rid_rsp_def rid_rip_def is_undefined_def register_info_by_id_nth zero_registers_def)
qed

end
