(* ===== verification/KD_Stoppoints.thy ===== *)
theory KD_Stoppoints
  imports KD_Types
begin

text \<open>
  \<open>stoppoint_collection\<close> (\<open>include/libkdebugger/stoppoint_collection.hpp\<close>): an ordered
  collection of stop points, searched by number or address. The class is a template; the members
  it calls on a stop point are arguments of the definitions. Each of the classes stored in one
  interprets the locale \<open>stoppoint\<close>, the contract of those members.
\<close>

subsection \<open>The collection\<close>

definition sp_push :: "'s \<Rightarrow> 's list \<Rightarrow> 's list" where
  "sp_push p xs = xs @ [p]"

definition sp_find_by_id :: "('s \<Rightarrow> u32) \<Rightarrow> u32 \<Rightarrow> 's list \<Rightarrow> nat option" where
  "sp_find_by_id pid i xs = find_if (\<lambda>p. pid p = i) xs"

definition sp_find_by_address :: "('s \<Rightarrow> virt_addr \<Rightarrow> bool) \<Rightarrow> virt_addr \<Rightarrow> 's list \<Rightarrow> nat option" where
  "sp_find_by_address at_address a xs = find_if (\<lambda>p. at_address p a) xs"

definition sp_contains_id :: "('s \<Rightarrow> u32) \<Rightarrow> u32 \<Rightarrow> 's list \<Rightarrow> bool" where
  "sp_contains_id pid i xs \<longleftrightarrow> sp_find_by_id pid i xs \<noteq> None"

definition sp_contains_address :: "('s \<Rightarrow> virt_addr \<Rightarrow> bool) \<Rightarrow> virt_addr \<Rightarrow> 's list \<Rightarrow> bool" where
  "sp_contains_address at_address a xs \<longleftrightarrow> sp_find_by_address at_address a xs \<noteq> None"

text \<open>The accessors return a reference, that is the place of the stop point.\<close>

definition sp_get_by_id :: "('s \<Rightarrow> u32) \<Rightarrow> u32 \<Rightarrow> 's list \<Rightarrow> nat result" where
  "sp_get_by_id pid i xs = (case sp_find_by_id pid i xs of
      None \<Rightarrow> Inl (Send ''Invalid stoppoint id'') | Some k \<Rightarrow> Inr k)"

definition sp_get_by_address :: "('s \<Rightarrow> virt_addr \<Rightarrow> bool) \<Rightarrow> virt_addr \<Rightarrow> 's list \<Rightarrow> nat result" where
  "sp_get_by_address at_address a xs = (case sp_find_by_address at_address a xs of
      None \<Rightarrow> Inl (Send ''Stoppoint with a given address not found'') | Some k \<Rightarrow> Inr k)"

definition sp_enabled_at_address :: "('s \<Rightarrow> virt_addr \<Rightarrow> bool) \<Rightarrow> ('s \<Rightarrow> bool) \<Rightarrow> virt_addr \<Rightarrow> 's list \<Rightarrow> bool" where
  "sp_enabled_at_address at_address is_enabled a xs \<longleftrightarrow>
     (case sp_find_by_address at_address a xs of None \<Rightarrow> False | Some k \<Rightarrow> is_enabled (xs ! k))"

text \<open>
  Removing disables the stop point first; it does not look whether the search found one. Removing
  by address names \<open>disable\<close> without its argument list; it is read as the call.
\<close>

definition sp_remove_at :: "('s \<Rightarrow> 'st \<Rightarrow> ('s \<times> 'st) result) \<Rightarrow> nat option \<Rightarrow> 's list \<Rightarrow> 'st \<Rightarrow> ('s list \<times> 'st) result" where
  "sp_remove_at disable found xs st = (case found of
      None \<Rightarrow> Inl (UB ''dereference of the end iterator'')
    | Some k \<Rightarrow> rbind (disable (xs ! k) st) (\<lambda>(_, st'). Inr (erase_at k xs, st')))"

definition sp_remove_by_id :: "('s \<Rightarrow> u32) \<Rightarrow> ('s \<Rightarrow> 'st \<Rightarrow> ('s \<times> 'st) result) \<Rightarrow> u32 \<Rightarrow> 's list \<Rightarrow> 'st \<Rightarrow>
    ('s list \<times> 'st) result" where
  "sp_remove_by_id pid disable i xs st = sp_remove_at disable (sp_find_by_id pid i xs) xs st"

definition sp_remove_by_address :: "('s \<Rightarrow> virt_addr \<Rightarrow> bool) \<Rightarrow> ('s \<Rightarrow> 'st \<Rightarrow> ('s \<times> 'st) result) \<Rightarrow> virt_addr \<Rightarrow> 's list \<Rightarrow> 'st \<Rightarrow>
    ('s list \<times> 'st) result" where
  "sp_remove_by_address at_address disable a xs st = sp_remove_at disable (sp_find_by_address at_address a xs) xs st"

definition sp_for_each :: "('s \<Rightarrow> 'st \<Rightarrow> 'st result) \<Rightarrow> 's list \<Rightarrow> 'st \<Rightarrow> 'st result" where
  "sp_for_each f xs st = foldR f xs st"

definition sp_get_in_region :: "('s \<Rightarrow> virt_addr \<Rightarrow> virt_addr \<Rightarrow> bool) \<Rightarrow> virt_addr \<Rightarrow> virt_addr \<Rightarrow> 's list \<Rightarrow> 's list" where
  "sp_get_in_region in_range low high xs = filter (\<lambda>p. in_range p low high) xs"

lemmas sp_defs = sp_push_def sp_find_by_id_def sp_find_by_address_def sp_contains_id_def sp_contains_address_def
  sp_get_by_id_def sp_get_by_address_def sp_enabled_at_address_def sp_remove_at_def sp_remove_by_id_def sp_remove_by_address_def

subsection \<open>The contract of a stop point\<close>

text \<open>
  A collection is well formed when no two of its stop points have the same address. The classes
  that own one keep it so by asking \<open>contains_address\<close> before they push.
\<close>

locale stoppoint =
  fixes pid :: "'s \<Rightarrow> u32" and address :: "'s \<Rightarrow> virt_addr" and at_address :: "'s \<Rightarrow> virt_addr \<Rightarrow> bool"
    and in_range :: "'s \<Rightarrow> virt_addr \<Rightarrow> virt_addr \<Rightarrow> bool"
  assumes at_address_iff: "at_address p a \<longleftrightarrow> address p = a"
    and in_range_iff: "in_range p low high \<longleftrightarrow> low \<le> address p \<and> address p < high"
begin

lemma contains_iff: "sp_contains_address at_address a xs \<longleftrightarrow> a \<in> address ` set xs"
  by (auto simp: sp_defs find_if_None at_address_iff)

lemma find_nth:
  assumes "distinct (map address xs)" and "k < length xs"
  shows "sp_find_by_address at_address (address (xs ! k)) xs = Some k"
proof -
  have "address (xs ! j) \<noteq> address (xs ! k)" if "j < k" for j
    using nth_eq_iff_index_eq [OF assms(1), of j k] assms(2) that by simp
  then show ?thesis using assms(2)
    unfolding sp_find_by_address_def by (intro find_if_SomeI) (auto simp: at_address_iff)
qed

lemma get_by_address_cases:
  "(case sp_get_by_address at_address a xs of
      Inr k \<Rightarrow> k < length xs \<and> address (xs ! k) = a \<and> (\<forall>j<k. address (xs ! j) \<noteq> a)
    | Inl e \<Rightarrow> e = Send ''Stoppoint with a given address not found'' \<and> a \<notin> address ` set xs)"
  by (auto simp: sp_get_by_address_def sp_find_by_address_def find_if_None at_address_iff split: option.splits
      dest!: find_if_SomeD)

lemma push_distinct:
  "distinct (map address xs) \<Longrightarrow> \<not> sp_contains_address at_address (address p) xs \<Longrightarrow> distinct (map address (sp_push p xs))"
  by (auto simp: contains_iff sp_push_def)

lemma push_find:
  "\<not> sp_contains_address at_address (address p) xs \<Longrightarrow> sp_get_by_address at_address (address p) (sp_push p xs) = Inr (length xs)"
  by (auto simp: sp_defs find_if_append at_address_iff split: option.splits)

lemma enabled_iff:
  assumes "distinct (map address xs)"
  shows "sp_enabled_at_address at_address en a xs \<longleftrightarrow> (\<exists>p\<in>set xs. address p = a \<and> en p)"
proof
  assume "sp_enabled_at_address at_address en a xs"
  then show "\<exists>p\<in>set xs. address p = a \<and> en p"
    by (auto simp: sp_enabled_at_address_def sp_find_by_address_def at_address_iff split: option.splits dest!: find_if_SomeD
        intro!: bexI [where x = "xs ! _"])
next
  assume "\<exists>p\<in>set xs. address p = a \<and> en p"
  then obtain k where "k < length xs" "address (xs ! k) = a" "en (xs ! k)" by (metis in_set_conv_nth)
  then show "sp_enabled_at_address at_address en a xs"
    using find_nth [OF assms] by (auto simp: sp_enabled_at_address_def)
qed

lemma remove_by_address_removes:
  assumes "sp_remove_by_address at_address disable a xs st = Inr (ys, st')" and "distinct (map address xs)"
  shows "address ` set ys = address ` set xs - {a} \<and> a \<in> address ` set xs \<and> distinct (map address ys)"
proof -
  obtain k where k: "sp_find_by_address at_address a xs = Some k" "ys = erase_at k xs"
    using assms(1) by (auto simp: sp_remove_by_address_def sp_remove_at_def rbind_eq_Inr split: option.splits)
  then have "k < length xs" "address (xs ! k) = a"
    by (auto simp: sp_find_by_address_def at_address_iff dest: find_if_SomeD)
  then have l: "k < length (map address xs)" "map address xs ! k = a" by simp_all
  have ys: "map address ys = erase_at k (map address xs)" using k(2) by (simp add: erase_at_subseq_map)
  have "set (map address ys) = set (map address xs) - {a}" "a \<in> set (map address xs)"
    using set_erase_at_distinct [OF assms(2) l(1)] l nth_mem [OF l(1)] unfolding ys by simp_all
  moreover have "distinct (map address ys)" using distinct_erase_at [OF assms(2)] unfolding ys .
  ultimately show ?thesis by simp
qed

lemma remove_missing: "a \<notin> address ` set xs \<Longrightarrow>
    sp_remove_by_address at_address disable a xs st = Inl (UB ''dereference of the end iterator'')"
  using contains_iff [of a xs] by (auto simp: sp_remove_by_address_def sp_contains_address_def sp_remove_at_def)

text \<open>The collection as a map from addresses.\<close>

lemma map_of_address:
  "distinct (map address xs) \<Longrightarrow> map_of (map (\<lambda>p. (address p, p)) xs) a = Some p \<longleftrightarrow> p \<in> set xs \<and> address p = a"
  by (subst map_of_eq_Some_iff) (auto simp: comp_def)

lemma map_of_address_None: "map_of (map (\<lambda>p. (address p, p)) xs) a = None \<longleftrightarrow> a \<notin> address ` set xs"
  by (auto simp: map_of_eq_None_iff image_image)

lemma get_by_address_map:
  assumes "distinct (map address xs)"
  shows "sp_get_by_address at_address a xs = (case map_of (map (\<lambda>p. (address p, p)) xs) a of
      None \<Rightarrow> Inl (Send ''Stoppoint with a given address not found'') | Some p \<Rightarrow> sp_get_by_address at_address a xs)
    \<and> (\<forall>k. sp_get_by_address at_address a xs = Inr k \<longrightarrow> map_of (map (\<lambda>p. (address p, p)) xs) a = Some (xs ! k))"
proof -
  have "map_of (map (\<lambda>p. (address p, p)) xs) a = Some (xs ! k)" if "sp_get_by_address at_address a xs = Inr k" for k
    using get_by_address_cases [of a xs] that map_of_address [OF assms] by simp
  moreover have "sp_get_by_address at_address a xs = Inl (Send ''Stoppoint with a given address not found'')"
    if "map_of (map (\<lambda>p. (address p, p)) xs) a = None"
    using get_by_address_cases [of a xs] that map_of_address_None [of xs a] by (cases "sp_get_by_address at_address a xs") auto
  ultimately show ?thesis by (auto split: option.split)
qed

lemma remove_map:
  assumes "sp_remove_by_address at_address disable a xs st = Inr (ys, st')" and "distinct (map address xs)"
  shows "map_of (map (\<lambda>p. (address p, p)) ys) = (map_of (map (\<lambda>p. (address p, p)) xs))(a := None)"
proof -
  obtain k where k: "sp_find_by_address at_address a xs = Some k" "ys = erase_at k xs"
    using assms(1) by (auto simp: sp_remove_by_address_def sp_remove_at_def rbind_eq_Inr split: option.splits)
  have sub: "set ys \<subseteq> set xs" by (auto simp: k(2) erase_at_def dest: in_set_takeD in_set_dropD)
  note r = remove_by_address_removes [OF assms]
  have "map_of (map (\<lambda>p. (address p, p)) ys) b = ((map_of (map (\<lambda>p. (address p, p)) xs))(a := None)) b" for b
  proof (cases "b \<in> address ` set ys")
    case True
    then obtain p where p: "p \<in> set ys" "address p = b" by blast
    then have "map_of (map (\<lambda>p. (address p, p)) ys) b = Some p" "map_of (map (\<lambda>p. (address p, p)) xs) b = Some p" "b \<noteq> a"
      using map_of_address [of ys b p] map_of_address [of xs b p] sub r assms(2) by auto
    then show ?thesis by simp
  next
    case False
    then have "b = a \<or> b \<notin> address ` set xs" using r by auto
    then show ?thesis using False map_of_address_None [of ys b] map_of_address_None [of xs b] by auto
  qed
  then show ?thesis by blast
qed

lemma get_in_region_iff:
  "p \<in> set (sp_get_in_region in_range low high xs) \<longleftrightarrow> p \<in> set xs \<and> low \<le> address p \<and> address p < high"
  by (simp add: sp_get_in_region_def in_range_iff)

end

end
