(* ===== verification/KD_Inferior.thy ===== *)
theory KD_Inferior
  imports KD_Registers KD_Stoppoints
begin

text \<open>
  The state of the traced process (\<open>include/libkdebugger/process.hpp\<close>,
  \<open>breakpoint_site.hpp\<close>, \<open>watchpoint.hpp\<close>), why it stops, and the access to its registers
  (\<open>src/process.cpp\<close>). The kernel is not part of the repository: its operations are the
  fields of \<open>os\<close>, over a kernel state of any type.
\<close>

unbundle bit_operations_syntax

subsection \<open>Why a process stops\<close>

datatype process_state = Stopped | Running | Exited | Terminated

datatype stoppoint_mode = WriteMode | ReadWrite | Execute

datatype trap_type = SingleStep | SoftwareBreak | HardwareBreak | SyscallTrap | CloneTrap | UnknownTrap

text \<open>The two alternatives of the union in \<open>syscall_information\<close>: arguments at entry, the result at exit.\<close>

datatype syscall_information = SyscallEntry u16 "u64 list" | SyscallExit u16 u64

fun sys_id :: "syscall_information \<Rightarrow> u16" where
  "sys_id (SyscallEntry i _) = i" | "sys_id (SyscallExit i _) = i"

record stop_reason =
  sr_info :: u8
  sr_reason :: process_state
  sr_trap :: "trap_type option"
  sr_syscall :: "syscall_information option"
  sr_tid :: int

definition SIGTRAP :: u8 where "SIGTRAP = 5"
definition SIGSTOP :: u8 where "SIGSTOP = 19"
definition SIGCONT :: u8 where "SIGCONT = 18"
definition SIGKILL :: u8 where "SIGKILL = 9"

lemmas signal_defs = SIGTRAP_def SIGSTOP_def SIGCONT_def SIGKILL_def

definition is_step :: "stop_reason \<Rightarrow> bool" where
  "is_step r \<longleftrightarrow> sr_reason r = Stopped \<and> sr_info r = SIGTRAP \<and> sr_trap r = Some SingleStep"

definition is_breakpoint :: "stop_reason \<Rightarrow> bool" where
  "is_breakpoint r \<longleftrightarrow> sr_reason r = Stopped \<and> sr_info r = SIGTRAP
     \<and> (sr_trap r = Some SoftwareBreak \<or> sr_trap r = Some HardwareBreak)"

text \<open>The constructor from a wait status; it leaves \<open>reason\<close> unset on a status no test recognises.\<close>

definition wifexited :: "u32 \<Rightarrow> bool" where "wifexited s \<longleftrightarrow> s AND 0x7f = 0"
definition wifstopped :: "u32 \<Rightarrow> bool" where "wifstopped s \<longleftrightarrow> s AND 0xff = 0x7f"
definition wifsignaled :: "u32 \<Rightarrow> bool" where "wifsignaled s \<longleftrightarrow> s AND 0x7f \<noteq> 0 \<and> s AND 0x7f \<noteq> 0x7f"

definition stop_reason_of :: "int \<Rightarrow> u32 \<Rightarrow> stop_reason result" where
  "stop_reason_of tid status =
     (let trap = (if drop_bit 8 status = 0x305 then Some CloneTrap else None);
          mk = (\<lambda>reason info. Inr \<lparr>sr_info = info, sr_reason = reason, sr_trap = trap, sr_syscall = None, sr_tid = tid\<rparr>)
      in if wifexited status then mk Exited (ucast (drop_bit 8 status))
         else if wifsignaled status then mk Terminated (ucast (status AND 0x7f))
         else if wifstopped status then mk Stopped (ucast (drop_bit 8 status))
         else Inl (UB ''indeterminate stop reason''))"

datatype catch_mode = CatchNone | CatchSome | CatchAll

record syscall_catch_policy =
  cp_mode :: catch_mode
  cp_to_catch :: "int list"

definition catch_all :: syscall_catch_policy where "catch_all = \<lparr>cp_mode = CatchAll, cp_to_catch = []\<rparr>"
definition catch_none :: syscall_catch_policy where "catch_none = \<lparr>cp_mode = CatchNone, cp_to_catch = []\<rparr>"
definition catch_some :: "int list \<Rightarrow> syscall_catch_policy" where "catch_some xs = \<lparr>cp_mode = CatchSome, cp_to_catch = xs\<rparr>"

subsection \<open>Stop points\<close>

text \<open>\<open>m_Parent\<close> points to the breakpoint a site belongs to, if any: \<open>bs_parent\<close> is the number of that object.\<close>

record breakpoint_site =
  bs_parent :: "int option"
  bs_id :: u32
  bs_address :: virt_addr
  bs_index :: int
  bs_enabled :: bool
  bs_hardware :: bool
  bs_internal :: bool
  bs_saved :: u8

definition bs_at_address :: "breakpoint_site \<Rightarrow> virt_addr \<Rightarrow> bool" where
  "bs_at_address b a \<longleftrightarrow> bs_address b = a"

definition bs_in_range :: "breakpoint_site \<Rightarrow> virt_addr \<Rightarrow> virt_addr \<Rightarrow> bool" where
  "bs_in_range b low high \<longleftrightarrow> low \<le> bs_address b \<and> high > bs_address b"

text \<open>The constructor takes a number but does not store it: the member keeps whatever value its memory has.\<close>

definition mk_breakpoint_site :: "u32 \<Rightarrow> int option \<Rightarrow> u32 \<Rightarrow> virt_addr \<Rightarrow> bool \<Rightarrow> bool \<Rightarrow> breakpoint_site" where
  "mk_breakpoint_site junk parent i a hw internal =
     \<lparr>bs_parent = parent, bs_id = junk, bs_address = a, bs_index = - 1, bs_enabled = False, bs_hardware = hw,
      bs_internal = internal, bs_saved = 0\<rparr>"

record watchpoint =
  wp_id :: u32
  wp_address :: virt_addr
  wp_mode :: stoppoint_mode
  wp_size :: u64
  wp_enabled :: bool
  wp_index :: int
  wp_data :: u64
  wp_previous :: u64

definition wp_at_address :: "watchpoint \<Rightarrow> virt_addr \<Rightarrow> bool" where
  "wp_at_address w a \<longleftrightarrow> wp_address w = a"

definition wp_in_range :: "watchpoint \<Rightarrow> virt_addr \<Rightarrow> virt_addr \<Rightarrow> bool" where
  "wp_in_range w low high \<longleftrightarrow> low \<le> wp_address w \<and> high > wp_address w"

interpretation site: stoppoint bs_id bs_address bs_at_address bs_in_range
  by unfold_locales (auto simp: bs_at_address_def bs_in_range_def)

interpretation watch: stoppoint wp_id wp_address wp_at_address wp_in_range
  by unfold_locales (auto simp: wp_at_address_def wp_in_range_def)

subsection \<open>The sites as a map\<close>

text \<open>
  The abstract collection of sites: at most one for an address.
\<close>

definition sites_map :: "breakpoint_site list \<Rightarrow> virt_addr \<rightharpoonup> breakpoint_site" where
  "sites_map bs = map_of (map (\<lambda>b. (bs_address b, b)) bs)"

text \<open>
  C16: a collection of sites in which no address occurs twice behaves like a map from addresses to
  sites. Looking up, the tests for a site and for one that is enabled, adding after the test for an
  address, removing, and the sites in a range are those of the map; removing what is not there has
  no defined result.
\<close>

theorem sites_refine_map:
  assumes "distinct (map bs_address bs)"
  shows "(case sites_map bs a of
        None \<Rightarrow> sp_get_by_address bs_at_address a bs = Inl (Send ''Stoppoint with a given address not found'')
          \<and> \<not> sp_contains_address bs_at_address a bs \<and> \<not> sp_enabled_at_address bs_at_address bs_enabled a bs
          \<and> sp_remove_by_address bs_at_address (site_off :: breakpoint_site \<Rightarrow> 's \<Rightarrow> (breakpoint_site \<times> 's) result) a bs st = Inl (UB ''dereference of the end iterator'')
          \<and> (bs_address b = a \<longrightarrow> sites_map (sp_push b bs) = (sites_map bs)(a \<mapsto> b) \<and> distinct (map bs_address (sp_push b bs)))
      | Some p \<Rightarrow> (\<exists>k. sp_get_by_address bs_at_address a bs = Inr k \<and> bs ! k = p)
          \<and> sp_contains_address bs_at_address a bs \<and> (sp_enabled_at_address bs_at_address bs_enabled a bs \<longleftrightarrow> bs_enabled p)
          \<and> (\<forall>bs' st'. sp_remove_by_address bs_at_address site_off a bs st = Inr (bs', st') \<longrightarrow>
               (\<exists>p'. site_off p st = Inr (p', st')) \<and> sites_map bs' = (sites_map bs)(a := None) \<and> distinct (map bs_address bs')))
    \<and> set (sp_get_in_region bs_in_range low high bs) = ran (sites_map bs |` {low..<high})" (is "?cases \<and> ?region")
proof
  note at = site.map_of_address [OF assms, folded sites_map_def]
  note none = site.map_of_address_None [of bs, folded sites_map_def]
  note get = site.get_by_address_map [OF assms, of a, folded sites_map_def]
  show ?cases
  proof (cases "sites_map bs a")
    case None
    then have a: "a \<notin> bs_address ` set bs" using none by blast
    have "sites_map (sp_push b bs) = (sites_map bs)(a \<mapsto> b)" if "bs_address b = a"
      using None that by (auto simp: sites_map_def sp_push_def map_add_def split: option.split)
    with a None get show ?thesis
      using site.contains_iff [of a bs] site.enabled_iff [OF assms] site.remove_missing [OF a] assms
      by (auto simp: sp_push_def)
  next
    case (Some p)
    then have p: "p \<in> set bs" "bs_address p = a" using at by auto
    obtain k where k: "sp_find_by_address bs_at_address a bs = Some k" "sp_get_by_address bs_at_address a bs = Inr k" "bs ! k = p"
      using p get Some site.contains_iff [of a bs] by (auto simp: sp_contains_address_def sp_get_by_address_def)
    have "sp_enabled_at_address bs_at_address bs_enabled a bs \<longleftrightarrow> bs_enabled p" using k by (simp add: sp_enabled_at_address_def)
    moreover have "(\<exists>p'. site_off p st = Inr (p', st')) \<and> sites_map bs' = (sites_map bs)(a := None) \<and> distinct (map bs_address bs')"
      if "sp_remove_by_address bs_at_address site_off a bs st = Inr (bs', st')" for bs' st'
      using that k site.remove_map [OF that assms] site.remove_by_address_removes [OF that assms]
      by (auto simp: sites_map_def sp_remove_by_address_def sp_remove_at_def rbind_eq_Inr)
    moreover have "sp_contains_address bs_at_address a bs" using k(1) by (simp add: sp_contains_address_def)
    ultimately show ?thesis using Some k by auto
  qed
  show ?region
    using at site.get_in_region_iff [of _ low high bs] by (auto simp: ran_def restrict_map_def)
qed

lemma sites_refine_map_witness:
  "\<exists>k. sp_get_by_address bs_at_address (VirtAddr 0x20) [mk_breakpoint_site 0 None 1 (VirtAddr 0x10) False False, mk_breakpoint_site 0 None 2 (VirtAddr 0x20) False False] = Inr k
     \<and> k = 1"
proof -
  let ?b1 = "mk_breakpoint_site 0 None 1 (VirtAddr 0x10) False False" and ?b2 = "mk_breakpoint_site 0 None 2 (VirtAddr 0x20) False False"
  have d: "distinct (map bs_address [?b1, ?b2])" by (simp add: mk_breakpoint_site_def)
  have m: "sites_map [?b1, ?b2] (VirtAddr 0x20) = Some ?b2" by (simp add: sites_map_def mk_breakpoint_site_def)
  from sites_refine_map [OF d, of "VirtAddr 0x20" "\<lambda>b s. Inr (b, s)" "()" ?b1 "VirtAddr 0" "VirtAddr 0"] m
  obtain k where "sp_get_by_address bs_at_address (VirtAddr 0x20) [?b1, ?b2] = Inr k" "[?b1, ?b2] ! k = ?b2" by auto
  moreover from this have "k = 1"
    using site.get_by_address_cases [of "VirtAddr 0x20" "[?b1, ?b2]"] by (cases k) (auto simp: mk_breakpoint_site_def)
  ultimately show ?thesis by blast
qed

subsection \<open>The kernel and the process\<close>

text \<open>
  The requests the code makes of the kernel. A request that fails is \<open>None\<close>. \<open>os_readv\<close>
  returns the bytes read from a list of ranges; \<open>os_fresh_user\<close> are the bytes of a
  \<open>struct user\<close> nothing has been stored in yet.
\<close>

record 'k os =
  os_fc :: float_conv
  os_fresh_user :: "u8 list"
  os_peekdata :: "int \<Rightarrow> u64 \<Rightarrow> 'k \<Rightarrow> u64 option"
  os_pokedata :: "int \<Rightarrow> u64 \<Rightarrow> u64 \<Rightarrow> 'k \<Rightarrow> 'k option"
  os_peekuser :: "int \<Rightarrow> nat \<Rightarrow> 'k \<Rightarrow> u64 option"
  os_pokeuser :: "int \<Rightarrow> nat \<Rightarrow> u64 \<Rightarrow> 'k \<Rightarrow> 'k option"
  os_getregs :: "int \<Rightarrow> 'k \<Rightarrow> u8 list option"
  os_setregs :: "int \<Rightarrow> u8 list \<Rightarrow> 'k \<Rightarrow> 'k option"
  os_getfpregs :: "int \<Rightarrow> 'k \<Rightarrow> u8 list option"
  os_setfpregs :: "int \<Rightarrow> u8 list \<Rightarrow> 'k \<Rightarrow> 'k option"
  os_readv :: "int \<Rightarrow> (u64 \<times> nat) list \<Rightarrow> 'k \<Rightarrow> u8 list option"
  os_si_code :: "int \<Rightarrow> 'k \<Rightarrow> int option"
  os_singlestep :: "int \<Rightarrow> 'k \<Rightarrow> 'k option"
  os_cont :: "int \<Rightarrow> 'k \<Rightarrow> 'k option"
  os_syscall :: "int \<Rightarrow> 'k \<Rightarrow> 'k option"
  os_waitpid :: "int \<Rightarrow> 'k \<Rightarrow> (int \<times> u32 \<times> 'k) option"
  os_tgkill :: "int \<Rightarrow> int \<Rightarrow> u8 \<Rightarrow> 'k \<Rightarrow> 'k"
  os_kill :: "int \<Rightarrow> u8 \<Rightarrow> 'k \<Rightarrow> 'k"
  os_attach :: "int \<Rightarrow> 'k \<Rightarrow> 'k option"
  os_detach :: "int \<Rightarrow> 'k \<Rightarrow> 'k"
  os_setoptions :: "int \<Rightarrow> 'k \<Rightarrow> 'k option"
  os_tasks :: "int \<Rightarrow> 'k \<Rightarrow> int list"
  os_auxv :: "int \<Rightarrow> 'k \<Rightarrow> u64 list"

text \<open>\<open>pending_sigstop\<close> is used by the code without being declared in \<open>thread_state\<close>.\<close>

record thread_state =
  th_tid :: int
  th_regs :: registers
  th_reason :: "stop_reason option"
  th_state :: process_state
  th_pending :: bool

text \<open>
  The threads are listed in the order in which the container is walked. \<open>m_Target\<close> points to
  the target the process reports its stops to; what the target owns besides the process has type
  \<open>'t\<close>.
\<close>

record ('k, 't) process =
  pr_pid :: int
  pr_terminate :: bool
  pr_attached :: bool
  pr_state :: process_state
  pr_expecting :: bool
  pr_sites :: "breakpoint_site list"
  pr_watch :: "watchpoint list"
  pr_next_watch :: u32
  pr_policy :: syscall_catch_policy
  pr_target :: "'t option"
  pr_threads :: "(int \<times> thread_state) list"
  pr_current :: int
  pr_os :: 'k

type_synonym ('a, 'k, 't) op = "('k, 't) process \<Rightarrow> ('a \<times> ('k, 't) process) result"

definition mk_registers :: "'k os \<Rightarrow> int \<Rightarrow> registers" where
  "mk_registers os tid = \<lparr>rg_data = os_fresh_user os, rg_undefined = [], rg_cfa = virt_addr_default, rg_tid = tid\<rparr>"

definition mk_thread :: "'k os \<Rightarrow> int \<Rightarrow> thread_state" where
  "mk_thread os tid = \<lparr>th_tid = tid, th_regs = mk_registers os tid, th_reason = None, th_state = Stopped, th_pending = False\<rparr>"

definition thread_at :: "int \<Rightarrow> ('k, 't) process \<Rightarrow> thread_state result" where
  "thread_at tid s = map_at (map_of (pr_threads s)) tid"

definition has_thread :: "int \<Rightarrow> ('k, 't) process \<Rightarrow> bool" where
  "has_thread tid s \<longleftrightarrow> map_of (pr_threads s) tid \<noteq> None"

definition update_thread :: "int \<Rightarrow> (thread_state \<Rightarrow> thread_state) \<Rightarrow> ('k, 't) process \<Rightarrow> ('k, 't) process" where
  "update_thread tid f s = s\<lparr>pr_threads := map (\<lambda>(t, th). (t, if t = tid then f th else th)) (pr_threads s)\<rparr>"

definition add_thread :: "'k os \<Rightarrow> int \<Rightarrow> ('k, 't) process \<Rightarrow> ('k, 't) process" where
  "add_thread os tid s = (if has_thread tid s then s else s\<lparr>pr_threads := pr_threads s @ [(tid, mk_thread os tid)]\<rparr>)"

definition populate_existing_threads :: "'k os \<Rightarrow> ('k, 't) process \<Rightarrow> ('k, 't) process" where
  "populate_existing_threads os s = fold (add_thread os) (os_tasks os (pr_pid s) (pr_os s)) s"

definition mk_process :: "'k os \<Rightarrow> int \<Rightarrow> bool \<Rightarrow> bool \<Rightarrow> 'k \<Rightarrow> ('k, 't) process" where
  "mk_process os pid terminate attached k = populate_existing_threads os
     \<lparr>pr_pid = pid, pr_terminate = terminate, pr_attached = attached, pr_state = Stopped, pr_expecting = False,
      pr_sites = [], pr_watch = [], pr_next_watch = 0, pr_policy = catch_none, pr_target = None, pr_threads = [],
      pr_current = pid, pr_os = k\<rparr>"

definition tid_of :: "int option \<Rightarrow> ('k, 't) process \<Rightarrow> int" where
  "tid_of otid s = (case otid of None \<Rightarrow> pr_current s | Some t \<Rightarrow> t)"

text \<open>A request that changes the kernel, with the message of the error it raises on failure.\<close>

definition request :: "string \<Rightarrow> ('k \<Rightarrow> 'k option) \<Rightarrow> (unit, 'k, 't) op" where
  "request msg f s = (case f (pr_os s) of None \<Rightarrow> Inl (SendErrno msg) | Some k \<Rightarrow> Inr ((), s\<lparr>pr_os := k\<rparr>))"

lemma request_Inr: "request msg f s = Inr (u, s') \<longleftrightarrow> (\<exists>k. f (pr_os s) = Some k \<and> s' = s\<lparr>pr_os := k\<rparr>)"
  by (auto simp: request_def split: option.splits)

subsection \<open>Registers of a thread\<close>

definition get_registers :: "int option \<Rightarrow> ('k, 't) process \<Rightarrow> registers result" where
  "get_registers otid s = rbind (thread_at (tid_of otid s) s) (\<lambda>th. Inr (th_regs th))"

text \<open>All three writers compute the thread and then address the process, \<open>m_Pid\<close>.\<close>

definition write_user_area :: "'k os \<Rightarrow> nat \<Rightarrow> u64 \<Rightarrow> int option \<Rightarrow> (unit, 'k, 't) op" where
  "write_user_area os off v otid s = request ''Could not write to user area'' (os_pokeuser os (pr_pid s) off v) s"

definition write_fprs :: "'k os \<Rightarrow> u8 list \<Rightarrow> int option \<Rightarrow> (unit, 'k, 't) op" where
  "write_fprs os bs otid s = request ''Could not write floating point registers'' (os_setfpregs os (pr_pid s) bs) s"

definition write_gprs :: "'k os \<Rightarrow> u8 list \<Rightarrow> int option \<Rightarrow> (unit, 'k, 't) op" where
  "write_gprs os bs otid s = request ''Could not write geenral purpose registers'' (os_setregs os (pr_pid s) bs) s"

fun send_user_req :: "'k os \<Rightarrow> user_req \<Rightarrow> ('k, 't) process \<Rightarrow> ('k, 't) process result" where
  "send_user_req os (PokeUser off v otid) s = rbind (write_user_area os off v otid s) (\<lambda>(_, s'). Inr s')"
| "send_user_req os (SetFpRegs bs otid) s = rbind (write_fprs os bs otid s) (\<lambda>(_, s'). Inr s')"
| "send_user_req os (SetRegs bs otid) s = rbind (write_gprs os bs otid s) (\<lambda>(_, s'). Inr s')"

definition write_reg :: "'k os \<Rightarrow> int option \<Rightarrow> register_id \<Rightarrow> reg_value \<Rightarrow> (unit, 'k, 't) op" where
  "write_reg os otid i v s =
     rbind (get_registers otid s) (\<lambda>regs.
     rbind (write_by_id (os_fc os) i v True regs) (\<lambda>(regs', reqs).
     let s1 = update_thread (tid_of otid s) (\<lambda>th. th\<lparr>th_regs := regs'\<rparr>) s in
     rbind (foldR (send_user_req os) reqs s1) (\<lambda>s2. Inr ((), s2))))"

definition read_reg :: "int option \<Rightarrow> register_id \<Rightarrow> ('k, 't) process \<Rightarrow> u64 result" where
  "read_reg otid i s = rbind (get_registers otid s) (\<lambda>regs. read_by_id_as_u64 i regs)"

definition get_pc :: "int option \<Rightarrow> ('k, 't) process \<Rightarrow> virt_addr result" where
  "get_pc otid s = rbind (read_reg otid rid_rip s) (\<lambda>v. Inr (VirtAddr v))"

definition set_pc :: "'k os \<Rightarrow> virt_addr \<Rightarrow> int option \<Rightarrow> (unit, 'k, 't) op" where
  "set_pc os a otid s = write_reg os otid rid_rip (VU64 (addr a)) s"

text \<open>
  \<open>read_all_registers\<close> stores both the general and the floating point registers at
  \<open>i387\<close>, then reads the eight debug registers one by one.
\<close>

definition store_user :: "int \<Rightarrow> nat \<Rightarrow> u8 list \<Rightarrow> ('k, 't) process \<Rightarrow> ('k, 't) process" where
  "store_user tid off bs s =
     update_thread tid (\<lambda>th. th\<lparr>th_regs := (th_regs th)\<lparr>rg_data := copy_at off bs (rg_data (th_regs th))\<rparr>\<rparr>) s"

definition read_debug_register :: "'k os \<Rightarrow> int \<Rightarrow> nat \<Rightarrow> ('k, 't) process \<Rightarrow> ('k, 't) process result" where
  "read_debug_register os tid i s =
     rbind (register_info_by_id (rid_dr0 + i)) (\<lambda>info.
     case os_peekuser os tid (reg_offset info) (pr_os s) of
       None \<Rightarrow> Inl (SendErrno ''Could not read debug register'')
     | Some v \<Rightarrow> Inr (store_user tid (debugreg_offset + 8 * i) (as_bytes v) s))"

definition read_all_registers :: "'k os \<Rightarrow> int \<Rightarrow> (unit, 'k, 't) op" where
  "read_all_registers os tid s =
     rbind (thread_at tid s) (\<lambda>_.
     rbind (case os_getregs os tid (pr_os s) of None \<Rightarrow> Inl (SendErrno ''Could not read GPR registers'')
            | Some bs \<Rightarrow> Inr (store_user tid i387_offset bs s)) (\<lambda>s1.
     rbind (case os_getfpregs os tid (pr_os s1) of None \<Rightarrow> Inl (SendErrno ''Could not read FPR registers'')
            | Some bs \<Rightarrow> Inr (store_user tid i387_offset bs s1)) (\<lambda>s2.
     rbind (foldR (read_debug_register os tid) [0..<8] s2) (\<lambda>s3. Inr ((), s3)))))"

subsection \<open>Threads\<close>

lemma map_of_update_thread [simp]:
  "map_of (pr_threads (update_thread tid f s)) t = (if t = tid then map_option f (map_of (pr_threads s) t) else map_of (pr_threads s) t)"
proof -
  have "map_of (map (\<lambda>(t, th). (t, if t = tid then f th else th)) xs) t =
      (if t = tid then map_option f (map_of xs t) else map_of xs t)" for xs
    by (induction xs) auto
  then show ?thesis by (simp add: update_thread_def)
qed

lemma update_thread_fields [simp]:
  "pr_pid (update_thread tid f s) = pr_pid s" "pr_os (update_thread tid f s) = pr_os s"
  "pr_sites (update_thread tid f s) = pr_sites s" "pr_watch (update_thread tid f s) = pr_watch s"
  "pr_current (update_thread tid f s) = pr_current s" "pr_attached (update_thread tid f s) = pr_attached s"
  "pr_policy (update_thread tid f s) = pr_policy s" "pr_state (update_thread tid f s) = pr_state s"
  "map fst (pr_threads (update_thread tid f s)) = map fst (pr_threads s)"
  by (simp_all add: update_thread_def comp_def split_beta)

lemma thread_at_update_thread:
  "thread_at t (update_thread tid f s) = (if t = tid then rbind (thread_at t s) (\<lambda>th. Inr (f th)) else thread_at t s)"
  by (auto simp: thread_at_def map_at_def split: option.splits)

lemma thread_at_os [simp]: "thread_at t (s\<lparr>pr_os := k\<rparr>) = thread_at t s"
  by (simp add: thread_at_def)

lemma request_keeps:
  "request msg f s = Inr (u, s') \<Longrightarrow> pr_threads s' = pr_threads s \<and> pr_sites s' = pr_sites s \<and> pr_watch s' = pr_watch s
     \<and> pr_pid s' = pr_pid s \<and> pr_current s' = pr_current s"
  by (auto simp: request_Inr)

subsection \<open>Properties\<close>

datatype wait_event = ExitEvent u8 | KilledBy u8 | StoppedBy u8 | CloneStop

fun wait_status_of :: "wait_event \<Rightarrow> u32" where
  "wait_status_of (ExitEvent code) = push_bit 8 (ucast code)"
| "wait_status_of (KilledBy sig) = ucast sig"
| "wait_status_of (StoppedBy sig) = push_bit 8 (ucast sig) OR 0x7f"
| "wait_status_of CloneStop = push_bit 8 (0x305) OR 0x7f"

fun event_ok :: "wait_event \<Rightarrow> bool" where
  "event_ok (KilledBy sig) \<longleftrightarrow> 0 < sig \<and> sig < 0x7f" | "event_ok _ \<longleftrightarrow> True"

fun reason_of :: "int \<Rightarrow> wait_event \<Rightarrow> stop_reason" where
  "reason_of tid (ExitEvent code) = \<lparr>sr_info = code, sr_reason = Exited, sr_trap = None, sr_syscall = None, sr_tid = tid\<rparr>"
| "reason_of tid (KilledBy sig) = \<lparr>sr_info = sig, sr_reason = Terminated, sr_trap = None, sr_syscall = None, sr_tid = tid\<rparr>"
| "reason_of tid (StoppedBy sig) = \<lparr>sr_info = sig, sr_reason = Stopped, sr_trap = None, sr_syscall = None, sr_tid = tid\<rparr>"
| "reason_of tid CloneStop = \<lparr>sr_info = SIGTRAP, sr_reason = Stopped, sr_trap = Some CloneTrap, sr_syscall = None, sr_tid = tid\<rparr>"

lemma status_masks: "bit (0x7f :: u32) n \<longleftrightarrow> n < 7" "bit (0xff :: u32) n \<longleftrightarrow> n < 8"
proof -
  have m: "(0x7f :: u32) = mask 7" "(0xff :: u32) = mask 8" by code_simp+
  show "bit (0x7f :: u32) n \<longleftrightarrow> n < 7" unfolding m(1) by (auto simp: bit_mask_iff)
  show "bit (0xff :: u32) n \<longleftrightarrow> n < 8" unfolding m(2) by (auto simp: bit_mask_iff)
qed

lemma byte_not_clone: "(ucast (c :: u8) :: u32) \<noteq> 0x305"
proof
  assume "(ucast c :: u32) = 0x305"
  then have "bit (ucast c :: u32) 8 = bit (0x305 :: u32) 8" by simp
  moreover have "bit (0x305 :: u32) 8" by code_simp
  moreover have "\<not> bit (ucast c :: u32) 8" using bit_imp_le_length [of c 8] by (auto simp: bit_simps)
  ultimately show False by simp
qed

lemma shifted_status:
  fixes c :: u8
  shows "(push_bit 8 (ucast c) :: u32) AND 0x7f = 0" and "drop_bit 8 (push_bit 8 (ucast c :: u32)) = (ucast c :: u32)"
    and "(push_bit 8 (ucast c) OR 0x7f :: u32) AND 0x7f = 0x7f" and "(push_bit 8 (ucast c) OR 0x7f :: u32) AND 0xff = 0x7f"
    and "drop_bit 8 (push_bit 8 (ucast c) OR 0x7f :: u32) = ucast c" and "ucast (ucast c :: u32) = c"
proof -
  note bits = bit_simps status_masks bit_imp_le_length
  have "\<not> bit (push_bit 8 (ucast c) AND 0x7f :: u32) n" for n
    using status_masks(1) [of n] by (cases "n < 8") (auto simp: bit_and_iff bit_push_bit_iff)
  then show "(push_bit 8 (ucast c) :: u32) AND 0x7f = 0" by (intro bit_word_eqI) simp
  show s: "drop_bit 8 (push_bit 8 (ucast c :: u32)) = (ucast c :: u32)"
    by (rule bit_word_eqI) (auto simp: bits dest: bit_imp_le_length)
  show "(push_bit 8 (ucast c) OR 0x7f :: u32) AND 0x7f = 0x7f"
  proof (rule bit_word_eqI)
    fix n show "bit ((push_bit 8 (ucast c) OR 0x7f :: u32) AND 0x7f) n = bit (0x7f :: u32) n"
      using status_masks [of n] by (cases "n < 8") (auto simp: bit_and_iff bit_or_iff bit_push_bit_iff)
  qed
  show "(push_bit 8 (ucast c) OR 0x7f :: u32) AND 0xff = 0x7f"
  proof (rule bit_word_eqI)
    fix n show "bit ((push_bit 8 (ucast c) OR 0x7f :: u32) AND 0xff) n = bit (0x7f :: u32) n"
      using status_masks [of n] by (cases "n < 8") (auto simp: bit_and_iff bit_or_iff bit_push_bit_iff)
  qed
  have "drop_bit 8 (0x7f :: u32) = 0" by code_simp
  then show "drop_bit 8 (push_bit 8 (ucast c) OR 0x7f :: u32) = ucast c" by (simp only: drop_bit_or s) simp
  show "ucast (ucast c :: u32) = c" by (rule bit_word_eqI) (auto simp: bits dest: bit_imp_le_length)
qed

lemma killed_status:
  assumes "0 < c" and "c < 0x7f"
  shows "(ucast (c :: u8) :: u32) AND 0x7f \<noteq> 0 \<and> (ucast c :: u32) AND 0x7f \<noteq> 0x7f \<and> drop_bit 8 (ucast c :: u32) = 0
     \<and> ucast ((ucast c :: u32) AND 0x7f) = c"
proof -
  have u: "unat c < 127" "0 < unat c" using assms by (simp_all add: word_less_nat_alt)
  have uc: "unat (ucast c :: u32) = unat c" using u by (simp add: unsigned_ucast_eq take_bit_nat_eq_self)
  have "unat ((ucast c :: u32) AND 0x7f) = unat c"
  proof -
    have "0x7f = (mask 7 :: u32)" by (simp add: mask_eq_exp_minus_1)
    then have "(ucast c :: u32) AND 0x7f = take_bit 7 (ucast c)" by (simp add: take_bit_eq_mask)
    then show ?thesis using u uc by (simp add: unsigned_take_bit_eq take_bit_nat_eq_self)
  qed
  moreover have "unat (drop_bit 8 (ucast c :: u32)) = 0" unfolding unsigned_drop_bit_eq uc using u by (simp add: drop_bit_eq_div take_bit_nat_eq_self)
  ultimately have x: "unat ((ucast c :: u32) AND 0x7f) = unat c" and d: "drop_bit 8 (ucast c :: u32) = 0"
    unfolding unat_eq_0 by simp_all
  have "(ucast c :: u32) AND 0x7f \<noteq> 0" using x u(2) by (metis less_irrefl unsigned_0)
  moreover have "(ucast c :: u32) AND 0x7f \<noteq> 0x7f"
  proof
    assume "(ucast c :: u32) AND 0x7f = 0x7f"
    from arg_cong [OF this, of unat] x u(1) show False by simp
  qed
  moreover have "unat (ucast ((ucast c :: u32) AND 0x7f) :: u8) = unat c"
    unfolding unsigned_ucast_eq x using u(1) by (simp add: take_bit_nat_eq_self)
  then have "ucast ((ucast c :: u32) AND 0x7f) = c" by (rule word_unat_eq_iff [THEN iffD2])
  ultimately show ?thesis using d by blast
qed

text \<open>
  The reason computed from a wait status is the event the kernel encoded in it: the exit
  code, the signal that killed or stopped the thread, or the stop of a clone.
\<close>

theorem stop_reason_of_wait_status:
  assumes "event_ok e"
  shows "stop_reason_of tid (wait_status_of e) = Inr (reason_of tid e)"
proof (cases e)
  case CloneStop
  have "(push_bit 8 0x305 OR 0x7f :: u32) AND 0x7f = 0x7f" "(push_bit 8 0x305 OR 0x7f :: u32) AND 0xff = 0x7f"
      "drop_bit 8 (push_bit 8 0x305 OR 0x7f :: u32) = 0x305" "(ucast (0x305 :: u32) :: u8) = 5"
    by code_simp+
  then show ?thesis
    unfolding CloneStop stop_reason_of_def wifexited_def wifsignaled_def wifstopped_def Let_def wait_status_of.simps
    by (simp only:) (simp add: SIGTRAP_def)
next
  case (KilledBy sig)
  then show ?thesis using killed_status [of sig] assms
    by (simp add: stop_reason_of_def wifexited_def wifsignaled_def Let_def)
qed (simp_all add: stop_reason_of_def wifexited_def wifsignaled_def wifstopped_def Let_def shifted_status byte_not_clone)

lemma stop_reason_of_wait_status_witness:
  "stop_reason_of 7 (wait_status_of (KilledBy 11)) =
     Inr \<lparr>sr_info = 11, sr_reason = Terminated, sr_trap = None, sr_syscall = None, sr_tid = 7\<rparr>"
  using stop_reason_of_wait_status [of "KilledBy 11" 7] by simp

text \<open>What the kernel documents about the sizes of the areas it fills.\<close>

definition os_sizes :: "'k os \<Rightarrow> bool" where
  "os_sizes os \<longleftrightarrow> length (os_fresh_user os) = sizeof_user
     \<and> (\<forall>tid k bs. os_getregs os tid k = Some bs \<longrightarrow> length bs = sizeof_regs)
     \<and> (\<forall>tid k bs. os_getfpregs os tid k = Some bs \<longrightarrow> length bs = sizeof_fpregs)"

definition thread_regs_inv :: "('k, 't) process \<Rightarrow> bool" where
  "thread_regs_inv s \<longleftrightarrow> (\<forall>(t, th)\<in>set (pr_threads s). regs_inv (th_regs th))"

lemma store_user_regs:
  assumes "get_registers (Some tid) s = Inr regs" and "regs_inv regs" and "i387_offset \<le> off" and "off + length bs \<le> sizeof_user"
  shows "\<exists>regs'. get_registers (Some tid) (store_user tid off bs s) = Inr regs' \<and> regs_inv regs'
     \<and> rg_undefined regs' = rg_undefined regs
     \<and> bytes_at 0 i387_offset (rg_data regs') = bytes_at 0 i387_offset (rg_data regs)"
proof -
  obtain th where th: "thread_at tid s = Inr th" "regs = th_regs th"
    using assms(1) by (auto simp: get_registers_def tid_of_def rbind_eq_Inr)
  then show ?thesis using assms(2-4)
    by (auto simp: get_registers_def tid_of_def store_user_def thread_at_update_thread regs_inv_def sizeof_user_def
        i387_offset_def intro!: bytes_at_copy_at_disjoint)
qed

lemma debug_registers_keep:
  assumes "foldR (read_debug_register os tid) is s = Inr s'" and "\<forall>i\<in>set is. i < 8"
    and "get_registers (Some tid) s = Inr regs" and "regs_inv regs"
  shows "\<exists>regs'. get_registers (Some tid) s' = Inr regs' \<and> regs_inv regs' \<and> rg_undefined regs' = rg_undefined regs
     \<and> bytes_at 0 i387_offset (rg_data regs') = bytes_at 0 i387_offset (rg_data regs)"
proof -
  let ?P = "\<lambda>s. \<exists>regs'. get_registers (Some tid) s = Inr regs' \<and> regs_inv regs' \<and> rg_undefined regs' = rg_undefined regs
     \<and> bytes_at 0 i387_offset (rg_data regs') = bytes_at 0 i387_offset (rg_data regs)"
  show ?thesis
  proof (rule foldR_invariant [OF assms(1), of ?P])
    fix i s1 s2
    assume i: "i \<in> set is" and "?P s1" and "read_debug_register os tid i s1 = Inr s2"
    then obtain r1 v where r1: "get_registers (Some tid) s1 = Inr r1" "regs_inv r1" "rg_undefined r1 = rg_undefined regs"
        "bytes_at 0 i387_offset (rg_data r1) = bytes_at 0 i387_offset (rg_data regs)"
        and s2: "s2 = store_user tid (debugreg_offset + 8 * i) (as_bytes (v :: u64)) s1"
      by (auto simp: read_debug_register_def rbind_eq_Inr split: option.splits)
    have "debugreg_offset + 8 * i + length (as_bytes v) \<le> sizeof_user" "i387_offset \<le> debugreg_offset + 8 * i"
      using i assms(2) by (auto simp: debugreg_offset_def sizeof_user_def i387_offset_def)
    from store_user_regs [OF r1(1,2) this(2,1)] show "?P s2" using r1(3,4) s2 by auto
  qed (use assms(3,4) in auto)
qed

lemma gpr_below_i387: "i < 25 \<Longrightarrow> reg_offset (g_register_infos ! i) + 8 \<le> i387_offset \<and> reg_fmt (g_register_infos ! i) = UintF
    \<and> reg_size (g_register_infos ! i) = 8"
  using gpr_place by blast

lemma read_all_registers_keeps:
  assumes "read_all_registers os tid s = Inr ((), s')" and "os_sizes os"
    and "get_registers (Some tid) s = Inr regs" and "regs_inv regs"
  shows "\<exists>regs'. get_registers (Some tid) s' = Inr regs' \<and> regs_inv regs' \<and> rg_undefined regs' = rg_undefined regs
     \<and> (\<forall>i<25. reg_read (g_register_infos ! i) regs' = reg_read (g_register_infos ! i) regs)"
proof -
  obtain b1 b2 where b: "length b1 = sizeof_regs" "length b2 = sizeof_fpregs"
      and fold: "foldR (read_debug_register os tid) [0..<8] (store_user tid i387_offset b2 (store_user tid i387_offset b1 s)) = Inr s'"
    using assms(1,2) unfolding os_sizes_def read_all_registers_def
    by (fastforce simp: rbind_eq_Inr split: option.splits)
  have sizes: "i387_offset + length b1 \<le> sizeof_user" "i387_offset + length b2 \<le> sizeof_user"
    using b by (simp_all add: i387_offset_def sizeof_regs_def sizeof_fpregs_def sizeof_user_def)
  obtain r1 where r1: "get_registers (Some tid) (store_user tid i387_offset b1 s) = Inr r1" "regs_inv r1"
      "rg_undefined r1 = rg_undefined regs" "bytes_at 0 i387_offset (rg_data r1) = bytes_at 0 i387_offset (rg_data regs)"
    using store_user_regs [OF assms(3,4) _ sizes(1)] by auto
  obtain r2 where r2: "get_registers (Some tid) (store_user tid i387_offset b2 (store_user tid i387_offset b1 s)) = Inr r2" "regs_inv r2"
      "rg_undefined r2 = rg_undefined regs" "bytes_at 0 i387_offset (rg_data r2) = bytes_at 0 i387_offset (rg_data regs)"
    using store_user_regs [OF r1(1,2) _ sizes(2)] r1(3,4) by auto
  obtain r3 where r3: "get_registers (Some tid) s' = Inr r3" "rg_undefined r3 = rg_undefined regs" "regs_inv r3"
      "bytes_at 0 i387_offset (rg_data r3) = bytes_at 0 i387_offset (rg_data regs)"
    using debug_registers_keep [OF fold _ r2(1,2)] r2(3,4) by auto
  have sub: "reg_bytes (g_register_infos ! i) r 8 = bytes_at (reg_offset (g_register_infos ! i)) 8 (bytes_at 0 i387_offset (rg_data r))" if "i < 25" for r i
  proof -
    have "8 \<le> i387_offset - reg_offset (g_register_infos ! i)" using gpr_below_i387 [OF that] by linarith
    then show ?thesis by (simp add: reg_bytes_def bytes_at_def drop_take min_def)
  qed
  have "reg_read (g_register_infos ! i) r3 = reg_read (g_register_infos ! i) regs" if "i < 25" for i
    using gpr_below_i387 [OF that] r3(2,4) that
    by (simp add: reg_read_def is_undefined_def sub cong: if_cong)
  then show ?thesis using r3(1-3) by blast
qed

text \<open>
  Reading all registers of a thread never brings in its general registers: both register
  areas are stored over the floating point area, so after the call every 64-bit general
  register of the debugger's copy, the program counter included, has the value it had before.
\<close>

theorem read_all_registers_keeps_stale_gprs:
  assumes "read_all_registers os tid s = Inr ((), s')" and "os_sizes os"
    and "get_registers (Some tid) s = Inr regs" and "regs_inv regs" and "i < 25"
  shows "\<exists>regs'. get_registers (Some tid) s' = Inr regs' \<and> reg_read (g_register_infos ! i) regs' = reg_read (g_register_infos ! i) regs"
  using read_all_registers_keeps [OF assms(1-4)] assms(5) by blast

text \<open>
  A kernel for concrete runs: its state is the memory of the process. It refuses every request
  about thread 0, as the real one does.
\<close>

definition mem_word :: "(u64 \<Rightarrow> u8) \<Rightarrow> u64 \<Rightarrow> u64" where
  "mem_word k a = from_bytes (map (\<lambda>i. k (a + of_nat i)) [0..<8])"

definition mem_store :: "u64 \<Rightarrow> u64 \<Rightarrow> (u64 \<Rightarrow> u8) \<Rightarrow> (u64 \<Rightarrow> u8)" where
  "mem_store a w k = (\<lambda>x. if unat (x - a) < 8 then as_bytes w ! unat (x - a) else k x)"

definition mem_range :: "(u64 \<Rightarrow> u8) \<Rightarrow> u64 \<times> nat \<Rightarrow> u8 list" where
  "mem_range k r = map (\<lambda>i. k (fst r + of_nat i)) [0..<snd r]"

definition sample_os :: "(u64 \<Rightarrow> u8) os" where
  "sample_os = \<lparr>os_fc = no_conv, os_fresh_user = replicate 912 0,
     os_peekdata = (\<lambda>pid a k. Some (mem_word k a)), os_pokedata = (\<lambda>pid a w k. Some (mem_store a w k)),
     os_peekuser = (\<lambda>tid off k. Some 0), os_pokeuser = (\<lambda>pid off w k. Some k),
     os_getregs = (\<lambda>tid k. Some (replicate 216 1)), os_setregs = (\<lambda>tid bs k. Some k),
     os_getfpregs = (\<lambda>tid k. Some (replicate 512 2)), os_setfpregs = (\<lambda>tid bs k. Some k),
     os_readv = (\<lambda>pid rs k. Some (concat (map (mem_range k) rs))), os_si_code = (\<lambda>tid k. Some 0x80),
     os_singlestep = (\<lambda>tid k. if tid = 0 then None else Some k), os_cont = (\<lambda>tid k. if tid = 0 then None else Some k),
     os_syscall = (\<lambda>tid k. if tid = 0 then None else Some k), os_waitpid = (\<lambda>pid k. Some (if 0 < pid then pid else 100, 0x57f, k)),
     os_tgkill = (\<lambda>pid tid sig k. k), os_kill = (\<lambda>pid sig k. k), os_attach = (\<lambda>pid k. Some k),
     os_detach = (\<lambda>pid k. k), os_setoptions = (\<lambda>pid k. Some k), os_tasks = (\<lambda>pid k. [pid]), os_auxv = (\<lambda>pid k. [9, 0x401000, 0])\<rparr>"

definition sample_process :: "(u64 \<Rightarrow> u8, unit) process" where
  "sample_process = mk_process sample_os 100 True True (\<lambda>_. 0x90)"

lemma sample_process_threads: "pr_threads sample_process = [(100, mk_thread sample_os 100)]"
  by (simp add: sample_process_def mk_process_def populate_existing_threads_def sample_os_def add_thread_def has_thread_def)

lemma sample_get_registers: "get_registers (Some 100) sample_process = Inr (mk_registers sample_os 100)"
  by (simp add: get_registers_def tid_of_def thread_at_def map_at_def sample_process_threads mk_thread_def)

lemma sample_os_sizes: "os_sizes sample_os"
  by (auto simp: os_sizes_def sample_os_def sizeof_user_def sizeof_regs_def sizeof_fpregs_def)

lemma sample_registers: "mk_registers sample_os tid = zero_registers\<lparr>rg_tid := tid\<rparr>"
  by (simp add: mk_registers_def zero_registers_def sample_os_def sizeof_user_def)

lemma read_debug_register_returns:
  fixes s :: "(u64 \<Rightarrow> u8, unit) process"
  shows "i < 8 \<Longrightarrow> \<exists>s'. read_debug_register sample_os tid i s = Inr s'"
  by (simp add: read_debug_register_def register_info_by_id_nth rid_dr0_def sample_os_def)

lemma foldR_returns: "\<forall>x\<in>set xs. \<forall>s. \<exists>s'. f x s = Inr s' \<Longrightarrow> \<exists>s'. foldR f xs s = Inr s'"
  by (induction xs arbitrary: s) (fastforce simp: rbind_eq_Inr)+

lemma sample_read_all_registers: "\<exists>s'. read_all_registers sample_os 100 sample_process = Inr ((), s')"
proof -
  let ?s2 = "store_user 100 i387_offset (replicate 512 2) (store_user 100 i387_offset (replicate 216 1) sample_process)"
  obtain s' where "foldR (read_debug_register sample_os 100) [0..<8] ?s2 = Inr s'"
    using foldR_returns [of "[0..<8]" "read_debug_register sample_os 100" ?s2] read_debug_register_returns by auto
  then show ?thesis
    by (simp add: read_all_registers_def thread_at_def map_at_def sample_process_threads) (simp add: sample_os_def)
qed

lemma read_all_registers_keeps_stale_gprs_witness:
  "\<exists>s' regs'. read_all_registers sample_os 100 sample_process = Inr ((), s') \<and> get_registers (Some 100) s' = Inr regs'
     \<and> reg_read (g_register_infos ! rid_rip) regs' = reg_read (g_register_infos ! rid_rip) (mk_registers sample_os 100)"
proof -
  obtain s' where run: "read_all_registers sample_os 100 sample_process = Inr ((), s')" using sample_read_all_registers by blast
  have "regs_inv (mk_registers sample_os 100)" using zero_registers_inv by (simp add: sample_registers regs_inv_def)
  from read_all_registers_keeps_stale_gprs [OF run sample_os_sizes sample_get_registers this, of rid_rip] run show ?thesis
    by (auto simp: rid_rip_def)
qed

text \<open>
  A write to a register of any thread is sent to the main thread of the process, twice: the
  three functions that write registers compute the thread and then name the process.
\<close>

theorem write_reg_reaches_main_thread:
  assumes "write_reg os (Some tid) i v s = Inr ((), s')" and "i < 123" and "reg_type (g_register_infos ! i) \<noteq> Fpr"
  shows "\<exists>w k. os_pokeuser os (pr_pid s) (aligned_offset (g_register_infos ! i)) w (pr_os s) = Some k
     \<and> os_pokeuser os (pr_pid s) (aligned_offset (g_register_infos ! i)) w k = Some (pr_os s')"
proof -
  obtain regs regs' reqs where r: "write_by_id (os_fc os) i v True regs = Inr (regs', reqs)"
      and f: "foldR (send_user_req os) reqs (update_thread tid (\<lambda>th. th\<lparr>th_regs := regs'\<rparr>) s) = Inr s'"
    using assms(1) by (auto simp: write_reg_def rbind_eq_Inr Let_def tid_of_def)
  have "\<exists>w. reqs = [PokeUser (aligned_offset (g_register_infos ! i)) w None,
      PokeUser (aligned_offset (g_register_infos ! i)) w (Some (rg_tid regs))]"
    using r assms(2,3) by (auto simp: write_by_id_def register_info_by_id_nth reg_write_def Let_def write_request_def split: if_splits)
  then obtain w where "reqs = [PokeUser (aligned_offset (g_register_infos ! i)) w None,
      PokeUser (aligned_offset (g_register_infos ! i)) w (Some (rg_tid regs))]" by blast
  with f obtain k where "os_pokeuser os (pr_pid s) (aligned_offset (g_register_infos ! i)) w (pr_os s) = Some k"
      "os_pokeuser os (pr_pid s) (aligned_offset (g_register_infos ! i)) w k = Some (pr_os s')"
    by (auto simp: rbind_eq_Inr write_user_area_def request_Inr)
  then show ?thesis by blast
qed

lemma write_reg_returns:
  assumes "get_registers (Some tid) s = Inr regs" and "i < 17" and "\<And>off w k. os_pokeuser os (pr_pid s) off w k \<noteq> None"
    and "reg_size (g_register_infos ! i) = 8" and "reg_type (g_register_infos ! i) \<noteq> Fpr"
  shows "\<exists>s'. write_reg os (Some tid) i (VU64 v) s = Inr ((), s')"
proof -
  obtain regs' w where w: "write_by_id (os_fc os) i (VU64 v) True regs = Inr (regs',
      [PokeUser (aligned_offset (g_register_infos ! i)) w None, PokeUser (aligned_offset (g_register_infos ! i)) w (Some (rg_tid regs))])"
    using assms(2,4,5) by (auto simp: write_by_id_def register_info_by_id_nth reg_write_def Let_def write_request_def)
  obtain k where k: "os_pokeuser os (pr_pid s) (aligned_offset (g_register_infos ! i)) w (pr_os s) = Some k" using assms(3) by blast
  obtain k' where "os_pokeuser os (pr_pid s) (aligned_offset (g_register_infos ! i)) w k = Some k'" using assms(3) by blast
  with k w assms(1) show ?thesis
    by (simp add: write_reg_def Let_def write_user_area_def request_def tid_of_def)
qed

definition two_threads :: "(u64 \<Rightarrow> u8, unit) process" where
  "two_threads = add_thread sample_os 101 sample_process"

lemma write_reg_reaches_main_thread_witness:
  "\<exists>s' w k. write_reg sample_os (Some 101) rid_rax (VU64 5) two_threads = Inr ((), s')
     \<and> os_pokeuser sample_os 100 80 w (pr_os two_threads) = Some k \<and> os_pokeuser sample_os 100 80 w k = Some (pr_os s')"
proof -
  have pid: "pr_pid two_threads = 100"
    by (simp add: two_threads_def add_thread_def sample_process_def mk_process_def populate_existing_threads_def sample_os_def)
  have regs: "get_registers (Some 101) two_threads = Inr (mk_registers sample_os 101)"
    by (simp add: get_registers_def tid_of_def thread_at_def map_at_def two_threads_def add_thread_def has_thread_def
        sample_process_threads mk_thread_def)
  have rax: "reg_type (g_register_infos ! rid_rax) \<noteq> Fpr" "reg_size (g_register_infos ! rid_rax) = 8"
      "aligned_offset (g_register_infos ! rid_rax) = 80"
    using gpr_place [of rid_rax] rax_info(5) by (simp_all add: rid_rax_def aligned_offset_def)
  have poke: "os_pokeuser sample_os p off w k \<noteq> None" for p off w k by (simp add: sample_os_def)
  obtain s' where run: "write_reg sample_os (Some 101) rid_rax (VU64 5) two_threads = Inr ((), s')"
    using write_reg_returns [OF regs _ poke rax(2,1), of 5] by (auto simp: rid_rax_def)
  from write_reg_reaches_main_thread [OF run _ rax(1)] run show ?thesis
    unfolding pid rax(3) by (auto simp: rid_rax_def)
qed

end
