(* ===== verification/KD_Debugregs.thy ===== *)
theory KD_Debugregs
  imports KD_Inferior
begin

text \<open>
  Hardware stop points (\<open>src/process.cpp\<close>): how the debug control register encodes the four
  slots, and how a slot is taken, filled and given back in every thread.
\<close>

unbundle bit_operations_syntax

subsection \<open>The control register\<close>

fun encode_hardware_stoppoint_mode :: "stoppoint_mode \<Rightarrow> u64" where
  "encode_hardware_stoppoint_mode WriteMode = 1"
| "encode_hardware_stoppoint_mode ReadWrite = 3"
| "encode_hardware_stoppoint_mode Execute = 0"

definition encode_hardware_stoppoint_size :: "u64 \<Rightarrow> u64 result" where
  "encode_hardware_stoppoint_size sz =
     (if sz = 1 then Inr 0 else if sz = 2 then Inr 1 else if sz = 4 then Inr 3 else if sz = 8 then Inr 2
      else Inl (Send ''Invalid stoppoint size''))"

fun find_free_from :: "nat list \<Rightarrow> u64 \<Rightarrow> nat result" where
  "find_free_from [] control = Inl (Send ''No remaining hardware debug registers'')"
| "find_free_from (i # is) control = (if control AND push_bit (i * 2) 3 = 0 then Inr i else find_free_from is control)"

definition find_free_stoppoint_region :: "u64 \<Rightarrow> nat result" where
  "find_free_stoppoint_region control = find_free_from [0, 1, 2, 3] control"

text \<open>
  The mask is an \<open>int\<close>: its complement is extended with its sign to 64 bits. For slot 3 the
  mask has its sign bit set, so the complement clears the upper half of the control register.
\<close>

definition clear_mask :: "nat \<Rightarrow> u32" where
  "clear_mask i = push_bit (i * 2) 3 OR push_bit (i * 4 + 16) 15"

definition dr7_clear :: "u64 \<Rightarrow> nat \<Rightarrow> u64" where
  "dr7_clear control i = control AND scast (NOT (clear_mask i))"

definition dr7_set :: "u64 \<Rightarrow> nat \<Rightarrow> u64 \<Rightarrow> u64 \<Rightarrow> u64" where
  "dr7_set control i mode_flag size_flag =
     dr7_clear control i OR (push_bit (i * 2) 1 OR push_bit (i * 4 + 16) mode_flag OR push_bit (i * 4 + 18) size_flag)"

subsection \<open>Taking and freeing a slot\<close>

text \<open>The loop over the threads other than the current one.\<close>

definition write_debug_pair :: "'k os \<Rightarrow> nat \<Rightarrow> reg_value \<Rightarrow> u64 \<Rightarrow> int \<Rightarrow> ('k, 't) process \<Rightarrow> ('k, 't) process result" where
  "write_debug_pair os i v control tid s =
     (if tid = pr_current s then Inr s
      else rbind (write_reg os (Some tid) (rid_dr0 + i) v s) (\<lambda>(_, s1).
           rbind (write_reg os (Some tid) rid_dr7 (VU64 control) s1) (\<lambda>(_, s2). Inr s2)))"

definition set_hardware_stoppoint :: "'k os \<Rightarrow> virt_addr \<Rightarrow> stoppoint_mode \<Rightarrow> u64 \<Rightarrow> (nat, 'k, 't) op" where
  "set_hardware_stoppoint os a mode sz s =
     rbind (read_reg None rid_dr7 s) (\<lambda>control.
     rbind (find_free_stoppoint_region control) (\<lambda>free_space.
     rbind (write_reg os None (rid_dr0 + free_space) (VU64 (addr a)) s) (\<lambda>(_, s1).
     let mode_flag = encode_hardware_stoppoint_mode mode in
     rbind (encode_hardware_stoppoint_size sz) (\<lambda>size_flag.
     let masked = dr7_set control free_space mode_flag size_flag in
     rbind (write_reg os None rid_dr7 (VU64 masked) s1) (\<lambda>(_, s2).
     rbind (foldR (write_debug_pair os free_space (VU64 (addr a)) masked) (map fst (pr_threads s2)) s2) (\<lambda>s3.
     Inr (free_space, s3)))))))"

text \<open>Clearing writes an \<open>int\<close> zero to the address register. An index of -1 shifts by a negative amount.\<close>

definition clear_hardware_stoppoint :: "'k os \<Rightarrow> int \<Rightarrow> (unit, 'k, 't) op" where
  "clear_hardware_stoppoint os index s =
     (if index < 0 then Inl (UB ''shift by a negative amount'')
      else let i = nat index in
        rbind (write_reg os None (rid_dr0 + i) (VI32 0) s) (\<lambda>(_, s1).
        rbind (read_reg None rid_dr7 s1) (\<lambda>control.
        let masked = dr7_clear control i in
        rbind (write_reg os None rid_dr7 (VU64 masked) s1) (\<lambda>(_, s2).
        rbind (foldR (write_debug_pair os i (VI32 0) masked) (map fst (pr_threads s2)) s2) (\<lambda>s3.
        Inr ((), s3))))))"

definition set_hardware_breakpoint :: "'k os \<Rightarrow> u32 \<Rightarrow> virt_addr \<Rightarrow> (nat, 'k, 't) op" where
  "set_hardware_breakpoint os i a s = set_hardware_stoppoint os a Execute 1 s"

definition set_watchpoint :: "'k os \<Rightarrow> u32 \<Rightarrow> virt_addr \<Rightarrow> stoppoint_mode \<Rightarrow> u64 \<Rightarrow> (nat, 'k, 't) op" where
  "set_watchpoint os i a mode sz s = set_hardware_stoppoint os a mode sz s"

subsection \<open>Fields of a slot\<close>

definition slot_enable :: "u64 \<Rightarrow> nat \<Rightarrow> u64" where
  "slot_enable control j = drop_bit (j * 2) control AND 3"

definition slot_mode :: "u64 \<Rightarrow> nat \<Rightarrow> u64" where
  "slot_mode control j = drop_bit (j * 4 + 16) control AND 3"

definition slot_size :: "u64 \<Rightarrow> nat \<Rightarrow> u64" where
  "slot_size control j = drop_bit (j * 4 + 18) control AND 3"

lemmas slot_defs = slot_enable_def slot_mode_def slot_size_def

lemma bit_three: "bit (3 :: int) n \<longleftrightarrow> n < 2"
proof -
  have m: "(3 :: int) = mask 2" by (simp add: mask_eq_exp_minus_1)
  show ?thesis unfolding m by (auto simp: bit_mask_iff)
qed

lemma bit_fifteen: "bit (15 :: int) n \<longleftrightarrow> n < 4"
proof -
  have m: "(15 :: int) = mask 4" by (simp add: mask_eq_exp_minus_1)
  show ?thesis unfolding m by (auto simp: bit_mask_iff)
qed

text \<open>The bits of the control register that belong to slot \<open>i\<close>.\<close>

definition slot_bits :: "nat \<Rightarrow> nat \<Rightarrow> bool" where
  "slot_bits i n \<longleftrightarrow> i * 2 \<le> n \<and> n < i * 2 + 2 \<or> i * 4 + 16 \<le> n \<and> n < i * 4 + 20"

lemma bit_clear_mask: "bit (clear_mask i) n \<longleftrightarrow> n < 32 \<and> slot_bits i n"
  by (auto simp: clear_mask_def bit_or_iff bit_push_bit_iff bit_three bit_fifteen slot_bits_def)

lemma bit_dr7_clear: "n < 32 \<Longrightarrow> bit (dr7_clear c i) n \<longleftrightarrow> bit c n \<and> \<not> slot_bits i n"
  by (cases "n = 31") (auto simp: dr7_clear_def bit_simps bit_clear_mask min_def)

lemma field_eqI:
  fixes x y :: u64
  assumes "\<And>n. n < 2 \<Longrightarrow> bit x (m + n) = bit y (m + n)"
  shows "drop_bit m x AND 3 = drop_bit m y AND 3"
  using assms by (intro bit_word_eqI) (auto simp: bit_and_iff bit_drop_bit_eq bit_three)

lemma slots_after_clear:
  assumes "i < 4" and "j < 4" and "j \<noteq> i"
  shows "slot_enable (dr7_clear c i) j = slot_enable c j"
    and "slot_mode (dr7_clear c i) j = slot_mode c j"
    and "slot_size (dr7_clear c i) j = slot_size c j"
  unfolding slot_defs by (rule field_eqI; use assms in \<open>simp add: bit_dr7_clear slot_bits_def; arith\<close>)+

lemma bit_small: "(m :: u64) \<in> {0, 1, 2, 3} \<Longrightarrow> bit m k \<Longrightarrow> k < 2"
proof -
  have two: "(2 :: int) = push_bit 1 1" by simp
  have "bit (2 :: int) k \<longleftrightarrow> k = 1" unfolding two by (simp only: bit_push_bit_iff) (auto simp: bit_1_iff)
  then show "m \<in> {0, 1, 2, 3} \<Longrightarrow> bit m k \<Longrightarrow> k < 2" by (auto simp: bit_1_iff bit_three)
qed

lemma bit_dr7_set:
  assumes "n < 32"
  shows "bit (dr7_set c i m z) n \<longleftrightarrow> bit c n \<and> \<not> slot_bits i n \<or> n = i * 2
     \<or> i * 4 + 16 \<le> n \<and> bit m (n - (i * 4 + 16)) \<or> i * 4 + 18 \<le> n \<and> bit z (n - (i * 4 + 18))"
  using assms by (auto simp: dr7_set_def bit_or_iff bit_dr7_clear bit_push_bit_iff bit_exp_iff)

lemma field_eq_flag:
  fixes x y :: u64
  assumes "\<And>n. n < 2 \<Longrightarrow> bit x (m + n) = bit y n" and "y \<in> {0, 1, 2, 3}"
  shows "drop_bit m x AND 3 = y"
  using assms bit_small [OF assms(2)] by (intro bit_word_eqI) (auto simp: bit_and_iff bit_drop_bit_eq bit_three)

lemma slot_set:
  assumes "i < 4" and "m \<in> {0, 1, 2, 3}" and "z \<in> {0, 1, 2, 3}"
  shows "slot_enable (dr7_set c i m z) i = 1" and "slot_mode (dr7_set c i m z) i = m" and "slot_size (dr7_set c i m z) i = z"
proof -
  have sb: "slot_bits i (i * 2 + n)" "slot_bits i (i * 4 + 16 + n)" "slot_bits i (i * 4 + 18 + n)" if "n < 2" for n
    using that by (auto simp: slot_bits_def)
  have z0: "\<not> bit m (Suc (Suc n))" "\<not> bit z (Suc (Suc n))" for n using bit_small assms(2,3) by fastforce+
  show "slot_enable (dr7_set c i m z) i = 1" unfolding slot_defs
    by (rule field_eq_flag) (use assms(1) sb in \<open>auto simp: bit_dr7_set bit_1_iff\<close>)
  show "slot_mode (dr7_set c i m z) i = m" unfolding slot_defs
    by (rule field_eq_flag) (use assms sb in \<open>auto simp: bit_dr7_set\<close>)
  show "slot_size (dr7_set c i m z) i = z" unfolding slot_defs
  proof (rule field_eq_flag)
    fix n :: nat assume n: "n < 2"
    have "\<not> bit m (i * 4 + 18 + n - (i * 4 + 16))" using z0(1) [of n] by (simp add: numeral_2_eq_2)
    then show "bit (dr7_set c i m z) (i * 4 + 18 + n) = bit z n" using n assms(1) sb(3) [OF n] by (auto simp: bit_dr7_set)
  qed (rule assms(3))
qed

lemma slots_after_set:
  assumes "i < 4" and "j < 4" and "j \<noteq> i" and "m \<in> {0, 1, 2, 3}" and "z \<in> {0, 1, 2, 3}"
  shows "slot_enable (dr7_set c i m z) j = slot_enable c j"
    and "slot_mode (dr7_set c i m z) j = slot_mode c j"
    and "slot_size (dr7_set c i m z) j = slot_size c j"
proof -
  have keep: "bit (dr7_set c i m z) n = bit c n" if "n < 32" "\<not> slot_bits i n" for n
  proof -
    have "\<not> (i * 4 + 16 \<le> n \<and> bit m (n - (i * 4 + 16)))" "\<not> (i * 4 + 18 \<le> n \<and> bit z (n - (i * 4 + 18)))"
      using that(2) bit_small [OF assms(4), of "n - (i * 4 + 16)"] bit_small [OF assms(5), of "n - (i * 4 + 18)"]
      by (auto simp: slot_bits_def)
    moreover have "n \<noteq> i * 2" using that(2) by (auto simp: slot_bits_def)
    ultimately show ?thesis using that by (auto simp: bit_dr7_set)
  qed
  have out: "\<not> slot_bits i (j * 2 + n)" "\<not> slot_bits i (j * 4 + 16 + n)" "\<not> slot_bits i (j * 4 + 18 + n)" if "n < 2" for n
    using that assms(1-3) unfolding slot_bits_def by arith+
  show "slot_enable (dr7_set c i m z) j = slot_enable c j" "slot_mode (dr7_set c i m z) j = slot_mode c j"
      "slot_size (dr7_set c i m z) j = slot_size c j"
    unfolding slot_defs by (rule field_eqI; use assms(2) keep out in auto)+
qed

lemma find_free_cases:
  "(case find_free_stoppoint_region c of
      Inr i \<Rightarrow> i < 4 \<and> slot_enable c i = 0 \<and> (\<forall>j<i. slot_enable c j \<noteq> 0)
    | Inl e \<Rightarrow> e = Send ''No remaining hardware debug registers'' \<and> (\<forall>j<4. slot_enable c j \<noteq> 0))"
proof -
  have f: "(c AND push_bit (j * 2) 3 = 0) \<longleftrightarrow> slot_enable c j = 0" if "j < 4" for j
  proof
    assume z: "c AND push_bit (j * 2) 3 = 0"
    have "\<not> bit c (j * 2 + n)" if "n < 2" for n
    proof -
      have "bit (c AND push_bit (j * 2) 3) (j * 2 + n) = bit c (j * 2 + n)"
        using that \<open>j < 4\<close> by (auto simp: bit_and_iff bit_push_bit_iff bit_three)
      then show ?thesis unfolding z by simp
    qed
    then show "slot_enable c j = 0" unfolding slot_defs by (intro field_eq_flag) auto
  next
    assume z: "slot_enable c j = 0"
    have "\<not> bit c (j * 2 + n)" if "n < 2" for n
    proof -
      have "bit (slot_enable c j) n = bit c (j * 2 + n)"
        using that by (auto simp: slot_defs bit_and_iff bit_drop_bit_eq bit_three)
      then show ?thesis unfolding z by simp
    qed
    then have "\<not> bit (c AND push_bit (j * 2) 3) n" for n
      by (cases "j * 2 \<le> n") (auto simp: bit_and_iff bit_push_bit_iff bit_three le_iff_add)
    then show "c AND push_bit (j * 2) 3 = 0" by (intro bit_word_eqI) simp
  qed
  show ?thesis using f [of 0] f [of 1] f [of 2] f [of 3]
    by (auto simp: find_free_stoppoint_region_def less_Suc_eq numeral_eq_Suc)
qed

subsection \<open>Writing a debug register of a thread\<close>

definition is_dr :: "register_id \<Rightarrow> bool" where
  "is_dr k \<longleftrightarrow> 115 \<le> k \<and> k < 123"

lemma dr_ids [simp]: "i < 8 \<Longrightarrow> is_dr (rid_dr0 + i)" "is_dr rid_dr7" "is_dr rid_dr6"
  by (simp_all add: is_dr_def rid_dr0_def rid_dr7_def rid_dr6_def)

lemma dr_nth:
  assumes "is_dr k"
  shows "reg_fmt (g_register_infos ! k) = UintF" and "reg_size (g_register_infos ! k) = 8"
    and "info_ok (g_register_infos ! k)" and "reg_id (g_register_infos ! k) = k" and "8 dvd reg_offset (g_register_infos ! k)"
proof -
  have k: "115 \<le> k" "k < 123" using assms by (auto simp: is_dr_def)
  then show "reg_fmt (g_register_infos ! k) = UintF" "reg_size (g_register_infos ! k) = 8" "8 dvd reg_offset (g_register_infos ! k)"
    using dr_place [of k] by simp_all
  show "info_ok (g_register_infos ! k)" using all_infos_ok k(2) length_g_register_infos by simp
  show "reg_id (g_register_infos ! k) = k" using k(2) by (simp add: reg_id_nth)
qed

lemma dr_disjoint:
  assumes "is_dr j" and "is_dr k" and "j \<noteq> k"
  shows "disjoint_regs (g_register_infos ! j) (g_register_infos ! k)"
proof -
  have "reg_offset (g_register_infos ! j) \<noteq> reg_offset (g_register_infos ! k)"
    using assms dr_place [of j] dr_place [of k] by (auto simp: is_dr_def)
  then show ?thesis using dr_nth(5) [OF assms(1)] dr_nth(5) [OF assms(2)]
    by (auto simp: disjoint_regs_def dr_nth(2) assms(1,2) elim!: dvdE)
qed

text \<open>What a 64-bit register holds after a value has been written to its low bytes.\<close>

definition stored :: "reg_value \<Rightarrow> u64 \<Rightarrow> u64" where
  "stored v old = from_bytes (value_bytes v @ drop (value_size v) (as_bytes old))"

lemma stored_u64 [simp]: "stored (VU64 w) old = w"
  by (simp add: stored_def)

lemma stored_int_zero: "stored (VI32 0) old = push_bit 32 (drop_bit 32 old)"
proof (rule bit_word_eqI)
  fix n assume n: "n < LENGTH(64)"
  have z: "as_bytes (0 :: u32) = [0, 0, 0, 0]" by code_simp
  show "bit (stored (VI32 0) old) n = bit (push_bit 32 (drop_bit 32 old)) n"
  proof (cases "n < 32")
    case True
    then have "n div 8 < 4" by (simp add: div_less_iff_less_mult)
    then have "([0, 0, 0, 0] @ drop 4 (as_bytes old)) ! (n div 8) = 0" by (auto simp: nth_append nth_Cons split: nat.splits)
    then show ?thesis using True by (simp add: stored_def z bit_from_bytes bit_push_bit_iff del: append_Cons append_Nil)
  next
    case False
    then have d: "4 \<le> n div 8" "n div 8 < 8" using n by auto
    then have "([0, 0, 0, 0] @ drop 4 (as_bytes old)) ! (n div 8) = ucast (drop_bit (8 * (n div 8)) old)"
      by (simp add: nth_append nth_as_bytes)
    then have "bit (stored (VI32 0) old) n = bit old (8 * (n div 8) + n mod 8)"
      using n d by (simp add: stored_def z bit_from_bytes bit_simps del: append_Cons append_Nil mult_div_mod_eq)
    then show ?thesis using False n by (simp add: bit_push_bit_iff bit_drop_bit_eq)
  qed
qed

definition dr_value :: "reg_value \<Rightarrow> bool" where
  "dr_value v \<longleftrightarrow> is_integer v \<and> value_ok v \<and> value_size v \<le> 8"

lemma dr_value_simps [simp]: "dr_value (VU64 w)" "dr_value (VI32 x)"
  by (simp_all add: dr_value_def value_ok_def)

definition threads_ok :: "('k, 't) process \<Rightarrow> bool" where
  "threads_ok s \<longleftrightarrow> (\<forall>t th. map_of (pr_threads s) t = Some th \<longrightarrow>
     regs_inv (th_regs th) \<and> (\<forall>k. is_dr k \<longrightarrow> is_undefined k (th_regs th) = Inr False))"

lemma dr_read: "is_dr k \<Longrightarrow> is_undefined k regs = Inr False \<Longrightarrow>
    read_by_id_as_u64 k regs = Inr (from_bytes (reg_bytes (g_register_infos ! k) regs 8))"
  by (simp add: read_by_id_as_u64_def register_info_by_id_nth is_dr_def)
     (simp add: reg_read_def dr_nth is_dr_def get_u64_def)

lemma dr_write:
  assumes "is_dr k" and "dr_value v" and "regs_inv r" and "\<forall>j. is_dr j \<longrightarrow> is_undefined j r = Inr False"
    and "write_by_id fc k v commit r = Inr (r', reqs)"
  shows "read_by_id_as_u64 k r = Inr old \<Longrightarrow> read_by_id_as_u64 k r' = Inr (stored v old)"
    and "is_dr j \<Longrightarrow> j \<noteq> k \<Longrightarrow> read_by_id_as_u64 j r' = read_by_id_as_u64 j r"
    and "regs_inv r'" and "\<forall>j. is_dr j \<longrightarrow> is_undefined j r' = Inr False"
proof -
  have w: "reg_write fc (g_register_infos ! k) v commit r = Inr (r', reqs)"
    using assms(1,5) by (simp add: write_by_id_def register_info_by_id_nth is_dr_def)
  have v: "is_integer v" "value_ok v" using assms(2) by (auto simp: dr_value_def)
  note data = reg_write_data [OF w v]
  show inv: "regs_inv r'" using reg_write_inv [OF w v assms(3) dr_nth(3) [OF assms(1)]] .
  show undef: "\<forall>j. is_dr j \<longrightarrow> is_undefined j r' = Inr False" using assms(4) data(2) by (simp add: is_undefined_def)
  show "read_by_id_as_u64 j r' = read_by_id_as_u64 j r" if "is_dr j" "j \<noteq> k"
  proof -
    have "reg_read (g_register_infos ! j) r' = reg_read (g_register_infos ! j) r"
      using reg_write_frame [OF w v dr_disjoint] that assms(1,3) by (simp add: dr_nth)
    then show ?thesis by (simp add: read_by_id_as_u64_def register_info_by_id_nth)
  qed
  show "read_by_id_as_u64 k r' = Inr (stored v old)" if o: "read_by_id_as_u64 k r = Inr old"
  proof -
    have b: "reg_offset (g_register_infos ! k) + 8 \<le> 912" using info_ok_bound [OF dr_nth(3) [OF assms(1)]] dr_nth(2) [OF assms(1)] by simp
    have len: "length (value_bytes v) \<le> 8" "length (value_bytes v) = value_size v" using assms(2) by (auto simp: dr_value_def value_ok_def)
    have "old = from_bytes (reg_bytes (g_register_infos ! k) r 8)" using o dr_read [OF assms(1)] assms(1,4) by simp
    then have ob: "as_bytes old = reg_bytes (g_register_infos ! k) r 8"
      using b assms(3) by (simp add: as_from_bytes reg_bytes_def regs_inv_def sizeof_user_def)
    have "reg_bytes (g_register_infos ! k) r' 8 = value_bytes v @ drop (value_size v) (as_bytes old)"
      using bytes_at_copy_at_prefix [of "reg_offset (g_register_infos ! k)" 8 "rg_data r" "value_bytes v"] b len assms(3)
      unfolding ob reg_bytes_def data(1) by (simp add: regs_inv_def sizeof_user_def bytes_at_def drop_take add.commute)
    then show ?thesis using dr_read [OF assms(1)] undef assms(1) by (simp add: stored_def)
  qed
qed

lemma foldR_send_keeps:
  "foldR (send_user_req os) reqs s = Inr s' \<Longrightarrow> pr_threads s' = pr_threads s \<and> pr_current s' = pr_current s \<and> pr_pid s' = pr_pid s
     \<and> pr_sites s' = pr_sites s \<and> pr_watch s' = pr_watch s"
proof (induction reqs arbitrary: s)
  case (Cons r reqs)
  obtain s1 where s1: "send_user_req os r s = Inr s1" "foldR (send_user_req os) reqs s1 = Inr s'"
    using Cons.prems by (auto simp: rbind_eq_Inr)
  have "pr_threads s1 = pr_threads s \<and> pr_current s1 = pr_current s \<and> pr_pid s1 = pr_pid s \<and> pr_sites s1 = pr_sites s \<and> pr_watch s1 = pr_watch s"
    using s1(1) by (cases r) (auto simp: rbind_eq_Inr write_user_area_def write_fprs_def write_gprs_def request_Inr)
  then show ?case using Cons.IH [OF s1(2)] by simp
qed simp

lemma read_reg_current: "read_reg None k s = read_reg (Some (pr_current s)) k s"
  by (simp add: read_reg_def get_registers_def tid_of_def)

lemma write_reg_current: "write_reg os None k v s = write_reg os (Some (pr_current s)) k v s"
  by (simp add: write_reg_def get_registers_def tid_of_def)

text \<open>Everything later proofs need of one write.\<close>

lemma write_reg_effect:
  assumes "write_reg os (Some t) k v s = Inr (u, s')" and "is_dr k" and "dr_value v" and "threads_ok s"
  shows "threads_ok s'" and "map fst (pr_threads s') = map fst (pr_threads s)" and "pr_current s' = pr_current s"
    and "read_reg (Some t) k s = Inr old \<Longrightarrow> read_reg (Some t) k s' = Inr (stored v old)"
    and "is_dr j \<Longrightarrow> t' \<noteq> t \<or> j \<noteq> k \<Longrightarrow> read_reg (Some t') j s' = read_reg (Some t') j s"
    and "pr_sites s' = pr_sites s" and "pr_watch s' = pr_watch s"
proof -
  obtain th regs' reqs where th: "map_of (pr_threads s) t = Some th"
      and w: "write_by_id (os_fc os) k v True (th_regs th) = Inr (regs', reqs)"
      and f: "foldR (send_user_req os) reqs (update_thread t (\<lambda>th. th\<lparr>th_regs := regs'\<rparr>) s) = Inr s'"
    using assms(1) by (auto simp: write_reg_def get_registers_def tid_of_def thread_at_def rbind_eq_Inr Let_def)
  note keep = foldR_send_keeps [OF f]
  have ok: "regs_inv (th_regs th)" "\<forall>j. is_dr j \<longrightarrow> is_undefined j (th_regs th) = Inr False"
    using assms(4) th unfolding threads_ok_def by blast+
  note wr = dr_write [OF assms(2,3) ok w]
  have threads: "map_of (pr_threads s') x = (if x = t then Some (th\<lparr>th_regs := regs'\<rparr>) else map_of (pr_threads s) x)" for x
    using keep th by simp
  have reads: "read_reg (Some x) j s' = (if x = t then read_by_id_as_u64 j regs' else read_reg (Some x) j s)" for x j
    by (simp add: read_reg_def get_registers_def tid_of_def thread_at_def map_at_def threads)
  have reads0: "read_reg (Some t) j s = read_by_id_as_u64 j (th_regs th)" for j
    using th by (simp add: read_reg_def get_registers_def tid_of_def thread_at_def map_at_def)
  show "threads_ok s'" using assms(4) wr(3,4) by (auto simp: threads_ok_def threads split: if_splits)
  show "map fst (pr_threads s') = map fst (pr_threads s)" "pr_current s' = pr_current s" "pr_sites s' = pr_sites s" "pr_watch s' = pr_watch s"
    using keep by simp_all
  show "read_reg (Some t) k s' = Inr (stored v old)" if "read_reg (Some t) k s = Inr old"
    using that wr(1) by (simp add: reads reads0)
  show "read_reg (Some t') j s' = read_reg (Some t') j s" if "is_dr j" "t' \<noteq> t \<or> j \<noteq> k"
    using that wr(2) by (auto simp: reads reads0)
qed


subsection \<open>Properties\<close>

definition reads_as :: "int \<Rightarrow> nat \<Rightarrow> reg_value \<Rightarrow> u64 \<Rightarrow> ('k, 't) process \<Rightarrow> ('k, 't) process \<Rightarrow> bool" where
  "reads_as t i v control s s' \<longleftrightarrow>
     (\<forall>old. read_reg (Some t) (rid_dr0 + i) s = Inr old \<longrightarrow> read_reg (Some t) (rid_dr0 + i) s' = Inr (stored v old))
     \<and> read_reg (Some t) rid_dr7 s' = Inr control"

lemma thread_reads:
  assumes "threads_ok s" and "t \<in> fst ` set (pr_threads s)" and "is_dr k"
  shows "\<exists>v. read_reg (Some t) k s = Inr v"
proof -
  obtain th where "map_of (pr_threads s) t = Some th" using assms(2) by (metis map_of_eq_None_iff not_None_eq)
  then show ?thesis using assms(1,3) dr_read [OF assms(3)]
    by (auto simp: threads_ok_def read_reg_def get_registers_def tid_of_def thread_at_def map_at_def)
qed

text \<open>The loop over the threads leaves the pair in each of them, and touches no thread outside the list.\<close>

lemma write_debug_pairs:
  "foldR (write_debug_pair os i v control) ts s = Inr s' \<Longrightarrow> i < 4 \<Longrightarrow> dr_value v \<Longrightarrow> threads_ok s \<Longrightarrow> distinct ts \<Longrightarrow>
   set ts \<subseteq> fst ` set (pr_threads s) \<Longrightarrow>
   threads_ok s' \<and> map fst (pr_threads s') = map fst (pr_threads s) \<and> pr_current s' = pr_current s
     \<and> pr_sites s' = pr_sites s \<and> pr_watch s' = pr_watch s
     \<and> (\<forall>t\<in>set ts. t \<noteq> pr_current s \<longrightarrow> reads_as t i v control s s')
     \<and> (\<forall>t j. is_dr j \<longrightarrow> (t \<notin> set ts \<or> t = pr_current s) \<longrightarrow> read_reg (Some t) j s' = read_reg (Some t) j s)"
proof (induction ts arbitrary: s)
  case (Cons t ts)
  obtain s1 where s1: "write_debug_pair os i v control t s = Inr s1" "foldR (write_debug_pair os i v control) ts s1 = Inr s'"
    using Cons.prems(1) by (auto simp: rbind_eq_Inr)
  have dr: "is_dr (rid_dr0 + i)" "is_dr rid_dr7" "rid_dr0 + i \<noteq> rid_dr7" using Cons.prems(2) by (simp_all add: rid_dr0_def rid_dr7_def is_dr_def)
  have step: "threads_ok s1 \<and> map fst (pr_threads s1) = map fst (pr_threads s) \<and> pr_current s1 = pr_current s
      \<and> pr_sites s1 = pr_sites s \<and> pr_watch s1 = pr_watch s
      \<and> (t \<noteq> pr_current s \<longrightarrow> reads_as t i v control s s1)
      \<and> (\<forall>x j. is_dr j \<longrightarrow> (x \<noteq> t \<or> x = pr_current s) \<longrightarrow> read_reg (Some x) j s1 = read_reg (Some x) j s)"
  proof (cases "t = pr_current s")
    case True
    then show ?thesis using s1(1) Cons.prems(4) by (simp add: write_debug_pair_def)
  next
    case False
    then obtain u1 sa u2 where w: "write_reg os (Some t) (rid_dr0 + i) v s = Inr (u1, sa)"
        "write_reg os (Some t) rid_dr7 (VU64 control) sa = Inr (u2, s1)"
      using s1(1) by (auto simp: write_debug_pair_def rbind_eq_Inr)
    note e1 = write_reg_effect [OF w(1) dr(1) Cons.prems(3,4)]
    note e2 = write_reg_effect [OF w(2) dr(2) _ e1(1), simplified]
    have "t \<in> fst ` set (pr_threads sa)" using Cons.prems(6) e1(2) by (metis image_set list.set_intros(1) subsetD)
    then obtain c where "read_reg (Some t) rid_dr7 sa = Inr c" using thread_reads [OF e1(1) _ dr(2)] by blast
    then have "reads_as t i v control s s1"
      using e1(4) e2(4) e2(5) [OF dr(1), of t] dr(3) by (auto simp: reads_as_def)
    moreover have "read_reg (Some x) j s1 = read_reg (Some x) j s" if "is_dr j" "x \<noteq> t \<or> x = pr_current s" for x j
      using e1(5) [OF that(1), of x] e2(5) [OF that(1), of x] that(2) False by auto
    ultimately show ?thesis using e1(2,3,6,7) e2(1,2,3,6,7) False by simp
  qed
  have names: "fst ` set (pr_threads s1) = fst ` set (pr_threads s)" using step by (metis image_set)
  have ih: "threads_ok s' \<and> map fst (pr_threads s') = map fst (pr_threads s1) \<and> pr_current s' = pr_current s1
     \<and> pr_sites s' = pr_sites s1 \<and> pr_watch s' = pr_watch s1
     \<and> (\<forall>t\<in>set ts. t \<noteq> pr_current s1 \<longrightarrow> reads_as t i v control s1 s')
     \<and> (\<forall>t j. is_dr j \<longrightarrow> (t \<notin> set ts \<or> t = pr_current s1) \<longrightarrow> read_reg (Some t) j s' = read_reg (Some t) j s1)"
    using step Cons.prems names by (intro Cons.IH [OF s1(2)]) auto
  have "reads_as x i v control s s'" if x: "x \<in> set (t # ts)" "x \<noteq> pr_current s" for x
  proof (cases "x = t")
    case True
    then have "x \<notin> set ts" using Cons.prems(5) by simp
    then show ?thesis using ih step x(2) True dr(1,2) by (simp add: reads_as_def)
  next
    case False
    then have "reads_as x i v control s1 s'" using ih x step by auto
    then show ?thesis using step False dr(1) by (simp add: reads_as_def)
  qed
  then show ?case using ih step by auto
qed simp

lemma encode_mode_values: "encode_hardware_stoppoint_mode m \<in> {0, 1, 2, 3}"
  by (cases m) simp_all

lemma encode_size_values: "encode_hardware_stoppoint_size n = Inr z \<Longrightarrow> z \<in> {0, 1, 2, 3}"
  by (auto simp: encode_hardware_stoppoint_size_def split: if_splits)

text \<open>The pair written to the current thread and then, in the loop, to every other one.\<close>

lemma write_pair_everywhere:
  assumes w1: "write_reg os (Some (pr_current s)) (rid_dr0 + i) v s = Inr (u1, s1)"
    and w2: "write_reg os (Some (pr_current s1)) rid_dr7 (VU64 c) s1 = Inr (u2, s2)"
    and loop: "foldR (write_debug_pair os i v c) (map fst (pr_threads s2)) s2 = Inr s'"
    and ok: "threads_ok s" and dist: "distinct (map fst (pr_threads s))" and i: "i < 4" and v: "dr_value v"
    and t: "t \<in> fst ` set (pr_threads s)"
  shows "reads_as t i v c s s'"
proof -
  have dr: "is_dr (rid_dr0 + i)" "is_dr rid_dr7" "rid_dr0 + i \<noteq> rid_dr7" using i by (simp_all add: rid_dr0_def rid_dr7_def is_dr_def)
  note e1 = write_reg_effect [OF w1 dr(1) v ok]
  note e2 = write_reg_effect [OF w2 dr(2) dr_value_simps(1) e1(1)]
  have names: "map fst (pr_threads s2) = map fst (pr_threads s)" using e1(2) e2(2) by simp
  then have d: "distinct (map fst (pr_threads s2))" using dist by simp
  have "set (map fst (pr_threads s2)) \<subseteq> fst ` set (pr_threads s2)" by simp
  note pairs = write_debug_pairs [OF loop i v e2(1) d this]
  have "set (map fst (pr_threads s2)) = fst ` set (pr_threads s)" using names by (metis set_map)
  then have pairs1: "t \<noteq> pr_current s \<Longrightarrow> reads_as t i v c s2 s'"
      and pairs2: "is_dr j \<Longrightarrow> read_reg (Some (pr_current s)) j s' = read_reg (Some (pr_current s)) j s2" for j
    using pairs e1(3) e2(3) t by (simp_all only:) blast+
  show ?thesis
  proof (cases "t = pr_current s")
    case True
    obtain o2 where "read_reg (Some t) rid_dr7 s1 = Inr o2"
      using thread_reads [OF e1(1) _ dr(2), of t] t e1(2) by (metis set_map)
    then show ?thesis
      using e1(3,4) e2(4) e2(5) [OF dr(1), of t] dr pairs2 True by (auto simp: reads_as_def)
  next
    case False
    have "read_reg (Some t) (rid_dr0 + i) s2 = read_reg (Some t) (rid_dr0 + i) s"
      using e1(5) [OF dr(1), of t] e2(5) [OF dr(1), of t] dr(3) e1(3) False by auto
    then show ?thesis using pairs1 [OF False] by (simp add: reads_as_def)
  qed
qed

lemma current_is_thread: "read_reg None k s = Inr v \<Longrightarrow> pr_current s \<in> fst ` set (pr_threads s)"
  by (auto simp: read_reg_def get_registers_def tid_of_def thread_at_def map_at_def rbind_eq_Inr
      split: option.splits dest!: map_of_SomeD intro: rev_image_eqI)

lemma slot_cleared:
  assumes "i < 4"
  shows "slot_enable (dr7_clear c i) i = 0" and "slot_mode (dr7_clear c i) i = 0" and "slot_size (dr7_clear c i) i = 0"
  unfolding slot_defs by (rule field_eq_flag; use assms in \<open>auto simp: bit_dr7_clear slot_bits_def\<close>)+


lemma sample_undefined: "is_dr k \<Longrightarrow> is_undefined k (mk_registers sample_os 100) = Inr False"
  by (simp add: is_undefined_def register_info_by_id_nth is_dr_def mk_registers_def find_if_None)

lemma sample_threads_ok: "threads_ok sample_process"
  using zero_registers_inv sample_undefined [unfolded sample_registers]
  by (auto simp: threads_ok_def sample_process_threads mk_thread_def sample_registers regs_inv_def)

lemma sample_writes: "thread_at t s = Inr th \<Longrightarrow> is_dr k \<Longrightarrow> value_size v \<le> 8 \<Longrightarrow>
    \<exists>s'. write_reg sample_os (Some t) k v s = Inr ((), s')"
proof -
  assume a: "thread_at t s = Inr th" "is_dr k" "value_size v \<le> 8"
  obtain r' reqs where w: "write_by_id no_conv k v True (th_regs th) = Inr (r', reqs)"
    using a(2,3) by (auto simp: write_by_id_def register_info_by_id_nth is_dr_def reg_write_def dr_nth Let_def)
  have "\<exists>s2. send_user_req sample_os r s = Inr s2" for r s
    by (cases r) (simp_all add: write_user_area_def write_fprs_def write_gprs_def request_def sample_os_def)
  then obtain s2 where "foldR (send_user_req sample_os) reqs (update_thread t (\<lambda>th. th\<lparr>th_regs := r'\<rparr>) s) = Inr s2"
    using foldR_returns [of reqs "send_user_req sample_os" "update_thread t (\<lambda>th. th\<lparr>th_regs := r'\<rparr>) s"] by auto
  then show ?thesis using a(1) w
    by (simp add: write_reg_def get_registers_def tid_of_def Let_def) (simp add: sample_os_def)
qed

lemma sample_current: "pr_current sample_process = 100"
  by (simp add: sample_process_def mk_process_def populate_existing_threads_def sample_os_def add_thread_def has_thread_def)

lemma sample_dr7: "read_reg None rid_dr7 sample_process = Inr 0"
proof -
  have "reg_bytes (g_register_infos ! rid_dr7) (mk_registers sample_os 100) 8 = replicate 8 0"
    using info_ok_bound [OF dr_nth(3) [of rid_dr7]] dr_nth(2) [of rid_dr7]
    by (simp add: reg_bytes_def sample_registers zero_registers_def sizeof_user_def bytes_at_def)
  moreover note from_zero_bytes
  ultimately have "read_by_id_as_u64 rid_dr7 (mk_registers sample_os 100) = Inr 0"
    using dr_read [OF dr_ids(2) sample_undefined [OF dr_ids(2)]] by (simp only:)
  then show ?thesis
    by (simp add: read_reg_current sample_current read_reg_def get_registers_def tid_of_def thread_at_def map_at_def
        sample_process_threads mk_thread_def)
qed

lemma sample_pair:
  assumes "i < 4" and "dr_value v"
  shows "\<exists>s1 control. write_reg sample_os (Some 100) (rid_dr0 + i) v sample_process = Inr ((), s1) \<and> pr_current s1 = 100
     \<and> read_reg (Some 100) rid_dr7 s1 = Inr control
     \<and> (\<forall>c. \<exists>s2. write_reg sample_os (Some 100) rid_dr7 (VU64 c) s1 = Inr ((), s2)
          \<and> foldR (write_debug_pair sample_os i v c) (map fst (pr_threads s2)) s2 = Inr s2)"
proof -
  have th: "thread_at 100 sample_process = Inr (mk_thread sample_os 100)"
    by (simp add: thread_at_def map_at_def sample_process_threads)
  have dr: "is_dr (rid_dr0 + i)" using assms(1) by simp
  obtain s1 where w1: "write_reg sample_os (Some 100) (rid_dr0 + i) v sample_process = Inr ((), s1)"
    using sample_writes [OF th dr] assms(2) by (auto simp: dr_value_def)
  note e1 = write_reg_effect [OF w1 dr assms(2) sample_threads_ok]
  have names1: "map fst (pr_threads s1) = [100]" using e1(2) by (simp add: sample_process_threads)
  then have in1: "100 \<in> fst ` set (pr_threads s1)" by (metis image_set list.set_intros(1))
  obtain th1 where th1: "thread_at 100 s1 = Inr th1"
    using names1 by (cases "pr_threads s1") (auto simp: thread_at_def map_at_def)
  obtain control where control: "read_reg (Some 100) rid_dr7 s1 = Inr control" using thread_reads [OF e1(1) in1 dr_ids(2)] by blast
  have "\<exists>s2. write_reg sample_os (Some 100) rid_dr7 (VU64 c) s1 = Inr ((), s2)
      \<and> foldR (write_debug_pair sample_os i v c) (map fst (pr_threads s2)) s2 = Inr s2" for c
  proof -
    obtain s2 where w2: "write_reg sample_os (Some 100) rid_dr7 (VU64 c) s1 = Inr ((), s2)"
      using sample_writes [OF th1, of rid_dr7 "VU64 c"] by auto
    have "map fst (pr_threads s2) = [100]" "pr_current s2 = 100"
      using write_reg_effect(2,3) [OF w2 dr_ids(2) dr_value_simps(1) e1(1)] names1 e1(3) sample_current by simp_all
    then show ?thesis using w2 by (simp add: write_debug_pair_def)
  qed
  then show ?thesis using w1 control e1(3) sample_current by auto
qed

lemma sample_set: "\<exists>i s'. set_hardware_stoppoint sample_os (VirtAddr 0x404040) WriteMode 4 sample_process = Inr (i, s')"
proof -
  obtain s1 where w1: "write_reg sample_os (Some 100) rid_dr0 (VU64 0x404040) sample_process = Inr ((), s1)" "pr_current s1 = 100"
      and all: "\<forall>c. \<exists>s2. write_reg sample_os (Some 100) rid_dr7 (VU64 c) s1 = Inr ((), s2)
          \<and> foldR (write_debug_pair sample_os 0 (VU64 0x404040) c) (map fst (pr_threads s2)) s2 = Inr s2"
    using sample_pair [of 0 "VU64 0x404040"] by auto
  obtain s2 where w2: "write_reg sample_os (Some 100) rid_dr7 (VU64 (dr7_set 0 0 1 3)) s1 = Inr ((), s2)"
      "foldR (write_debug_pair sample_os 0 (VU64 0x404040) (dr7_set 0 0 1 3)) (map fst (pr_threads s2)) s2 = Inr s2"
    using all by blast
  have "find_free_stoppoint_region 0 = Inr 0" by (simp add: find_free_stoppoint_region_def)
  then show ?thesis
    using sample_dr7 w1 w2 by (simp add: set_hardware_stoppoint_def write_reg_current sample_current encode_hardware_stoppoint_size_def)
qed

lemma sample_clear: "\<exists>s'. clear_hardware_stoppoint sample_os (int 0) sample_process = Inr ((), s')"
proof -
  obtain s1 control where w1: "write_reg sample_os (Some 100) rid_dr0 (VI32 0) sample_process = Inr ((), s1)" "pr_current s1 = 100"
      "read_reg (Some 100) rid_dr7 s1 = Inr control"
      and all: "\<forall>c. \<exists>s2. write_reg sample_os (Some 100) rid_dr7 (VU64 c) s1 = Inr ((), s2)
          \<and> foldR (write_debug_pair sample_os 0 (VI32 0) c) (map fst (pr_threads s2)) s2 = Inr s2"
    using sample_pair [of 0 "VI32 0"] by auto
  obtain s2 where "write_reg sample_os (Some 100) rid_dr7 (VU64 (dr7_clear control 0)) s1 = Inr ((), s2)"
      "foldR (write_debug_pair sample_os 0 (VI32 0) (dr7_clear control 0)) (map fst (pr_threads s2)) s2 = Inr s2"
    using all by blast
  then show ?thesis
    using w1 by (simp add: clear_hardware_stoppoint_def write_reg_current read_reg_current sample_current)
qed


text \<open>
  Clearing a slot disables it in every thread and leaves the other slots alone, but only the
  lower half of its address register becomes zero.
\<close>

theorem clear_hardware_stoppoint_frees_slot:
  assumes run: "clear_hardware_stoppoint os (int i) s = Inr ((), s')" and i: "i < 4" and ok: "threads_ok s"
    and dist: "distinct (map fst (pr_threads s))" and control: "read_reg None rid_dr7 s = Inr control"
  shows "\<exists>c. slot_enable c i = 0 \<and> slot_mode c i = 0 \<and> slot_size c i = 0
     \<and> (\<forall>j<4. j \<noteq> i \<longrightarrow> slot_enable c j = slot_enable control j \<and> slot_mode c j = slot_mode control j
          \<and> slot_size c j = slot_size control j)
     \<and> (\<forall>t\<in>fst ` set (pr_threads s). read_reg (Some t) rid_dr7 s' = Inr c
          \<and> (\<forall>old. read_reg (Some t) (rid_dr0 + i) s = Inr old \<longrightarrow>
               read_reg (Some t) (rid_dr0 + i) s' = Inr (push_bit 32 (drop_bit 32 old))))"
proof -
  obtain control' s1 s2 where w1: "write_reg os (Some (pr_current s)) (rid_dr0 + i) (VI32 0) s = Inr ((), s1)"
      and r: "read_reg (Some (pr_current s1)) rid_dr7 s1 = Inr control'"
      and w2: "write_reg os (Some (pr_current s1)) rid_dr7 (VU64 (dr7_clear control' i)) s1 = Inr ((), s2)"
      and loop: "foldR (write_debug_pair os i (VI32 0) (dr7_clear control' i)) (map fst (pr_threads s2)) s2 = Inr s'"
    using run by (auto simp: clear_hardware_stoppoint_def rbind_eq_Inr Let_def write_reg_current read_reg_current)
  have dr: "is_dr (rid_dr0 + i)" "rid_dr0 + i \<noteq> rid_dr7" using i by (simp_all add: rid_dr0_def rid_dr7_def is_dr_def)
  note e1 = write_reg_effect [OF w1 dr(1) dr_value_simps(2) ok]
  have "control' = control"
    using r control e1(3) e1(5) [OF dr_ids(2), of "pr_current s"] dr(2) by (simp add: read_reg_current)
  then show ?thesis
    using slot_cleared [OF i, of control] slots_after_clear [OF i, of _ control]
      write_pair_everywhere [OF w1 w2 loop ok dist i dr_value_simps(2)]
    by (intro exI [of _ "dr7_clear control i"]) (auto simp: reads_as_def stored_int_zero)
qed

lemma clear_hardware_stoppoint_frees_slot_witness:
  "\<exists>s' c. clear_hardware_stoppoint sample_os (int 0) sample_process = Inr ((), s')
     \<and> slot_enable c 0 = 0 \<and> read_reg (Some 100) rid_dr7 s' = Inr c"
proof -
  obtain s' where run: "clear_hardware_stoppoint sample_os (int 0) sample_process = Inr ((), s')" using sample_clear by blast
  have dist: "distinct (map fst (pr_threads sample_process))" by (simp add: sample_process_threads)
  have t: "100 \<in> fst ` set (pr_threads sample_process)" by (simp add: sample_process_threads)
  from clear_hardware_stoppoint_frees_slot [OF run _ sample_threads_ok dist sample_dr7] t run show ?thesis by auto
qed

end
