(* ===== verification/KD_Memory.thy ===== *)
theory KD_Memory
  imports KD_Debugregs
begin

text \<open>
  The memory of the traced process and the stop points in it (\<open>src/process.cpp\<close>,
  \<open>src/breakpoint_site.cpp\<close>, \<open>src/watchpoint.cpp\<close>): reading in pages, writing in words,
  the traps a breakpoint puts into the code and how reading hides them.
\<close>

unbundle bit_operations_syntax

subsection \<open>Reading\<close>

lemma page_rest: "unat (a AND 0xfff :: u64) < 0x1000"
proof -
  have "a AND 0xfff \<le> 0xfff" by (rule word_and_le1)
  then have "unat (a AND 0xfff) \<le> unat (0xfff :: u64)" by (simp only: word_le_nat_alt)
  then show ?thesis by simp
qed

text \<open>The ranges of a read: each ends at the end of a page or with the read.\<close>

function read_chunks :: "u64 \<Rightarrow> nat \<Rightarrow> (u64 \<times> nat) list" where
  "read_chunks a amount =
     (if amount = 0 then []
      else let chunk = min amount (0x1000 - unat (a AND 0xfff)) in
           (a, chunk) # read_chunks (a + of_nat chunk) (amount - chunk))"
  by pat_completeness auto
termination
  by (relation "measure snd") (auto simp: page_rest)

declare read_chunks.simps [simp del]

definition read_memory :: "'k os \<Rightarrow> virt_addr \<Rightarrow> nat \<Rightarrow> ('k, 't) process \<Rightarrow> u8 list result" where
  "read_memory os a amount s =
     (case os_readv os (pr_pid s) (read_chunks (addr a) amount) (pr_os s) of
        None \<Rightarrow> Inl (SendErrno ''Could not read process memory!'')
      | Some bs \<Rightarrow> Inr (take amount (bs @ replicate amount 0)))"

definition restore_byte :: "virt_addr \<Rightarrow> breakpoint_site \<Rightarrow> u8 list \<Rightarrow> u8 list result" where
  "restore_byte a b memory =
     (if \<not> bs_enabled b \<or> bs_hardware b then Inr memory
      else let offset = unat (addr (va_sub (bs_address b) (addr a))) in
           if offset < length memory then Inr (memory[offset := bs_saved b]) else Inl (UB ''vector index''))"

definition read_memory_without_traps :: "'k os \<Rightarrow> virt_addr \<Rightarrow> nat \<Rightarrow> ('k, 't) process \<Rightarrow> u8 list result" where
  "read_memory_without_traps os a amount s =
     rbind (read_memory os a amount s) (\<lambda>memory.
     foldR (restore_byte a) (sp_get_in_region bs_in_range a (va_add a (of_nat amount)) (pr_sites s)) memory)"

subsection \<open>Writing\<close>

definition word_to_write :: "'k os \<Rightarrow> virt_addr \<Rightarrow> u8 list \<Rightarrow> nat \<Rightarrow> ('k, 't) process \<Rightarrow> u64 result" where
  "word_to_write os a data written s =
     (let remaining = length data - written in
      if 8 \<le> remaining then Inr (from_bytes (bytes_at written 8 data))
      else rbind (read_memory os (va_add a (of_nat written)) 8 s) (\<lambda>rd.
           Inr (from_bytes (drop written data @ drop remaining rd))))"

function write_from :: "'k os \<Rightarrow> virt_addr \<Rightarrow> u8 list \<Rightarrow> nat \<Rightarrow> ('k, 't) process \<Rightarrow> ('k, 't) process result" where
  "write_from os a data written s =
     (if written < length data
      then rbind (word_to_write os a data written s) (\<lambda>w.
           rbind (request ''Failed to write memory'' (os_pokedata os (pr_pid s) (addr a + of_nat written) w) s) (\<lambda>(_, s').
           write_from os a data (written + 8) s'))
      else Inr s)"
  by pat_completeness auto
termination
  by (relation "measure (\<lambda>(os, a, data, written, s). length data - written)") auto

declare write_from.simps [simp del]

definition write_memory :: "'k os \<Rightarrow> virt_addr \<Rightarrow> u8 list \<Rightarrow> (unit, 'k, 't) op" where
  "write_memory os a data s = rbind (write_from os a data 0 s) (\<lambda>s'. Inr ((), s'))"

subsection \<open>Breakpoint sites\<close>

definition trap_word :: "u64 \<Rightarrow> u8 \<Rightarrow> u64" where
  "trap_word data b = (data AND NOT 0xff) OR ucast b"

definition site_enable :: "'k os \<Rightarrow> breakpoint_site \<Rightarrow> (breakpoint_site, 'k, 't) op" where
  "site_enable os b s =
     (if bs_enabled b then Inr (b, s)
      else if bs_hardware b then
        rbind (set_hardware_breakpoint os (bs_id b) (bs_address b) s) (\<lambda>(i, s').
        Inr (b\<lparr>bs_index := int i, bs_enabled := True\<rparr>, s'))
      else case os_peekdata os (pr_pid s) (addr (bs_address b)) (pr_os s) of
          None \<Rightarrow> Inl (SendErrno ''Enabling breakpoint site failed!'')
        | Some data \<Rightarrow>
            rbind (request ''Enabling breakpoint site failed''
              (os_pokedata os (pr_pid s) (addr (bs_address b)) (trap_word data 0xcc)) s) (\<lambda>(_, s').
            Inr (b\<lparr>bs_saved := ucast (data AND 0xff), bs_enabled := True\<rparr>, s')))"

definition site_disable :: "'k os \<Rightarrow> breakpoint_site \<Rightarrow> (breakpoint_site, 'k, 't) op" where
  "site_disable os b s =
     (if \<not> bs_enabled b then Inr (b, s)
      else if bs_hardware b then
        rbind (clear_hardware_stoppoint os (bs_index b) s) (\<lambda>(_, s').
        Inr (b\<lparr>bs_index := - 1, bs_enabled := False\<rparr>, s'))
      else case os_peekdata os (pr_pid s) (addr (bs_address b)) (pr_os s) of
          None \<Rightarrow> Inl (SendErrno ''Disabling breakpoint site failed'')
        | Some data \<Rightarrow>
            rbind (request ''Disabling breakpoint site failed''
              (os_pokedata os (pr_pid s) (addr (bs_address b)) (trap_word data (bs_saved b))) s) (\<lambda>(_, s').
            Inr (b\<lparr>bs_enabled := False\<rparr>, s')))"

text \<open>The same on the site at a place of the process's collection.\<close>

definition at_site :: "(breakpoint_site \<Rightarrow> (breakpoint_site, 'k, 't) op) \<Rightarrow> nat \<Rightarrow> (unit, 'k, 't) op" where
  "at_site f k s = rbind (vec_idx (pr_sites s) k) (\<lambda>b. rbind (f b s) (\<lambda>(b', s').
     Inr ((), s'\<lparr>pr_sites := (pr_sites s')[k := b']\<rparr>)))"

definition create_breakpoint_site :: "u32 \<Rightarrow> int option \<Rightarrow> u32 \<Rightarrow> virt_addr \<Rightarrow> bool \<Rightarrow> bool \<Rightarrow> (nat, 'k, 't) op" where
  "create_breakpoint_site junk parent i a hw internal s =
     (if sp_contains_address bs_at_address a (pr_sites s)
      then Inl (Send ''Breakpoint site already created at address'')
      else Inr (length (pr_sites s),
             s\<lparr>pr_sites := sp_push (mk_breakpoint_site junk parent i a hw internal) (pr_sites s)\<rparr>))"

definition remove_site_by_address :: "'k os \<Rightarrow> virt_addr \<Rightarrow> (unit, 'k, 't) op" where
  "remove_site_by_address os a s =
     rbind (sp_remove_by_address bs_at_address (site_disable os) a (pr_sites s) s) (\<lambda>(sites, s').
     Inr ((), s'\<lparr>pr_sites := sites\<rparr>))"

subsection \<open>Watchpoints\<close>

text \<open>The new value is copied into a 64-bit variable, whatever the size.\<close>

definition watch_update_data :: "'k os \<Rightarrow> watchpoint \<Rightarrow> ('k, 't) process \<Rightarrow> watchpoint result" where
  "watch_update_data os w s =
     rbind (read_memory os (wp_address w) (unat (wp_size w)) s) (\<lambda>rd.
     if unat (wp_size w) \<le> 8 then Inr (w\<lparr>wp_previous := wp_data w, wp_data := from_bytes rd\<rparr>)
     else Inl (UB ''write beyond a variable''))"

definition mk_watchpoint :: "'k os \<Rightarrow> virt_addr \<Rightarrow> stoppoint_mode \<Rightarrow> u64 \<Rightarrow> (watchpoint, 'k, 't) op" where
  "mk_watchpoint os a mode sz s =
     (if addr a AND (sz - 1) \<noteq> 0 then Inl (Send ''Watchpoint must be aligned to size'')
      else let i = pr_next_watch s + 1; s' = s\<lparr>pr_next_watch := i\<rparr> in
        rbind (watch_update_data os \<lparr>wp_id = i, wp_address = a, wp_mode = mode, wp_size = sz, wp_enabled = False,
          wp_index = - 1, wp_data = 0, wp_previous = 0\<rparr> s') (\<lambda>w. Inr (w, s')))"

definition watch_enable :: "'k os \<Rightarrow> watchpoint \<Rightarrow> (watchpoint, 'k, 't) op" where
  "watch_enable os w s =
     (if wp_enabled w then Inr (w, s)
      else rbind (set_watchpoint os (wp_id w) (wp_address w) (wp_mode w) (wp_size w) s) (\<lambda>(i, s').
           Inr (w\<lparr>wp_index := int i, wp_enabled := True\<rparr>, s')))"

text \<open>The guard of \<open>disable\<close> tests for the enabled state, not for its absence.\<close>

definition watch_disable :: "'k os \<Rightarrow> watchpoint \<Rightarrow> (watchpoint, 'k, 't) op" where
  "watch_disable os w s =
     (if wp_enabled w then Inr (w, s)
      else rbind (clear_hardware_stoppoint os (wp_index w) s) (\<lambda>(_, s'). Inr (w\<lparr>wp_enabled := False\<rparr>, s')))"

definition at_watch :: "(watchpoint \<Rightarrow> (watchpoint, 'k, 't) op) \<Rightarrow> nat \<Rightarrow> (unit, 'k, 't) op" where
  "at_watch f k s = rbind (vec_idx (pr_watch s) k) (\<lambda>w. rbind (f w s) (\<lambda>(w', s').
     Inr ((), s'\<lparr>pr_watch := (pr_watch s')[k := w']\<rparr>)))"

definition create_watchpoint :: "'k os \<Rightarrow> virt_addr \<Rightarrow> stoppoint_mode \<Rightarrow> u64 \<Rightarrow> (nat, 'k, 't) op" where
  "create_watchpoint os a mode sz s =
     (if sp_contains_address wp_at_address a (pr_watch s)
      then Inl (Send ''Watchpoint already created at address'')
      else rbind (mk_watchpoint os a mode sz s) (\<lambda>(w, s').
           Inr (length (pr_watch s'), s'\<lparr>pr_watch := sp_push w (pr_watch s')\<rparr>)))"

subsection \<open>Chunks\<close>

lemma mem_range_append: "mem_range m (a, p + q) = mem_range m (a, p) @ mem_range m (a + of_nat p, q)"
  by (rule nth_equalityI) (auto simp: mem_range_def nth_append simp flip: of_nat_add)

lemma read_chunks_bytes: "concat (map (mem_range m) (read_chunks a n)) = mem_range m (a, n)"
proof (induction a n rule: read_chunks.induct)
  case (1 a n)
  show ?case
  proof (cases "n = 0")
    case False
    define c where "c = min n (0x1000 - unat (a AND 0xfff))"
    have "mem_range m (a, n) = mem_range m (a, c) @ mem_range m (a + of_nat c, n - c)"
      using mem_range_append [of m a c "n - c"] by (simp add: c_def)
    then show ?thesis using "1.IH" [OF False c_def] False
      by (subst read_chunks.simps) (simp add: Let_def c_def [symmetric])
  qed (simp add: read_chunks.simps mem_range_def)
qed

lemma read_chunks_within_pages:
  "(b, c) \<in> set (read_chunks a n) \<Longrightarrow> 0 < c \<and> unat (b AND 0xfff) + c \<le> 0x1000"
proof (induction a n rule: read_chunks.induct)
  case (1 a n)
  show ?case
  proof (cases "n = 0")
    case False
    define k where "k = min n (0x1000 - unat (a AND 0xfff))"
    have "(b, c) = (a, k) \<or> (b, c) \<in> set (read_chunks (a + of_nat k) (n - k))"
      using "1.prems" False by (subst (asm) read_chunks.simps) (auto simp: Let_def k_def)
    then show ?thesis using "1.IH" [OF False k_def] False page_rest [of a] by (auto simp: k_def)
  qed (use "1.prems" in \<open>simp add: read_chunks.simps\<close>)
qed

subsection \<open>What the kernel promises about memory\<close>

text \<open>
  \<open>mem\<close> gives the bytes of the process in a state of the kernel: a peek reads a word of it, a
  poke replaces one, a vectored read that succeeds returns the bytes of its ranges, and setting
  registers leaves the memory alone.
\<close>

definition memory_of :: "'k os \<Rightarrow> int \<Rightarrow> ('k \<Rightarrow> u64 \<Rightarrow> u8) \<Rightarrow> bool" where
  "memory_of os pid mem \<longleftrightarrow>
     (\<forall>a k w. os_peekdata os pid a k = Some w \<longrightarrow> w = mem_word (mem k) a)
     \<and> (\<forall>a w k k'. os_pokedata os pid a w k = Some k' \<longrightarrow> mem k' = mem_store a w (mem k))
     \<and> (\<forall>rs k bs. os_readv os pid rs k = Some bs \<longrightarrow> bs = concat (map (mem_range (mem k)) rs))
     \<and> (\<forall>off w k k'. os_pokeuser os pid off w k = Some k' \<longrightarrow> mem k' = mem k)
     \<and> (\<forall>bs k k'. os_setfpregs os pid bs k = Some k' \<longrightarrow> mem k' = mem k)
     \<and> (\<forall>bs k k'. os_setregs os pid bs k = Some k' \<longrightarrow> mem k' = mem k)"

lemma memory_ofD:
  assumes "memory_of os pid mem"
  shows "os_peekdata os pid a k = Some w \<Longrightarrow> w = mem_word (mem k) a"
    and "os_pokedata os pid a w k = Some k' \<Longrightarrow> mem k' = mem_store a w (mem k)"
    and "os_readv os pid rs k = Some bs \<Longrightarrow> bs = concat (map (mem_range (mem k)) rs)"
    and "os_pokeuser os pid off v k = Some k' \<Longrightarrow> mem k' = mem k"
    and "os_setfpregs os pid bs k = Some k' \<Longrightarrow> mem k' = mem k"
    and "os_setregs os pid bs k = Some k' \<Longrightarrow> mem k' = mem k"
  using assms unfolding memory_of_def by blast+

lemma length_mem_range [simp]: "length (mem_range m r) = snd r"
  by (simp add: mem_range_def)

lemma read_memory_bytes:
  "memory_of os (pr_pid s) mem \<Longrightarrow> read_memory os a n s = Inr bs \<Longrightarrow> bs = mem_range (mem (pr_os s)) (addr a, n)"
  by (auto simp: read_memory_def read_chunks_bytes split: option.splits dest: memory_ofD(3))

lemma sample_memory: "memory_of sample_os pid (\<lambda>k. k)"
  by (auto simp: memory_of_def sample_os_def)

subsection \<open>Words\<close>

lemma as_bytes_mem_word: "as_bytes (mem_word m a) = map (\<lambda>i. m (a + of_nat i)) [0..<8]"
  by (simp add: mem_word_def as_from_bytes)

lemma ucast_drop_trap:
  assumes "i < 8"
  shows "(ucast (drop_bit (8 * i) (trap_word w b)) :: u8) = (if i = 0 then b else ucast (drop_bit (8 * i) w))"
proof (rule bit_word_eqI)
  fix n assume "n < LENGTH(8)"
  then have n: "n < 8" by simp
  have ff: "bit (0xff :: int) k \<longleftrightarrow> k < 8" for k
  proof -
    have m: "(0xff :: int) = mask 8" by (simp add: mask_eq_exp_minus_1)
    show ?thesis unfolding m by (auto simp: bit_mask_iff)
  qed
  have "8 * i + n < 64" using assms n by arith
  then show "bit (ucast (drop_bit (8 * i) (trap_word w b)) :: u8) n = bit (if i = 0 then b else ucast (drop_bit (8 * i) w)) n"
    using n by (auto simp: trap_word_def bit_simps ff dest: bit_imp_le_length)
qed

text \<open>Poking a word that differs from the one peeked in its lowest byte changes one byte of memory.\<close>

lemma mem_store_trap: "mem_store a (trap_word (mem_word m a) b) m = m(a := b)"
proof
  fix x
  show "mem_store a (trap_word (mem_word m a) b) m x = (m(a := b)) x"
  proof (cases "unat (x - a) < 8")
    case True
    let ?i = "unat (x - a)"
    have x: "x = a + of_nat ?i" by simp
    have "as_bytes (trap_word (mem_word m a) b) ! ?i = (if ?i = 0 then b else ucast (drop_bit (8 * ?i) (mem_word m a)))"
      using True ucast_drop_trap [OF True, of "mem_word m a" b] by (simp add: nth_as_bytes)
    also have "ucast (drop_bit (8 * ?i) (mem_word m a)) = m (a + of_nat ?i)"
      using True arg_cong [OF as_bytes_mem_word [of m a], of "\<lambda>bs. bs ! ?i"] by (simp add: nth_as_bytes)
    finally show ?thesis using True by (auto simp: mem_store_def unat_eq_0)
  next
    case False
    then have "x \<noteq> a" by auto
    then show ?thesis using False by (simp add: mem_store_def)
  qed
qed

lemma saved_byte: "(ucast (mem_word m a AND 0xff) :: u8) = m a"
proof -
  have "(ucast (mem_word m a AND 0xff) :: u8) = ucast (mem_word m a)"
  proof (rule bit_word_eqI)
    fix n assume "n < LENGTH(8)"
    have m: "(0xff :: u64) = mask 8" by (simp add: mask_eq_exp_minus_1)
    show "bit (ucast (mem_word m a AND 0xff) :: u8) n = bit (ucast (mem_word m a) :: u8) n"
      using \<open>n < LENGTH(8)\<close> unfolding m by (simp add: bit_simps)
  qed
  also have "\<dots> = as_bytes (mem_word m a) ! 0" by (simp add: nth_as_bytes)
  also have "\<dots> = m a" by (simp add: as_bytes_mem_word)
  finally show ?thesis .
qed

subsection \<open>Overwriting a range\<close>

definition overwrite :: "u64 \<Rightarrow> u8 list \<Rightarrow> (u64 \<Rightarrow> u8) \<Rightarrow> u64 \<Rightarrow> u8" where
  "overwrite a bs m = (\<lambda>x. if unat (x - a) < length bs then bs ! unat (x - a) else m x)"

lemma overwrite_Nil [simp]: "overwrite a [] m = m"
  by (simp add: overwrite_def)

lemma mem_store_overwrite: "mem_store a w m = overwrite a (as_bytes w) m"
  by (rule ext) (simp add: mem_store_def overwrite_def)

lemma unat_sub_of_nat:
  assumes "p < 2 ^ 64"
  shows "unat (y - of_nat p :: u64) = (if p \<le> unat y then unat y - p else unat y + 2 ^ 64 - p)"
proof -
  have "unat (of_nat p :: u64) = p" using assms by (simp add: unat_of_nat)
  then show ?thesis using unat_sub_if' [of y "of_nat p"] by simp
qed

lemma overwrite_append:
  assumes "length xs + length ys \<le> 2 ^ 64"
  shows "overwrite (a + of_nat (length xs)) ys (overwrite a xs m) = overwrite a (xs @ ys) m"
proof (cases "ys = []")
  case False
  show ?thesis
  proof
    fix x
    have p: "length xs < 2 ^ 64" using False assms by (cases ys) auto
    have e: "x - (a + of_nat (length xs)) = (x - a) - of_nat (length xs)" by (simp add: algebra_simps)
    have u: "unat (x - (a + of_nat (length xs))) =
        (if length xs \<le> unat (x - a) then unat (x - a) - length xs else unat (x - a) + 2 ^ 64 - length xs)"
      unfolding e by (rule unat_sub_of_nat [OF p])
    show "overwrite (a + of_nat (length xs)) ys (overwrite a xs m) x = overwrite a (xs @ ys) m x"
      using assms by (auto simp: overwrite_def u nth_append)
  qed
qed simp

lemma overwrite_same:
  assumes "length bs + n \<le> 2 ^ 64"
  shows "overwrite a (bs @ mem_range m (a + of_nat (length bs), n)) m = overwrite a bs m"
proof
  fix x
  have "mem_range m (a + of_nat (length bs), n) ! (unat (x - a) - length bs) = m x"
    if "length bs \<le> unat (x - a)" "unat (x - a) < length bs + n"
  proof -
    have "of_nat (length bs) + of_nat (unat (x - a) - length bs) = (of_nat (unat (x - a)) :: u64)"
      using that(1) by (metis le_add_diff_inverse of_nat_add)
    then have "a + of_nat (length bs) + of_nat (unat (x - a) - length bs) = x"
      by (simp add: add.assoc)
    then show ?thesis using that by (simp add: mem_range_def)
  qed
  then show "overwrite a (bs @ mem_range m (a + of_nat (length bs), n)) m x = overwrite a bs m x"
    by (auto simp: overwrite_def nth_append)
qed

lemma word_to_write_bytes:
  assumes law: "memory_of os (pr_pid s) mem" and w: "word_to_write os a data written s = Inr w" and lt: "written < length data"
    and bound: "length data + 8 \<le> 2 ^ 64"
  shows "overwrite (addr a + of_nat written) (as_bytes w) (mem (pr_os s))
    = overwrite (addr a + of_nat written) (take 8 (drop written data)) (mem (pr_os s))"
proof (cases "8 \<le> length data - written")
  case True
  then have "length (take 8 (drop written data)) = 8" by simp
  then have "as_bytes w = take 8 (drop written data)" using w True by (auto simp: word_to_write_def bytes_at_def as_from_bytes)
  then show ?thesis by simp
next
  case False
  define rest where "rest = length data - written"
  have rest: "length (drop written data) = rest" "rest < 8" using False by (simp_all add: rest_def)
  obtain rd where rd: "read_memory os (va_add a (of_nat written)) 8 s = Inr rd" "w = from_bytes (drop written data @ drop rest rd)"
    using w False by (auto simp: word_to_write_def rbind_eq_Inr rest_def Let_def)
  have m: "rd = mem_range (mem (pr_os s)) (addr a + of_nat written, rest + (8 - rest))"
    using read_memory_bytes [OF law rd(1)] rest(2) by simp
  have "drop rest rd = mem_range (mem (pr_os s)) (addr a + of_nat written + of_nat rest, 8 - rest)"
    unfolding m mem_range_append by simp
  then have "as_bytes w = drop written data @ mem_range (mem (pr_os s)) (addr a + of_nat written + of_nat (length (drop written data)), 8 - rest)"
    using rd(2) rest by (simp add: as_from_bytes)
  then show ?thesis
    using overwrite_same [of "drop written data" "8 - rest" "addr a + of_nat written" "mem (pr_os s)"] rest bound by simp
qed

lemma write_from_memory:
  "write_from os a data written s = Inr s' \<Longrightarrow> memory_of os (pr_pid s) mem \<Longrightarrow> length data + 8 \<le> 2 ^ 64 \<Longrightarrow>
   mem (pr_os s) = overwrite (addr a) (take written data) m \<Longrightarrow>
   mem (pr_os s') = overwrite (addr a) data m \<and> s' = s\<lparr>pr_os := pr_os s'\<rparr>"
proof (induction os a data written s rule: write_from.induct)
  case (1 os a data written s)
  show ?case
  proof (cases "written < length data")
    case True
    obtain w k where w: "word_to_write os a data written s = Inr w"
        and k: "os_pokedata os (pr_pid s) (addr a + of_nat written) w (pr_os s) = Some k"
        and rest: "write_from os a data (written + 8) (s\<lparr>pr_os := k\<rparr>) = Inr s'"
      using "1.prems"(1) True by (subst (asm) write_from.simps) (auto simp: rbind_eq_Inr request_Inr)
    have req: "request ''Failed to write memory'' (os_pokedata os (pr_pid s) (addr a + of_nat written) w) s = Inr ((), s\<lparr>pr_os := k\<rparr>)"
      using k by (simp add: request_def)
    have len: "length (take written data) = written" using True by simp
    have "mem k = overwrite (addr a + of_nat written) (take 8 (drop written data)) (overwrite (addr a) (take written data) m)"
      using memory_ofD(2) [OF "1.prems"(2) k] word_to_write_bytes [OF "1.prems"(2) w True "1.prems"(3)] "1.prems"(4)
      by (simp add: mem_store_overwrite)
    also have "\<dots> = overwrite (addr a) (take written data @ take 8 (drop written data)) m"
      using overwrite_append [of "take written data" "take 8 (drop written data)" "addr a" m] True "1.prems"(3)
      by (simp add: min_def)
    also have "take written data @ take 8 (drop written data) = take (written + 8) data" by (simp add: take_add)
    finally show ?thesis using "1.IH" [OF True w req, of "()" "s\<lparr>pr_os := k\<rparr>"] rest "1.prems"(2,3) by simp
  next
    case False
    then show ?thesis using "1.prems" by (simp add: write_from.simps)
  qed
qed

subsection \<open>Traps\<close>

definition soft :: "breakpoint_site \<Rightarrow> bool" where
  "soft b \<longleftrightarrow> bs_enabled b \<and> \<not> bs_hardware b"

text \<open>
  \<open>code\<close> are the bytes the program would have without the debugger: where a software site is
  enabled the memory holds the trap and the site the byte of the program, elsewhere they agree.
\<close>

definition traps_inv :: "(u64 \<Rightarrow> u8) \<Rightarrow> (u64 \<Rightarrow> u8) \<Rightarrow> breakpoint_site list \<Rightarrow> bool" where
  "traps_inv m code sites \<longleftrightarrow> distinct (map bs_address sites)
     \<and> (\<forall>b\<in>set sites. soft b \<longrightarrow> m (addr (bs_address b)) = 0xcc \<and> bs_saved b = code (addr (bs_address b)))
     \<and> (\<forall>x. (\<forall>b\<in>set sites. soft b \<longrightarrow> addr (bs_address b) \<noteq> x) \<longrightarrow> m x = code x)"

definition same_memory :: "('k \<Rightarrow> u64 \<Rightarrow> u8) \<Rightarrow> ('k, 't) process \<Rightarrow> ('k, 't) process \<Rightarrow> bool" where
  "same_memory mem s s' \<longleftrightarrow> pr_sites s' = pr_sites s \<and> pr_pid s' = pr_pid s \<and> mem (pr_os s') = mem (pr_os s)"

lemma same_memory_refl [simp]: "same_memory mem s s"
  by (simp add: same_memory_def)

lemma same_memory_trans: "same_memory mem s s1 \<Longrightarrow> same_memory mem s1 s2 \<Longrightarrow> same_memory mem s s2"
  by (simp add: same_memory_def)

lemma foldR_same_memory:
  assumes "foldR f xs s = Inr s'" and "memory_of os (pr_pid s) mem"
    and "\<And>x s s'. memory_of os (pr_pid s) mem \<Longrightarrow> f x s = Inr s' \<Longrightarrow> same_memory mem s s'"
  shows "same_memory mem s s'"
proof (rule foldR_invariant [OF assms(1), of "same_memory mem s"])
  fix x s1 s2 assume one: "same_memory mem s s1" and f: "f x s1 = Inr s2"
  then have "memory_of os (pr_pid s1) mem" using assms(2) by (simp add: same_memory_def)
  from same_memory_trans [OF one assms(3) [OF this f]] show "same_memory mem s s2" .
qed simp

lemma send_user_req_same: "memory_of os (pr_pid s) mem \<Longrightarrow> send_user_req os r s = Inr s' \<Longrightarrow> same_memory mem s s'"
  by (cases r) (auto simp: rbind_eq_Inr write_user_area_def write_fprs_def write_gprs_def request_Inr same_memory_def
      dest: memory_ofD(4-6))

lemma write_reg_same: "memory_of os (pr_pid s) mem \<Longrightarrow> write_reg os otid k v s = Inr (u, s') \<Longrightarrow> same_memory mem s s'"
  by (auto simp: write_reg_def rbind_eq_Inr Let_def same_memory_def dest!: foldR_same_memory [where mem = mem and os = os]
      dest: send_user_req_same)

lemma write_debug_pair_same: "memory_of os (pr_pid s) mem \<Longrightarrow> write_debug_pair os i v c t s = Inr s' \<Longrightarrow> same_memory mem s s'"
proof -
  assume a: "memory_of os (pr_pid s) mem" "write_debug_pair os i v c t s = Inr s'"
  show ?thesis
  proof (cases "t = pr_current s")
    case False
    then obtain u1 u2 s1 where w: "write_reg os (Some t) (rid_dr0 + i) v s = Inr (u1, s1)"
        "write_reg os (Some t) rid_dr7 (VU64 c) s1 = Inr (u2, s')"
      using a(2) by (auto simp: write_debug_pair_def rbind_eq_Inr)
    have one: "same_memory mem s s1" using write_reg_same [OF a(1) w(1)] .
    then have "memory_of os (pr_pid s1) mem" using a(1) by (simp add: same_memory_def)
    from same_memory_trans [OF one write_reg_same [OF this w(2)]] show ?thesis .
  qed (use a(2) in \<open>simp add: write_debug_pair_def\<close>)
qed

lemma write_two_same:
  assumes law: "memory_of os (pr_pid s) mem" and "write_reg os o1 k1 v1 s = Inr (u1, s1)" and "write_reg os o2 k2 v2 s1 = Inr (u2, s2)"
    and "foldR (write_debug_pair os i v c) ts s2 = Inr s3"
  shows "same_memory mem s s3"
proof -
  have one: "same_memory mem s s1" using write_reg_same [OF law assms(2)] .
  then have l1: "memory_of os (pr_pid s1) mem" using law by (simp add: same_memory_def)
  have two: "same_memory mem s1 s2" using write_reg_same [OF l1 assms(3)] .
  then have l2: "memory_of os (pr_pid s2) mem" using l1 by (simp add: same_memory_def)
  have "same_memory mem s2 s3" by (rule foldR_same_memory [OF assms(4) l2]) (rule write_debug_pair_same)
  with one two show ?thesis by (blast intro: same_memory_trans)
qed

lemma set_hardware_stoppoint_same:
  "memory_of os (pr_pid s) mem \<Longrightarrow> set_hardware_stoppoint os a m z s = Inr (i, s') \<Longrightarrow> same_memory mem s s'"
  by (auto simp: set_hardware_stoppoint_def rbind_eq_Inr Let_def intro: write_two_same)

lemma clear_hardware_stoppoint_same:
  "memory_of os (pr_pid s) mem \<Longrightarrow> clear_hardware_stoppoint os i s = Inr (u, s') \<Longrightarrow> same_memory mem s s'"
  by (auto simp: clear_hardware_stoppoint_def rbind_eq_Inr Let_def split: if_splits intro: write_two_same)

text \<open>The effect of the two operations of a site on the memory and on the other sites.\<close>

lemma site_enable_effect:
  assumes "memory_of os (pr_pid s) mem" and "site_enable os b s = Inr (b', s')"
  shows "pr_sites s' = pr_sites s \<and> pr_pid s' = pr_pid s \<and> bs_address b' = bs_address b \<and> bs_hardware b' = bs_hardware b \<and> bs_enabled b'
    \<and> mem (pr_os s') = (if bs_enabled b \<or> bs_hardware b then mem (pr_os s) else (mem (pr_os s))(addr (bs_address b) := 0xcc))
    \<and> bs_saved b' = (if bs_enabled b \<or> bs_hardware b then bs_saved b else mem (pr_os s) (addr (bs_address b)))"
proof -
  consider "bs_enabled b" | "\<not> bs_enabled b" "bs_hardware b" | "\<not> bs_enabled b" "\<not> bs_hardware b" by blast
  then show ?thesis
  proof cases
    case 1
    then show ?thesis using assms(2) by (simp add: site_enable_def)
  next
    case 2
    then show ?thesis using assms(2) set_hardware_stoppoint_same [OF assms(1)]
      by (auto simp: site_enable_def rbind_eq_Inr set_hardware_breakpoint_def same_memory_def)
  next
    case 3
    then obtain w k where w: "os_peekdata os (pr_pid s) (addr (bs_address b)) (pr_os s) = Some w"
        and k: "os_pokedata os (pr_pid s) (addr (bs_address b)) (trap_word w 0xcc) (pr_os s) = Some k"
        and r: "s' = s\<lparr>pr_os := k\<rparr>" "b' = b\<lparr>bs_saved := ucast (w AND 0xff), bs_enabled := True\<rparr>"
      using assms(2) by (auto simp: site_enable_def rbind_eq_Inr request_Inr split: option.splits)
    note mem = memory_ofD(1) [OF assms(1) w] memory_ofD(2) [OF assms(1) k]
    show ?thesis using mem 3 by (simp add: r mem_store_trap saved_byte)
  qed
qed

lemma site_disable_effect:
  assumes "memory_of os (pr_pid s) mem" and "site_disable os b s = Inr (b', s')"
  shows "pr_sites s' = pr_sites s \<and> pr_pid s' = pr_pid s \<and> bs_address b' = bs_address b \<and> bs_hardware b' = bs_hardware b \<and> \<not> bs_enabled b'
    \<and> mem (pr_os s') = (if soft b then (mem (pr_os s))(addr (bs_address b) := bs_saved b) else mem (pr_os s))"
proof -
  consider "\<not> bs_enabled b" | "bs_enabled b" "bs_hardware b" | "bs_enabled b" "\<not> bs_hardware b" by blast
  then show ?thesis
  proof cases
    case 1
    then show ?thesis using assms(2) by (simp add: site_disable_def soft_def)
  next
    case 2
    then show ?thesis using assms(2) clear_hardware_stoppoint_same [OF assms(1)]
      by (auto simp: site_disable_def rbind_eq_Inr soft_def same_memory_def)
  next
    case 3
    then obtain w k where w: "os_peekdata os (pr_pid s) (addr (bs_address b)) (pr_os s) = Some w"
        and k: "os_pokedata os (pr_pid s) (addr (bs_address b)) (trap_word w (bs_saved b)) (pr_os s) = Some k"
        and r: "s' = s\<lparr>pr_os := k\<rparr>" "b' = b\<lparr>bs_enabled := False\<rparr>"
      using assms(2) by (auto simp: site_disable_def rbind_eq_Inr request_Inr split: option.splits)
    note mem = memory_ofD(1) [OF assms(1) w] memory_ofD(2) [OF assms(1) k]
    show ?thesis using mem 3 by (simp add: r mem_store_trap soft_def)
  qed
qed

lemma distinct_address_update:
  assumes "distinct (map bs_address sites)" and "k < length sites" and "bs_address b = bs_address (sites ! k)"
  shows "distinct (map bs_address (sites[k := b]))"
  using assms by (simp add: map_update [of bs_address] list_update_same_conv [THEN iffD2])

lemma other_site:
  assumes "distinct (map bs_address sites)" and "k < length sites" and "b \<in> set (sites[k := b'])" and "b \<noteq> b'"
  shows "b \<in> set sites" and "bs_address b \<noteq> bs_address (sites ! k)"
proof -
  obtain j where j: "j < length sites" "b = sites[k := b'] ! j" using assms(3) by (metis in_set_conv_nth length_list_update)
  then have "j \<noteq> k" using assms(2,4) by auto
  then show "b \<in> set sites" "bs_address b \<noteq> bs_address (sites ! k)"
    using j nth_eq_iff_index_eq [OF assms(1), of j k] assms(2) by auto
qed

lemma soft_unique:
  assumes "distinct (map bs_address sites)" and "k < length sites" and "b \<in> set sites" and "bs_address b = bs_address (sites ! k)"
  shows "b = sites ! k"
  using assms by (metis (no_types) in_set_conv_nth length_map nth_eq_iff_index_eq nth_map)

lemma traps_inv_enable:
  assumes inv: "traps_inv m code sites" and k: "k < length sites" and fresh: "\<not> soft (sites ! k)"
    and b': "bs_address b' = bs_address (sites ! k)" "soft b'" "bs_saved b' = m (addr (bs_address (sites ! k)))"
  shows "traps_inv (m(addr (bs_address (sites ! k)) := 0xcc)) code (sites[k := b'])"
proof -
  let ?a = "addr (bs_address (sites ! k))"
  have d: "distinct (map bs_address sites)" using inv by (simp add: traps_inv_def)
  have "\<forall>b\<in>set sites. soft b \<longrightarrow> addr (bs_address b) \<noteq> ?a"
    using soft_unique [OF d k] fresh by (metis virt_addr.expand)
  then have saved: "bs_saved b' = code ?a" using inv b'(3) by (simp add: traps_inv_def)
  show ?thesis unfolding traps_inv_def
  proof (intro conjI ballI allI impI)
    show "distinct (map bs_address (sites[k := b']))" using distinct_address_update [OF d k b'(1)] .
  next
    fix b assume b: "b \<in> set (sites[k := b'])" and sb: "soft b"
    show "(m(?a := 0xcc)) (addr (bs_address b)) = 0xcc"
      using inv other_site [OF d k b] b' sb by (cases "b = b'") (auto simp: traps_inv_def)
    show "bs_saved b = code (addr (bs_address b))"
      using inv other_site [OF d k b] b' sb saved by (cases "b = b'") (auto simp: traps_inv_def)
  next
    fix x assume x: "\<forall>b\<in>set (sites[k := b']). soft b \<longrightarrow> addr (bs_address b) \<noteq> x"
    have "b' \<in> set (sites[k := b'])" using k by (simp add: set_update_memI)
    then have "?a \<noteq> x" using x b' by auto
    moreover have "\<forall>b\<in>set sites. soft b \<longrightarrow> addr (bs_address b) \<noteq> x"
    proof (intro ballI impI)
      fix b assume "b \<in> set sites" "soft b"
      then obtain j where "j < length sites" "b = sites ! j" "j \<noteq> k" using fresh by (metis in_set_conv_nth)
      then have "b \<in> set (sites[k := b'])" by (metis length_list_update nth_list_update_neq nth_mem)
      then show "addr (bs_address b) \<noteq> x" using x \<open>soft b\<close> by blast
    qed
    ultimately show "(m(?a := 0xcc)) x = code x" using inv by (simp add: traps_inv_def)
  qed
qed

lemma traps_inv_drop:
  assumes inv: "traps_inv m code sites" and sub: "set sites' \<subseteq> insert b' (set sites - {c})" and d': "distinct (map bs_address sites')"
    and c: "c \<in> set sites" and keep: "set sites - {c} \<subseteq> set sites'" and b': "\<not> soft b'"
  shows "traps_inv (if soft c then m(addr (bs_address c) := bs_saved c) else m) code sites'"
proof -
  have d: "distinct (map bs_address sites)" using inv by (simp add: traps_inv_def)
  have others: "addr (bs_address b) \<noteq> addr (bs_address c)" if "b \<in> set sites" "b \<noteq> c" for b
    using d that c by (metis inj_onD distinct_map virt_addr.expand)
  show ?thesis unfolding traps_inv_def
  proof (intro conjI ballI allI impI)
    fix b assume "b \<in> set sites'" and "soft b"
    then have b: "b \<in> set sites" "b \<noteq> c" using sub b' by auto
    then show "(if soft c then m(addr (bs_address c) := bs_saved c) else m) (addr (bs_address b)) = 0xcc"
        "bs_saved b = code (addr (bs_address b))"
      using inv others [OF b] \<open>soft b\<close> by (simp_all add: traps_inv_def)
  next
    fix x assume x: "\<forall>b\<in>set sites'. soft b \<longrightarrow> addr (bs_address b) \<noteq> x"
    then have "\<forall>b\<in>set sites. b \<noteq> c \<longrightarrow> soft b \<longrightarrow> addr (bs_address b) \<noteq> x" using keep by auto
    then show "(if soft c then m(addr (bs_address c) := bs_saved c) else m) x = code x"
      using inv c by (cases "soft c \<and> addr (bs_address c) = x") (auto simp: traps_inv_def)
  qed (rule d')
qed

lemma traps_inv_same:
  assumes "traps_inv m code sites" and "k < length sites" and "bs_address b' = bs_address (sites ! k)" and "\<not> soft (sites ! k)" and "\<not> soft b'"
  shows "traps_inv m code (sites[k := b'])"
proof -
  have d: "distinct (map bs_address sites)" using assms(1) by (simp add: traps_inv_def)
  have "set (sites[k := b']) \<subseteq> insert b' (set sites - {sites ! k}) "
    using other_site [OF d assms(2)] by auto
  moreover have "set sites - {sites ! k} \<subseteq> set (sites[k := b'])"
    by (auto simp: in_set_conv_nth) (metis length_list_update nth_list_update_neq)
  ultimately show ?thesis
    using traps_inv_drop [OF assms(1), of "sites[k := b']" b' "sites ! k"] distinct_address_update [OF d assms(2,3)] assms(2,4,5) by simp
qed

subsection \<open>Runs of the operations on sites\<close>

text \<open>
  One operation on the process, with the bytes its program has without the debugger. A write of
  memory changes those bytes; it is a step when no enabled software site lies in its range.
\<close>

inductive trap_step :: "'k os \<Rightarrow> ('k, 't) process \<times> (u64 \<Rightarrow> u8) \<Rightarrow> ('k, 't) process \<times> (u64 \<Rightarrow> u8) \<Rightarrow> bool" for os where
  trap_enable: "at_site (site_enable os) k s = Inr ((), s') \<Longrightarrow> trap_step os (s, code) (s', code)"
| trap_disable: "at_site (site_disable os) k s = Inr ((), s') \<Longrightarrow> trap_step os (s, code) (s', code)"
| trap_create: "create_breakpoint_site junk parent i a hw internal s = Inr (k, s') \<Longrightarrow> trap_step os (s, code) (s', code)"
| trap_remove: "remove_site_by_address os a s = Inr ((), s') \<Longrightarrow> trap_step os (s, code) (s', code)"
| trap_register: "write_reg os otid r v s = Inr ((), s') \<Longrightarrow> trap_step os (s, code) (s', code)"
| trap_write: "write_memory os a data s = Inr ((), s') \<Longrightarrow> length data + 8 \<le> 2 ^ 64 \<Longrightarrow>
    (\<And>b. b \<in> set (pr_sites s) \<Longrightarrow> soft b \<Longrightarrow> length data \<le> unat (addr (bs_address b) - addr a)) \<Longrightarrow>
    trap_step os (s, code) (s', overwrite (addr a) data code)"

definition trap_state_ok :: "'k os \<Rightarrow> ('k \<Rightarrow> u64 \<Rightarrow> u8) \<Rightarrow> ('k, 't) process \<times> (u64 \<Rightarrow> u8) \<Rightarrow> bool" where
  "trap_state_ok os mem st \<longleftrightarrow> memory_of os (pr_pid (fst st)) mem \<and> traps_inv (mem (pr_os (fst st))) (snd st) (pr_sites (fst st))"

lemma at_site_enable_inv:
  assumes ok: "trap_state_ok os mem (s, code)" and run: "at_site (site_enable os) k s = Inr ((), s')"
  shows "trap_state_ok os mem (s', code)"
proof -
  have law: "memory_of os (pr_pid s) mem" and inv: "traps_inv (mem (pr_os s)) code (pr_sites s)" using ok by (simp_all add: trap_state_ok_def)
  obtain b' s1 where k: "k < length (pr_sites s)" and e: "site_enable os (pr_sites s ! k) s = Inr (b', s1)"
      and s': "s' = s1\<lparr>pr_sites := (pr_sites s1)[k := b']\<rparr>"
    using run by (auto simp: at_site_def rbind_eq_Inr)
  note eff = site_enable_effect [OF law e]
  have "traps_inv (mem (pr_os s1)) code ((pr_sites s)[k := b'])"
  proof (cases "bs_enabled (pr_sites s ! k) \<or> bs_hardware (pr_sites s ! k)")
    case True
    show ?thesis
    proof (cases "bs_enabled (pr_sites s ! k)")
      case True
      then have "pr_sites s ! k = b' \<and> s = s1" using e by (auto simp: site_enable_def)
      then show ?thesis using inv by auto
    next
      case False
      then show ?thesis using eff True traps_inv_same [OF inv k, of b'] by (simp add: soft_def)
    qed
  next
    case False
    then show ?thesis using eff traps_inv_enable [OF inv k, of b'] by (simp add: soft_def)
  qed
  then show ?thesis using eff law by (simp add: trap_state_ok_def s')
qed

lemma at_site_disable_inv:
  assumes ok: "trap_state_ok os mem (s, code)" and run: "at_site (site_disable os) k s = Inr ((), s')"
  shows "trap_state_ok os mem (s', code)"
proof -
  have law: "memory_of os (pr_pid s) mem" and inv: "traps_inv (mem (pr_os s)) code (pr_sites s)" using ok by (simp_all add: trap_state_ok_def)
  have d: "distinct (map bs_address (pr_sites s))" using inv by (simp add: traps_inv_def)
  obtain b' s1 where k: "k < length (pr_sites s)" and e: "site_disable os (pr_sites s ! k) s = Inr (b', s1)"
      and s': "s' = s1\<lparr>pr_sites := (pr_sites s1)[k := b']\<rparr>"
    using run by (auto simp: at_site_def rbind_eq_Inr)
  let ?c = "pr_sites s ! k"
  note eff = site_disable_effect [OF law e]
  have a: "bs_address b' = bs_address ?c" using eff by simp
  have "set ((pr_sites s)[k := b']) \<subseteq> insert b' (set (pr_sites s) - {?c})" using other_site [OF d k] by auto
  moreover have "set (pr_sites s) - {?c} \<subseteq> set ((pr_sites s)[k := b'])"
    by (auto simp: in_set_conv_nth) (metis length_list_update nth_list_update_neq)
  ultimately have "traps_inv (mem (pr_os s1)) code ((pr_sites s)[k := b'])"
    using traps_inv_drop [OF inv _ distinct_address_update [OF d k a], of b' ?c] eff k by (simp add: soft_def)
  then show ?thesis using eff law by (simp add: trap_state_ok_def s')
qed

lemma remove_site_inv:
  assumes ok: "trap_state_ok os mem (s, code)" and run: "remove_site_by_address os a s = Inr ((), s')"
  shows "trap_state_ok os mem (s', code)"
proof -
  have law: "memory_of os (pr_pid s) mem" and inv: "traps_inv (mem (pr_os s)) code (pr_sites s)" using ok by (simp_all add: trap_state_ok_def)
  have d: "distinct (map bs_address (pr_sites s))" "distinct (pr_sites s)" using inv by (auto simp: traps_inv_def distinct_map)
  obtain k b' s1 where f: "sp_find_by_address bs_at_address a (pr_sites s) = Some k"
      and e: "site_disable os (pr_sites s ! k) s = Inr (b', s1)" and s': "s' = s1\<lparr>pr_sites := erase_at k (pr_sites s)\<rparr>"
    using run by (auto simp: remove_site_by_address_def sp_remove_by_address_def sp_remove_at_def rbind_eq_Inr split: option.splits)
  have k: "k < length (pr_sites s)" using f by (auto simp: sp_find_by_address_def dest: find_if_SomeD)
  note eff = site_disable_effect [OF law e]
  have set: "set (erase_at k (pr_sites s)) = set (pr_sites s) - {pr_sites s ! k}" using set_erase_at_distinct [OF d(2) k] .
  have "distinct (map bs_address (erase_at k (pr_sites s)))"
    using distinct_erase_at [OF d(1), of k] by (simp add: erase_at_subseq_map)
  then have "traps_inv (mem (pr_os s1)) code (erase_at k (pr_sites s))"
    using traps_inv_drop [OF inv, of "erase_at k (pr_sites s)" "b'\<lparr>bs_enabled := False\<rparr>" "pr_sites s ! k"] set eff k by (simp add: soft_def subset_insertI)
  then show ?thesis using eff law by (simp add: trap_state_ok_def s')
qed

lemma create_site_inv:
  assumes ok: "trap_state_ok os mem (s, code)" and run: "create_breakpoint_site junk parent i a hw internal s = Inr (k, s')"
  shows "trap_state_ok os mem (s', code)"
proof -
  let ?b = "mk_breakpoint_site junk parent i a hw internal"
  have c: "\<not> sp_contains_address bs_at_address (bs_address ?b) (pr_sites s)" and s': "s' = s\<lparr>pr_sites := sp_push ?b (pr_sites s)\<rparr>"
    using run by (auto simp: create_breakpoint_site_def mk_breakpoint_site_def split: if_splits)
  have "distinct (map bs_address (sp_push ?b (pr_sites s)))"
    using site.push_distinct [OF _ c] ok by (simp add: trap_state_ok_def traps_inv_def)
  moreover have "\<not> soft ?b" by (simp add: soft_def mk_breakpoint_site_def)
  ultimately show ?thesis using ok by (auto simp: trap_state_ok_def traps_inv_def s' sp_push_def)
qed

lemma write_memory_inv:
  assumes ok: "trap_state_ok os mem (s, code)" and run: "write_memory os a data s = Inr ((), s')" and len: "length data + 8 \<le> 2 ^ 64"
    and off: "\<And>b. b \<in> set (pr_sites s) \<Longrightarrow> soft b \<Longrightarrow> length data \<le> unat (addr (bs_address b) - addr a)"
  shows "trap_state_ok os mem (s', overwrite (addr a) data code)"
proof -
  have law: "memory_of os (pr_pid s) mem" and inv: "traps_inv (mem (pr_os s)) code (pr_sites s)" using ok by (simp_all add: trap_state_ok_def)
  have "write_from os a data 0 s = Inr s'" using run by (auto simp: write_memory_def rbind_eq_Inr)
  from write_from_memory [OF this law len, of "mem (pr_os s)"]
  have "mem (pr_os s') = overwrite (addr a) data (mem (pr_os s))" and s': "s' = s\<lparr>pr_os := pr_os s'\<rparr>" by simp_all
  then have "traps_inv (mem (pr_os s')) (overwrite (addr a) data code) (pr_sites s)"
    using inv off by (auto simp: traps_inv_def overwrite_def leD)
  then show ?thesis using law by (subst s') (simp add: trap_state_ok_def)
qed

lemma trap_step_inv: "trap_step os st st' \<Longrightarrow> trap_state_ok os mem st \<Longrightarrow> trap_state_ok os mem st'"
proof (induction rule: trap_step.induct)
  case (trap_register otid r v s s' code)
  then show ?case using write_reg_same [of os s mem otid r v "()" s'] by (simp add: trap_state_ok_def same_memory_def)
qed (blast intro: at_site_enable_inv at_site_disable_inv remove_site_inv create_site_inv write_memory_inv)+

lemma trap_run_inv: "(trap_step os)\<^sup>*\<^sup>* st st' \<Longrightarrow> trap_state_ok os mem st \<Longrightarrow> trap_state_ok os mem st'"
  by (induction rule: rtranclp_induct) (blast intro: trap_step_inv)+

subsection \<open>Reading through the traps\<close>

definition site_offset :: "virt_addr \<Rightarrow> breakpoint_site \<Rightarrow> nat" where
  "site_offset a b = unat (addr (bs_address b) - addr a)"

lemma restore_bytes:
  "\<forall>b\<in>set bs. site_offset a b < length m \<Longrightarrow> \<forall>b\<in>set bs. soft b \<longrightarrow> bs_saved b = c (site_offset a b) \<Longrightarrow>
   foldR (restore_byte a) bs m = Inr (map (\<lambda>i. if \<exists>b\<in>set bs. soft b \<and> site_offset a b = i then c i else m ! i) [0..<length m])"
proof (induction bs arbitrary: m)
  case Nil
  show ?case by (simp add: map_nth)
next
  case (Cons b bs)
  let ?m = "if soft b then m[site_offset a b := bs_saved b] else m"
  have "restore_byte a b m = Inr ?m"
    using Cons.prems(1) by (auto simp: restore_byte_def soft_def site_offset_def va_sub_def Let_def)
  moreover have "foldR (restore_byte a) bs ?m =
      Inr (map (\<lambda>i. if \<exists>b\<in>set bs. soft b \<and> site_offset a b = i then c i else ?m ! i) [0..<length ?m])"
    by (rule Cons.IH) (use Cons.prems in auto)
  ultimately show ?case using Cons.prems(1,2) by (auto simp: nth_list_update)
qed

lemma site_in_region:
  assumes "unat (addr a) + n < 2 ^ 64"
  shows "b \<in> set (sp_get_in_region bs_in_range a (va_add a (of_nat n)) sites) \<longleftrightarrow> b \<in> set sites \<and> site_offset a b < n"
proof -
  have n: "unat (of_nat n :: u64) = n" using assms by (simp add: unat_of_nat)
  then have e: "unat (addr a + of_nat n) = unat (addr a) + n" using assms by (simp add: unat_word_ariths)
  have lt: "unat w < 2 ^ 64" for w :: u64
  proof -
    have "unat w < 2 ^ LENGTH(64)" by (rule unsigned_less)
    then show ?thesis by simp
  qed
  show ?thesis
    using assms e word_le_nat_alt [of "addr a" "addr (bs_address b)"] word_less_nat_alt [of "addr (bs_address b)" "addr a + of_nat n"]
      unat_sub_if' [of "addr (bs_address b)" "addr a"] lt [of "addr (bs_address b)"] lt [of "addr a"]
    by (auto simp: site.get_in_region_iff less_eq_virt_addr_def less_virt_addr_def va_add_def site_offset_def split: if_splits)
qed

lemma without_traps:
  assumes ok: "trap_state_ok os mem (s, code)" and read: "read_memory os a n s = Inr m" and bound: "unat (addr a) + n < 2 ^ 64"
  shows "read_memory_without_traps os a n s = Inr (mem_range code (addr a, n))"
proof -
  have law: "memory_of os (pr_pid s) mem" and inv: "traps_inv (mem (pr_os s)) code (pr_sites s)" using ok by (simp_all add: trap_state_ok_def)
  let ?bs = "sp_get_in_region bs_in_range a (va_add a (of_nat n)) (pr_sites s)"
  have m: "m = mem_range (mem (pr_os s)) (addr a, n)" using read_memory_bytes [OF law read] .
  have at: "addr a + of_nat (site_offset a b) = addr (bs_address b)" for b by (simp add: site_offset_def)
  have "foldR (restore_byte a) ?bs m =
      Inr (map (\<lambda>i. if \<exists>b\<in>set ?bs. soft b \<and> site_offset a b = i then code (addr a + of_nat i) else m ! i) [0..<length m])"
    by (rule restore_bytes) (use inv in \<open>auto simp: site_in_region [OF bound] m at traps_inv_def\<close>)
  also have "map (\<lambda>i. if \<exists>b\<in>set ?bs. soft b \<and> site_offset a b = i then code (addr a + of_nat i) else m ! i) [0..<length m]
      = mem_range code (addr a, n)"
  proof (rule nth_equalityI)
    fix i assume "i < length (map (\<lambda>i. if \<exists>b\<in>set ?bs. soft b \<and> site_offset a b = i then code (addr a + of_nat i) else m ! i) [0..<length m])"
    then have i: "i < n" by (simp add: m)
    have "mem (pr_os s) (addr a + of_nat i) = code (addr a + of_nat i)" if none: "\<not> (\<exists>b\<in>set ?bs. soft b \<and> site_offset a b = i)"
    proof -
      have "\<forall>b\<in>set (pr_sites s). soft b \<longrightarrow> addr (bs_address b) \<noteq> addr a + of_nat i"
      proof (intro ballI impI notI)
        fix b assume b: "b \<in> set (pr_sites s)" "soft b" "addr (bs_address b) = addr a + of_nat i"
        then have "site_offset a b = i" using i bound by (simp add: site_offset_def unat_of_nat)
        then show False using none b i by (auto simp: site_in_region [OF bound])
      qed
      then show ?thesis using inv by (simp add: traps_inv_def)
    qed
    then show "map (\<lambda>i. if \<exists>b\<in>set ?bs. soft b \<and> site_offset a b = i then code (addr a + of_nat i) else m ! i) [0..<length m] ! i
        = mem_range code (addr a, n) ! i"
      using i by (auto simp: m mem_range_def)
  qed (simp add: m)
  finally show ?thesis using read by (simp add: read_memory_without_traps_def)
qed

text \<open>
  C1: whatever sites were created, enabled, disabled and removed, whatever registers were written
  and memory overwritten outside the enabled software sites since the process had none, a read
  without traps returns the bytes the program would have without the debugger.
\<close>

theorem reads_hide_traps:
  assumes "memory_of os (pr_pid s0) mem" and "pr_sites s0 = []"
    and "(trap_step os)\<^sup>*\<^sup>* (s0, mem (pr_os s0)) (s, code)"
    and "read_memory os a n s = Inr m" and "unat (addr a) + n < 2 ^ 64"
  shows "read_memory_without_traps os a n s = Inr (mem_range code (addr a, n))"
proof -
  have "trap_state_ok os mem (s0, mem (pr_os s0))" using assms(1,2) by (simp add: trap_state_ok_def traps_inv_def)
  from without_traps [OF trap_run_inv [OF assms(3) this] assms(4,5)] show ?thesis .
qed

text \<open>
  C19: a write of memory that succeeds replaces the bytes of its range by the data and changes no
  other byte, although it writes whole words; nothing else of the process changes.
\<close>

theorem write_memory_overwrites_range:
  assumes "memory_of os (pr_pid s) mem" and "length data + 8 \<le> 2 ^ 64" and "write_memory os a data s = Inr ((), s')"
  shows "mem (pr_os s') = (\<lambda>x. if unat (x - addr a) < length data then data ! unat (x - addr a) else mem (pr_os s) x)
    \<and> s' = s\<lparr>pr_os := pr_os s'\<rparr>"
  using write_from_memory [of os a data 0 s s' mem "mem (pr_os s)"] assms
  by (auto simp: write_memory_def rbind_eq_Inr overwrite_def)

text \<open>
  C35: the ranges a read asks the kernel for are exactly the bytes of the read in order, none is
  empty and none crosses the end of a page.
\<close>

theorem read_chunks_cover_within_pages:
  "concat (map (mem_range m) (read_chunks a n)) = mem_range m (a, n)
   \<and> (\<forall>r\<in>set (read_chunks a n). 0 < snd r \<and> unat (fst r AND 0xfff) + snd r \<le> 0x1000)"
  using read_chunks_bytes read_chunks_within_pages by auto

lemma sample_chunks: "read_chunks 0x400ffe 5 = [(0x400ffe, 2), (0x401000, 3)]"
  by (simp add: read_chunks.simps)

lemma read_chunks_cover_within_pages_witness:
  "mem_range (\<lambda>x. ucast x) (0x400ffe, 2) @ mem_range (\<lambda>x. ucast x) (0x401000, 3) = mem_range (\<lambda>x. ucast x) (0x400ffe, 5)"
  using read_chunks_cover_within_pages [of "\<lambda>x. ucast x" "0x400ffe" 5] by (simp add: sample_chunks)

lemma write_memory_overwrites_range_witness:
  "\<exists>s'. write_memory sample_os (VirtAddr 0x401000) [1, 2, 3] sample_process = Inr ((), s')
     \<and> pr_os s' = (\<lambda>x. if unat (x - 0x401000) < 3 then [1, 2, 3] ! unat (x - 0x401000) else 0x90)"
proof -
  have k: "pr_os sample_process = (\<lambda>_. 0x90)"
    by (simp add: sample_process_def mk_process_def populate_existing_threads_def sample_os_def add_thread_def has_thread_def)
  obtain s' where run: "write_memory sample_os (VirtAddr 0x401000) [1, 2, 3] sample_process = Inr ((), s')"
    by (simp add: write_memory_def write_from.simps word_to_write_def read_memory_def request_def sample_os_def)
  from write_memory_overwrites_range [OF sample_memory _ run] run show ?thesis
    by (simp add: k numeral_3_eq_3 cong: if_cong)
qed

definition trapped_process :: "(u64 \<Rightarrow> u8, unit) process" where
  "trapped_process = sample_process\<lparr>pr_sites := [(mk_breakpoint_site 0 None 7 (VirtAddr 0x400010) False False)\<lparr>bs_saved := 0x90, bs_enabled := True\<rparr>],
     pr_os := mem_store 0x400010 (trap_word (mem_word (\<lambda>_. 0x90) 0x400010) 0xcc) (\<lambda>_. 0x90)\<rparr>"

lemma trapped_process_run: "(trap_step sample_os)\<^sup>*\<^sup>* (sample_process, \<lambda>_. 0x90) (trapped_process, \<lambda>_. 0x90)"
proof -
  let ?b = "mk_breakpoint_site 0 None 7 (VirtAddr 0x400010) False False"
  let ?s1 = "sample_process\<lparr>pr_sites := [?b]\<rparr>"
  have p: "pr_sites sample_process = []" "pr_os sample_process = (\<lambda>_. 0x90)"
    by (simp_all add: sample_process_def mk_process_def populate_existing_threads_def sample_os_def add_thread_def has_thread_def)
  have "create_breakpoint_site 0 None 7 (VirtAddr 0x400010) False False sample_process = Inr (0, ?s1)"
    by (simp add: create_breakpoint_site_def p sp_contains_address_def sp_find_by_address_def sp_push_def)
  then have 1: "trap_step sample_os (sample_process, \<lambda>_. 0x90) (?s1, \<lambda>_. 0x90)" by (rule trap_create)
  have "at_site (site_enable sample_os) 0 ?s1 = Inr ((), trapped_process)"
    using saved_byte [of "\<lambda>_. 0x90" "0x400010"]
    by (simp add: at_site_def site_enable_def mk_breakpoint_site_def p trapped_process_def sample_os_def request_def vec_idx_def)
  then have 2: "trap_step sample_os (?s1, \<lambda>_. 0x90) (trapped_process, \<lambda>_. 0x90)" by (rule trap_enable)
  from 1 2 show ?thesis by (meson converse_rtranclp_into_rtranclp rtranclp.rtrancl_refl)
qed

lemma reads_hide_traps_witness:
  "pr_os trapped_process 0x400010 = 0xcc
   \<and> read_memory_without_traps sample_os (VirtAddr 0x40000f) 3 trapped_process = Inr [0x90, 0x90, 0x90]"
proof -
  have p: "pr_sites sample_process = []" "pr_os sample_process = (\<lambda>_. 0x90)"
    by (simp_all add: sample_process_def mk_process_def populate_existing_threads_def sample_os_def add_thread_def has_thread_def)
  have "\<exists>m. read_memory sample_os (VirtAddr 0x40000f) 3 trapped_process = Inr m" by (simp add: read_memory_def sample_os_def)
  then obtain m where m: "read_memory sample_os (VirtAddr 0x40000f) 3 trapped_process = Inr m" by blast
  have run: "(trap_step sample_os)\<^sup>*\<^sup>* (sample_process, pr_os sample_process) (trapped_process, \<lambda>_. 0x90)"
    using trapped_process_run by (simp add: p)
  have "read_memory_without_traps sample_os (VirtAddr 0x40000f) 3 trapped_process = Inr (mem_range (\<lambda>_. 0x90) (0x40000f, 3))"
    using reads_hide_traps [OF sample_memory p(1) run m] by simp
  moreover have "pr_os trapped_process 0x400010 = 0xcc" by (simp add: trapped_process_def mem_store_trap)
  ultimately show ?thesis by (simp add: mem_range_def upt_rec)
qed

end
