(* ===== verification/KD_Threads.thy ===== *)
theory KD_Threads
  imports KD_Memory
begin

text \<open>
  The threads of the traced process (\<open>src/process.cpp\<close>): how a stop is explained and handled,
  how threads are continued, stopped and forgotten, and the loop that waits for a signal.
\<close>

unbundle bit_operations_syntax

subsection \<open>Callbacks\<close>

text \<open>
  What the process calls outside itself: the hit handler of the breakpoint with a number, the
  target that is told of a stop, and the report of the birth or death of a thread, which the
  source declares without a body.
\<close>

record ('k, 't) hooks =
  hk_hit :: "int \<Rightarrow> (bool, 'k, 't) op"
  hk_stop :: "stop_reason \<Rightarrow> ('k, 't) process \<Rightarrow> ('k, 't) process result"
  hk_lifecycle :: "stop_reason \<Rightarrow> ('k, 't) process \<Rightarrow> ('k, 't) process result"

definition tell_target :: "('k, 't) hooks \<Rightarrow> stop_reason \<Rightarrow> ('k, 't) process \<Rightarrow> ('k, 't) process result" where
  "tell_target h r s = (if pr_target s = None then Inr s else hk_stop h r s)"

definition notify_parent :: "('k, 't) hooks \<Rightarrow> breakpoint_site \<Rightarrow> (bool, 'k, 't) op" where
  "notify_parent h b s = (case bs_parent b of None \<Rightarrow> Inr (False, s) | Some p \<Rightarrow> hk_hit h p s)"

subsection \<open>Explaining a stop\<close>

definition syscall_arg_regs :: "register_id list" where
  "syscall_arg_regs = [5, 4, 1, 10, 8, 9]"

definition augment_syscall :: "stop_reason \<Rightarrow> (stop_reason, 'k, 't) op" where
  "augment_syscall r s =
     (let done = (\<lambda>info x. Inr (r\<lparr>sr_syscall := Some info, sr_info := SIGTRAP, sr_trap := Some SyscallTrap\<rparr>,
            s\<lparr>pr_expecting := x\<rparr>));
          tid = Some (sr_tid r)
      in rbind (read_reg tid rid_orig_rax s) (\<lambda>i.
         if pr_expecting s then rbind (read_reg tid rid_rax s) (\<lambda>ret. done (SyscallExit (ucast i) ret) False)
         else rbind (mapR (\<lambda>a. read_reg tid a s) syscall_arg_regs) (\<lambda>args. done (SyscallEntry (ucast i) args) True)))"

definition trap_of_code :: "int \<Rightarrow> trap_type" where
  "trap_of_code code = (if code = 2 then SingleStep else if code = 0x80 then SoftwareBreak
     else if code = 4 then HardwareBreak else UnknownTrap)"

definition augment_stop_reason :: "'k os \<Rightarrow> stop_reason \<Rightarrow> (stop_reason, 'k, 't) op" where
  "augment_stop_reason os r s =
     (case os_si_code os (sr_tid r) (pr_os s) of
        None \<Rightarrow> Inl (SendErrno ''Failed to get signal info'')
      | Some code \<Rightarrow>
          if sr_info r = SIGTRAP OR 0x80 then augment_syscall r s
          else Inr (r\<lparr>sr_trap := Some (if sr_info r = SIGTRAP then trap_of_code code else UnknownTrap)\<rparr>,
                    s\<lparr>pr_expecting := False\<rparr>))"

text \<open>\<open>__builtin_ctzll\<close>, undefined at zero.\<close>

definition ctz :: "u64 \<Rightarrow> nat option" where
  "ctz w = find_if (bit w) [0..<64]"

text \<open>The number of a site (left) or of a watchpoint (right).\<close>

definition get_current_hardware_stoppoint :: "int option \<Rightarrow> ('k, 't) process \<Rightarrow> (u32 + u32) result" where
  "get_current_hardware_stoppoint otid s =
     rbind (read_reg otid rid_dr6 s) (\<lambda>status.
     case ctz status of
       None \<Rightarrow> Inl (UB ''count of trailing zeros of 0'')
     | Some index \<Rightarrow>
         rbind (read_reg otid (rid_dr0 + index) s) (\<lambda>v.
         if sp_contains_address bs_at_address (VirtAddr v) (pr_sites s)
         then rbind (sp_get_by_address bs_at_address (VirtAddr v) (pr_sites s)) (\<lambda>k. Inr (Inl (bs_id (pr_sites s ! k))))
         else rbind (sp_get_by_address wp_at_address (VirtAddr v) (pr_watch s)) (\<lambda>k. Inr (Inr (wp_id (pr_watch s ! k))))))"

definition mabye_resume_from_syscall :: "stop_reason \<Rightarrow> ('k, 't) process \<Rightarrow> bool result" where
  "mabye_resume_from_syscall r s =
     (if cp_mode (pr_policy s) = CatchSome then
        (case sr_syscall r of None \<Rightarrow> Inl (UB ''empty optional'')
         | Some info \<Rightarrow> Inr (find_if (\<lambda>n. n = int (unat (sys_id info))) (cp_to_catch (pr_policy s)) = None))
      else Inr False)"

text \<open>
  The auxiliary vector, read pair by pair until a type is zero. The loop does not look at the end
  of the file, where a read leaves its variable as it was: without a terminator it never ends
  (an empty file leaves the first type uninitialised, which \<open>None\<close> covers too).
\<close>

fun auxv_loop :: "u64 list \<Rightarrow> (int \<rightharpoonup> u64) \<Rightarrow> (int \<rightharpoonup> u64) option" where
  "auxv_loop (i # v # ws) m = (if i = 0 then Some m else auxv_loop ws (m(sint (ucast i :: u32) \<mapsto> v)))"
| "auxv_loop [i] m = (if i = 0 then Some m else None)"
| "auxv_loop [] m = None"

definition get_auxv :: "'k os \<Rightarrow> ('k, 't) process \<Rightarrow> (int \<rightharpoonup> u64) option" where
  "get_auxv os s = auxv_loop (os_auxv os (pr_pid s) (pr_os s)) (\<lambda>_. None)"

subsection \<open>Continuing\<close>

text \<open>The results of the two calls are not looked at: where one fails nothing has happened.\<close>

definition swallow_pending_sigstop :: "'k os \<Rightarrow> int \<Rightarrow> ('k, 't) process \<Rightarrow> ('k, 't) process result" where
  "swallow_pending_sigstop os tid s =
     rbind (thread_at tid s) (\<lambda>th.
     if th_pending th then
       let k1 = (case os_cont os tid (pr_os s) of None \<Rightarrow> pr_os s | Some k \<Rightarrow> k);
           k2 = (case os_waitpid os tid k1 of None \<Rightarrow> k1 | Some (_, _, k) \<Rightarrow> k)
       in Inr (update_thread tid (\<lambda>th. th\<lparr>th_pending := False\<rparr>) (s\<lparr>pr_os := k2\<rparr>))
     else Inr s)"

definition step_over_breakpoint :: "'k os \<Rightarrow> int \<Rightarrow> ('k, 't) process \<Rightarrow> ('k, 't) process result" where
  "step_over_breakpoint os tid s =
     rbind (get_pc (Some tid) s) (\<lambda>pc.
     if sp_enabled_at_address bs_at_address bs_enabled pc (pr_sites s) then
       rbind (sp_get_by_address bs_at_address pc (pr_sites s)) (\<lambda>k.
       rbind (at_site (site_disable os) k s) (\<lambda>(_, s1).
       rbind (swallow_pending_sigstop os tid s1) (\<lambda>s2.
       rbind (request ''Failed to single-step!'' (os_singlestep os tid) s2) (\<lambda>(_, s3).
       rbind (request ''waitpid failed'' (\<lambda>k. map_option (\<lambda>(_, _, k). k) (os_waitpid os tid k)) s3) (\<lambda>(_, s4).
       rbind (at_site (site_enable os) k s4) (\<lambda>(_, s5). Inr s5))))))
     else Inr s)"

definition send_continue :: "'k os \<Rightarrow> int \<Rightarrow> ('k, 't) process \<Rightarrow> ('k, 't) process result" where
  "send_continue os tid s =
     rbind (request ''Could not resume Process''
       ((if cp_mode (pr_policy s) = CatchNone then os_cont else os_syscall) os tid) s) (\<lambda>(_, s1).
     rbind (thread_at tid s1) (\<lambda>_.
     Inr (update_thread tid (\<lambda>th. th\<lparr>th_state := Running\<rparr>) s1\<lparr>pr_state := Running\<rparr>)))"

definition resume :: "'k os \<Rightarrow> int option \<Rightarrow> ('k, 't) process \<Rightarrow> ('k, 't) process result" where
  "resume os otid s =
     (let tid = tid_of otid s in rbind (step_over_breakpoint os tid s) (send_continue os tid))"

definition resume_all_threads :: "'k os \<Rightarrow> ('k, 't) process \<Rightarrow> ('k, 't) process result" where
  "resume_all_threads os s =
     rbind (foldR (step_over_breakpoint os) (map fst (pr_threads s)) s) (\<lambda>s1.
     foldR (send_continue os) (map fst (pr_threads s1)) s1)"

subsection \<open>Handling a stop\<close>

text \<open>
  A trap of the process: a hit of an enabled site moves the program counter back on the trapped
  instruction. The result says that the process is to be continued at once. \<open>pc_tid\<close> and
  \<open>hw_tid\<close> are the threads whose program counter and debug registers are used.
\<close>

definition handle_software_break :: "'k os \<Rightarrow> ('k, 't) hooks \<Rightarrow> int option \<Rightarrow> virt_addr \<Rightarrow> (bool, 'k, 't) op" where
  "handle_software_break os h pc_tid instr_begin s =
     rbind (set_pc os instr_begin pc_tid s) (\<lambda>(_, s1).
     rbind (sp_get_by_address bs_at_address instr_begin (pr_sites s1)) (\<lambda>k.
     notify_parent h (pr_sites s1 ! k) s1))"

definition handle_hardware_break :: "'k os \<Rightarrow> int option \<Rightarrow> ('k, 't) process \<Rightarrow> ('k, 't) process result" where
  "handle_hardware_break os hw_tid s =
     rbind (get_current_hardware_stoppoint hw_tid s) (\<lambda>i. case i of
       Inl _ \<Rightarrow> Inr s
     | Inr w \<Rightarrow> rbind (sp_get_by_id wp_id w (pr_watch s)) (\<lambda>k.
         rbind (at_watch (\<lambda>w s. rbind (watch_update_data os w s) (\<lambda>w'. Inr (w', s))) k s) (\<lambda>(_, s1). Inr s1)))"

definition handle_trap :: "'k os \<Rightarrow> ('k, 't) hooks \<Rightarrow> stop_reason \<Rightarrow> bool \<Rightarrow> (bool, 'k, 't) op" where
  "handle_trap os h r is_main s =
     (let tid = Some (sr_tid r) in
      rbind (get_pc tid s) (\<lambda>pc.
      let instr_begin = va_sub pc 1 in
      if sr_trap r = Some SoftwareBreak \<and> sp_contains_address bs_at_address instr_begin (pr_sites s)
         \<and> sp_enabled_at_address bs_at_address bs_enabled instr_begin (pr_sites s)
      then rbind (handle_software_break os h tid instr_begin s) (\<lambda>(restart, s1). Inr (restart \<and> is_main, s1))
      else if sr_trap r = Some HardwareBreak then rbind (handle_hardware_break os tid s) (\<lambda>s1. Inr (False, s1))
      else if sr_trap r = Some SyscallTrap \<and> is_main then rbind (mabye_resume_from_syscall r s) (\<lambda>c. Inr (c, s))
      else Inr (False, s)))"

text \<open>
  \<open>None\<close> asks the caller to continue the thread and to wait again. Where a pending stop is
  recognised the code names the flag without clearing it.
\<close>

definition handle_stopped :: "'k os \<Rightarrow> ('k, 't) hooks \<Rightarrow> stop_reason \<Rightarrow> bool \<Rightarrow> (stop_reason option, 'k, 't) op" where
  "handle_stopped os h r is_main s =
     rbind (thread_at (sr_tid r) s) (\<lambda>th.
     if th_pending th \<and> sr_info r = SIGSTOP then Inr (None, s)
     else rbind (read_all_registers os (sr_tid r) s) (\<lambda>(_, s1).
          rbind (augment_stop_reason os r s1) (\<lambda>(r', s2).
          rbind (if sr_info r' = SIGTRAP then handle_trap os h r' is_main s2 else Inr (False, s2)) (\<lambda>(again, s3).
          if again then Inr (None, s3)
          else rbind (tell_target h r' s3) (\<lambda>s4. Inr (Some r', s4))))))"

definition handle_signal :: "'k os \<Rightarrow> ('k, 't) hooks \<Rightarrow> stop_reason \<Rightarrow> bool \<Rightarrow> (stop_reason option, 'k, 't) op" where
  "handle_signal os h r is_main s =
     (if sr_trap r = Some CloneTrap \<and> is_main then Inr (None, s)
      else if pr_attached s \<and> sr_reason r = Stopped then
        if has_thread (sr_tid r) s then handle_stopped os h r is_main s
        else rbind (hk_lifecycle h r (add_thread os (sr_tid r) s)) (\<lambda>s1.
             if is_main then Inr (None, s1) else handle_stopped os h r is_main s1)
      else Inr (Some r, s))"

subsection \<open>Stopping and forgetting threads\<close>

text \<open>A wait that fails leaves the status 0, which reads as an exit.\<close>

definition stop_running_thread :: "'k os \<Rightarrow> ('k, 't) hooks \<Rightarrow> int \<Rightarrow> ('k, 't) process \<Rightarrow> ('k, 't) process result" where
  "stop_running_thread os h tid s =
     rbind (thread_at tid s) (\<lambda>th.
     if th_state th = Running then
       let k1 = (if th_pending th then pr_os s else os_tgkill os (pr_pid s) tid SIGSTOP (pr_os s));
           (status, k2) = (case os_waitpid os tid k1 of None \<Rightarrow> (0, k1) | Some (_, st, k) \<Rightarrow> (st, k));
           s1 = s\<lparr>pr_os := k2\<rparr>
       in rbind (stop_reason_of tid status) (\<lambda>r.
          let s2 = (if sr_reason r = Stopped then update_thread tid (\<lambda>th. th\<lparr>th_pending := sr_info r \<noteq> SIGSTOP\<rparr>) s1 else s1) in
          rbind (handle_signal os h r False s2) (\<lambda>(r', s3).
          let r'' = (case r' of None \<Rightarrow> r | Some x \<Rightarrow> x) in
          rbind (thread_at tid s3) (\<lambda>_.
          Inr (update_thread tid (\<lambda>th. th\<lparr>th_reason := Some r'', th_state := sr_reason r''\<rparr>) s3))))
     else Inr s)"

definition stop_running_threads :: "'k os \<Rightarrow> ('k, 't) hooks \<Rightarrow> ('k, 't) process \<Rightarrow> ('k, 't) process result" where
  "stop_running_threads os h s = foldR (stop_running_thread os h) (map fst (pr_threads s)) s"

text \<open>The reason reported is that of the main thread; \<open>None\<close> inside is a reason never assigned.\<close>

definition gone :: "int \<Rightarrow> int \<times> thread_state \<Rightarrow> bool" where
  "gone main_stop_tid = (\<lambda>(tid, th). tid \<noteq> main_stop_tid \<and> (th_state th = Exited \<or> th_state th = Terminated))"

definition cleanup_exited_threads :: "int \<Rightarrow> ('k, 't) process \<Rightarrow> stop_reason option option \<times> ('k, 't) process" where
  "cleanup_exited_threads main_stop_tid s =
     (let to_remove = filter (gone main_stop_tid) (pr_threads s) in
      (map_option th_reason (map_of to_remove (pr_pid s)),
       s\<lparr>pr_threads := filter (\<lambda>(tid, _). tid \<notin> fst ` set to_remove) (pr_threads s)\<rparr>))"

subsection \<open>Waiting for a signal\<close>

text \<open>A computation that may not return: \<open>None\<close> is out of fuel.\<close>

definition andthen :: "'a result \<Rightarrow> ('a \<Rightarrow> 'b result option) \<Rightarrow> 'b result option" where
  "andthen m f = (case m of Inl e \<Rightarrow> Some (Inl e) | Inr x \<Rightarrow> f x)"

lemma andthen_simps [simp]: "andthen (Inl e) f = Some (Inl e)" "andthen (Inr x) f = f x"
  by (simp_all add: andthen_def)

text \<open>
  The block of \<open>wait_on_signal\<close> that runs on a reported stop. It repeats most of
  \<open>handle_signal\<close> for the current thread; where the source names no thread the registers
  read are those of the thread that stopped. Its branch for system calls cannot be reached, for
  \<open>augment_stop_reason\<close> has replaced the signal. \<open>None\<close> asks to wait again.
\<close>

definition report_trap :: "'k os \<Rightarrow> ('k, 't) hooks \<Rightarrow> stop_reason \<Rightarrow> virt_addr \<Rightarrow> (bool, 'k, 't) op" where
  "report_trap os h r instr_begin s =
     (if sr_trap r = Some SoftwareBreak \<and> sp_contains_address bs_at_address instr_begin (pr_sites s)
         \<and> sp_enabled_at_address bs_at_address bs_enabled instr_begin (pr_sites s)
      then rbind (handle_software_break os h None instr_begin s) (\<lambda>(restart, s1).
           if restart then rbind (resume os None s1) (\<lambda>s2. Inr (True, s2)) else Inr (False, s1))
      else if sr_trap r = Some HardwareBreak then rbind (handle_hardware_break os None s) (\<lambda>s1. Inr (False, s1))
      else Inr (False, s))"

definition report_stop :: "'k os \<Rightarrow> ('k, 't) hooks \<Rightarrow> stop_reason \<Rightarrow> (stop_reason option, 'k, 't) op" where
  "report_stop os h r s =
     (if pr_attached s \<and> pr_state s = Stopped then
        rbind (read_all_registers os (sr_tid r) s) (\<lambda>(_, s1).
        rbind (augment_stop_reason os r s1) (\<lambda>(r', s2).
        rbind (get_pc None s2) (\<lambda>pc.
        rbind (if sr_info r' = SIGTRAP then report_trap os h r' (va_sub pc 1) s2 else Inr (False, s2)) (\<lambda>(again, s3).
        if again then Inr (None, s3) else rbind (tell_target h r' s3) (\<lambda>s4. Inr (Some r', s4))))))
      else Inr (Some r, s))"

text \<open>
  \<open>tid = waitpid(...) < 0\<close> assigns the comparison: where the wait succeeds the thread is 0.
  The loop has the thread made of the result of \<open>waitpid\<close> as an argument, so that it can be
  read both as it is written and with the parentheses that are missing.
\<close>

definition assigned_tid :: "int \<Rightarrow> int" where
  "assigned_tid waited = (if waited < 0 then 1 else 0)"

fun wait_loop :: "(int \<Rightarrow> int) \<Rightarrow> 'k os \<Rightarrow> ('k, 't) hooks \<Rightarrow> nat \<Rightarrow> int \<Rightarrow> ('k, 't) process
    \<Rightarrow> (stop_reason \<times> ('k, 't) process) result option" where
  "wait_loop assign os h 0 to_await s = None"
| "wait_loop assign os h (Suc n) to_await s =
     (case os_waitpid os to_await (pr_os s) of
        None \<Rightarrow> Some (Inl (SendErrno ''waitpid failed''))
      | Some (waited, status, k) \<Rightarrow>
          let tid = assign waited in
          andthen (stop_reason_of tid status) (\<lambda>r0.
          andthen (handle_signal os h r0 True (s\<lparr>pr_os := k\<rparr>)) (\<lambda>(final, s1). case final of
            None \<Rightarrow> andthen (resume os (Some tid) s1) (wait_loop assign os h n to_await)
          | Some r \<Rightarrow>
              andthen (thread_at tid s1) (\<lambda>_.
              let s2 = update_thread tid (\<lambda>th. th\<lparr>th_reason := Some r, th_state := sr_reason r\<rparr>) s1 in
              if sr_reason r = Exited \<or> sr_reason r = Terminated then
                andthen (hk_lifecycle h r s2) (\<lambda>s3.
                if tid = pr_pid s3 then Some (Inr (r, s3\<lparr>pr_state := sr_reason r\<rparr>)) else wait_loop assign os h n (- 1) s3)
              else andthen (report_stop os h r s2) (\<lambda>(r', s3). case r' of
                None \<Rightarrow> wait_loop assign os h n (- 1) s3
              | Some r'' \<Rightarrow> Some (Inr (r'', s3)))))))"

definition wait_on_signal :: "'k os \<Rightarrow> ('k, 't) hooks \<Rightarrow> nat \<Rightarrow> int \<Rightarrow> ('k, 't) process
    \<Rightarrow> (stop_reason \<times> ('k, 't) process) result option" where
  "wait_on_signal = wait_loop assigned_tid"

definition step_instruction :: "'k os \<Rightarrow> ('k, 't) hooks \<Rightarrow> nat \<Rightarrow> int option \<Rightarrow> ('k, 't) process
    \<Rightarrow> (stop_reason \<times> ('k, 't) process) result option" where
  "step_instruction os h n otid s =
     (let tid = tid_of otid s in
      andthen (get_pc (Some tid) s) (\<lambda>pc.
      andthen (if sp_enabled_at_address bs_at_address bs_enabled pc (pr_sites s)
               then rbind (sp_get_by_address bs_at_address pc (pr_sites s)) (\<lambda>k.
                    rbind (at_site (site_disable os) k s) (\<lambda>(_, s1). Inr (Some k, s1)))
               else Inr (None, s)) (\<lambda>(to_reenable, s1).
      andthen (swallow_pending_sigstop os tid s1) (\<lambda>s2.
      andthen (request ''Could not single step'' (os_singlestep os tid) s2) (\<lambda>(_, s3).
      case wait_on_signal os h n tid s3 of
        None \<Rightarrow> None
      | Some out \<Rightarrow> andthen out (\<lambda>(r, s4). case to_reenable of
          None \<Rightarrow> Some (Inr (r, s4))
        | Some k \<Rightarrow> andthen (at_site (site_enable os) k s4) (\<lambda>(_, s5). Some (Inr (r, s5))))))))) "

subsection \<open>Attaching and letting go\<close>

definition set_ptrace_options :: "'k os \<Rightarrow> ('k, 't) process \<Rightarrow> ('k, 't) process result" where
  "set_ptrace_options os s =
     rbind (request ''Failed to set TRACESYSGOOD and TRACECLONE option'' (os_setoptions os (pr_pid s)) s) (\<lambda>(_, s'). Inr s')"

text \<open>\<open>proc->wait_on_signal\<close> is written without an argument list, so nothing waits for the stop.\<close>

definition process_attach :: "'k os \<Rightarrow> int \<Rightarrow> 'k \<Rightarrow> ('k, 't) process result" where
  "process_attach os pid k =
     (if pid = 0 then Inl (Send ''Invalid PID'')
      else case os_attach os pid k of
          None \<Rightarrow> Inl (SendErrno ''Could not attach'')
        | Some k' \<Rightarrow> set_ptrace_options os (mk_process os pid False True k'))"

text \<open>The state of the kernel after the destructor.\<close>

definition process_destroy :: "'k os \<Rightarrow> ('k, 't) process \<Rightarrow> 'k" where
  "process_destroy os s =
     (let wait = (\<lambda>k. case os_waitpid os (pr_pid s) k of None \<Rightarrow> k | Some (_, _, k') \<Rightarrow> k');
          stop = (\<lambda>k. if pr_state s = Running then wait (os_kill os (pr_pid s) SIGSTOP k) else k);
          leave = (\<lambda>k. if pr_attached s then os_kill os (pr_pid s) SIGCONT (os_detach os (pr_pid s) (stop k)) else k);
          finish = (\<lambda>k. if pr_terminate s then wait (os_kill os (pr_pid s) SIGKILL k) else k)
      in if pr_pid s \<noteq> 0 then finish (leave (pr_os s)) else pr_os s)"

subsection \<open>What the operations keep\<close>

text \<open>The parts of a process that its registers, its sites and the kernel are not.\<close>

definition thread_view :: "int \<times> thread_state \<Rightarrow> int \<times> process_state \<times> stop_reason option" where
  "thread_view = (\<lambda>(t, th). (t, th_state th, th_reason th))"

definition shape :: "('k, 't) process \<Rightarrow> (int \<times> process_state \<times> stop_reason option) list \<times> int \<times> int \<times> bool \<times> process_state
    \<times> syscall_catch_policy \<times> 't option" where
  "shape s = (map thread_view (pr_threads s), pr_pid s, pr_current s, pr_attached s, pr_state s, pr_policy s, pr_target s)"

definition site_view :: "breakpoint_site \<Rightarrow> int option \<times> u32 \<times> virt_addr \<times> bool \<times> bool" where
  "site_view b = (bs_parent b, bs_id b, bs_address b, bs_enabled b, bs_hardware b)"

definition sites_view :: "('k, 't) process \<Rightarrow> (int option \<times> u32 \<times> virt_addr \<times> bool \<times> bool) list" where
  "sites_view s = map site_view (pr_sites s)"

definition keeps :: "('k, 't) process \<Rightarrow> ('k, 't) process \<Rightarrow> bool" where
  "keeps s s' \<longleftrightarrow> shape s' = shape s \<and> pr_sites s' = pr_sites s"

lemma keeps_refl [simp]: "keeps s s"
  by (simp add: keeps_def)

lemma keeps_trans: "keeps s s1 \<Longrightarrow> keeps s1 s2 \<Longrightarrow> keeps s s2"
  by (simp add: keeps_def)

lemma shape_os [simp]: "shape (s\<lparr>pr_os := k\<rparr>) = shape s" "shape (s\<lparr>pr_sites := bs\<rparr>) = shape s" "shape (s\<lparr>pr_expecting := e\<rparr>) = shape s"
  by (simp_all add: shape_def)

lemma shape_update_thread:
  "(\<And>th. th_state (f th) = th_state th \<and> th_reason (f th) = th_reason th) \<Longrightarrow> shape (update_thread t f s) = shape s"
  by (auto simp: shape_def update_thread_def thread_view_def)

lemma foldR_keeps:
  assumes "foldR f xs s = Inr s'" and "\<And>x s s'. f x s = Inr s' \<Longrightarrow> keeps s s'"
  shows "keeps s s'"
  by (rule foldR_invariant [OF assms(1), of "keeps s"]) (auto intro: keeps_trans assms(2))

lemma request_keeps_shape: "request msg f s = Inr (u, s') \<Longrightarrow> keeps s s'"
  by (auto simp: request_Inr keeps_def)

lemma send_user_req_keeps: "send_user_req os r s = Inr s' \<Longrightarrow> keeps s s'"
  by (cases r) (auto simp: rbind_eq_Inr write_user_area_def write_fprs_def write_gprs_def dest: request_keeps_shape)

lemma write_reg_keeps:
  assumes "write_reg os otid k v s = Inr (u, s')"
  shows "keeps s s'"
proof -
  obtain regs reqs where "foldR (send_user_req os) reqs (update_thread (tid_of otid s) (\<lambda>th. th\<lparr>th_regs := regs\<rparr>) s) = Inr s'"
    using assms by (auto simp: write_reg_def rbind_eq_Inr Let_def)
  from foldR_keeps [OF this send_user_req_keeps]
  show ?thesis by (simp add: keeps_def shape_update_thread)
qed

lemma write_debug_pair_keeps: "write_debug_pair os i v c t s = Inr s' \<Longrightarrow> keeps s s'"
  by (auto simp: write_debug_pair_def rbind_eq_Inr split: if_splits intro: keeps_trans dest!: write_reg_keeps)

lemma set_hardware_stoppoint_keeps: "set_hardware_stoppoint os a m z s = Inr (i, s') \<Longrightarrow> keeps s s'"
  by (auto simp: set_hardware_stoppoint_def rbind_eq_Inr Let_def intro: keeps_trans
      dest!: write_reg_keeps foldR_keeps [OF _ write_debug_pair_keeps])

lemma clear_hardware_stoppoint_keeps: "clear_hardware_stoppoint os i s = Inr (u, s') \<Longrightarrow> keeps s s'"
  by (auto simp: clear_hardware_stoppoint_def rbind_eq_Inr Let_def split: if_splits intro: keeps_trans
      dest!: write_reg_keeps foldR_keeps [OF _ write_debug_pair_keeps])

lemma site_enable_keeps:
  "site_enable os b s = Inr (b', s') \<Longrightarrow> keeps s s' \<and> site_view b' = site_view (b\<lparr>bs_enabled := True\<rparr>)"
  by (auto simp: site_enable_def site_view_def set_hardware_breakpoint_def rbind_eq_Inr split: if_splits option.splits
      dest!: set_hardware_stoppoint_keeps request_keeps_shape)

lemma site_disable_keeps:
  "site_disable os b s = Inr (b', s') \<Longrightarrow> keeps s s' \<and> site_view b' = site_view (b\<lparr>bs_enabled := False\<rparr>)"
  by (auto simp: site_disable_def site_view_def rbind_eq_Inr split: if_splits option.splits
      dest!: clear_hardware_stoppoint_keeps request_keeps_shape)

lemma at_site_keeps:
  assumes "at_site f k s = Inr (u, s')" and "\<And>b b' s'. f b s = Inr (b', s') \<Longrightarrow> keeps s s' \<and> site_view b' = g b"
  shows "shape s' = shape s \<and> k < length (pr_sites s) \<and> sites_view s' = (sites_view s)[k := g (pr_sites s ! k)]"
  using assms by (fastforce simp: at_site_def rbind_eq_Inr keeps_def sites_view_def map_update)

lemma swallow_keeps: "swallow_pending_sigstop os tid s = Inr s' \<Longrightarrow> keeps s s'"
  by (auto simp: swallow_pending_sigstop_def rbind_eq_Inr Let_def keeps_def shape_update_thread split: if_splits)

lemma sites_view_keeps: "keeps s s' \<Longrightarrow> sites_view s' = sites_view s"
  by (simp add: keeps_def sites_view_def)

lemma nth_sites_view: "k < length (pr_sites s) \<Longrightarrow> sites_view s ! k = site_view (pr_sites s ! k)"
  by (simp add: sites_view_def)

text \<open>Stepping over a breakpoint takes it out and puts it back.\<close>

lemma step_over_keeps:
  assumes "step_over_breakpoint os tid s = Inr s'"
  shows "shape s' = shape s \<and> sites_view s' = sites_view s"
proof -
  obtain pc where pc: "get_pc (Some tid) s = Inr pc" using assms by (auto simp: step_over_breakpoint_def rbind_eq_Inr)
  show ?thesis
  proof (cases "sp_enabled_at_address bs_at_address bs_enabled pc (pr_sites s)")
    case True
    then obtain k s1 s2 s3 s4 where k: "sp_find_by_address bs_at_address pc (pr_sites s) = Some k" "bs_enabled (pr_sites s ! k)"
        and d: "at_site (site_disable os) k s = Inr ((), s1)" and w: "swallow_pending_sigstop os tid s1 = Inr s2"
        and r: "request ''Failed to single-step!'' (os_singlestep os tid) s2 = Inr ((), s3)"
        and q: "request ''waitpid failed'' (\<lambda>k. map_option (\<lambda>(_, _, k). k) (os_waitpid os tid k)) s3 = Inr ((), s4)"
        and e: "at_site (site_enable os) k s4 = Inr ((), s')"
      using assms pc by (auto simp: step_over_breakpoint_def sp_enabled_at_address_def sp_get_by_address_def rbind_eq_Inr split: option.splits)
    note 1 = at_site_keeps [OF d site_disable_keeps]
    have m: "keeps s1 s4" using swallow_keeps [OF w] request_keeps_shape [OF r] request_keeps_shape [OF q] by (blast intro: keeps_trans)
    note 2 = at_site_keeps [OF e site_enable_keeps]
    have len: "k < length (sites_view s)" using 1 by (simp add: sites_view_def)
    have "site_view (pr_sites s1 ! k) = site_view ((pr_sites s ! k)\<lparr>bs_enabled := False\<rparr>)"
    proof -
      have "length (sites_view s1) = length (sites_view s)" using 1 by simp
      then have "k < length (pr_sites s1)" using len by (simp add: sites_view_def)
      from nth_sites_view [OF this] show ?thesis using 1 len by simp
    qed
    then have "site_view ((pr_sites s4 ! k)\<lparr>bs_enabled := True\<rparr>) = sites_view s ! k"
      using m k(2) 1 by (simp add: keeps_def site_view_def nth_sites_view)
    then have "sites_view s' = sites_view s" using 1 2 sites_view_keeps [OF m] by simp
    then show ?thesis using 1 2 m by (simp add: keeps_def)
  next
    case False
    then show ?thesis using assms pc by (simp add: step_over_breakpoint_def)
  qed
qed

lemma shape_names: "shape s' = shape s \<Longrightarrow> map fst (pr_threads s') = map fst (pr_threads s)"
proof -
  assume "shape s' = shape s"
  then have "map fst (map thread_view (pr_threads s')) = map fst (map thread_view (pr_threads s))" by (simp add: shape_def)
  then show ?thesis by (simp add: thread_view_def comp_def split_beta)
qed

lemma send_continue_effect:
  assumes "send_continue os tid s = Inr s'"
  shows "map thread_view (pr_threads s') = map (\<lambda>(t, st, r). (t, if t = tid then Running else st, r)) (map thread_view (pr_threads s))
    \<and> sites_view s' = sites_view s"
  using assms by (auto simp: send_continue_def rbind_eq_Inr request_Inr update_thread_def thread_view_def sites_view_def)

lemma continue_all:
  "foldR (send_continue os) ts s = Inr s' \<Longrightarrow>
   map thread_view (pr_threads s') = map (\<lambda>(t, st, r). (t, if t \<in> set ts then Running else st, r)) (map thread_view (pr_threads s))
   \<and> sites_view s' = sites_view s"
proof (induction ts arbitrary: s)
  case Nil
  then show ?case by (simp add: comp_def split_beta)
next
  case (Cons t ts)
  then obtain s1 where s1: "send_continue os t s = Inr s1" "foldR (send_continue os) ts s1 = Inr s'" by (auto simp: rbind_eq_Inr)
  from Cons.IH [OF s1(2)] send_continue_effect [OF s1(1)] show ?case by (auto simp: comp_def split_beta)
qed

lemma step_over_all: "foldR (step_over_breakpoint os) ts s = Inr s' \<Longrightarrow> shape s' = shape s \<and> sites_view s' = sites_view s"
  by (rule foldR_invariant [of _ _ _ _ "\<lambda>s'. shape s' = shape s \<and> sites_view s' = sites_view s"]) (auto dest: step_over_keeps)

text \<open>
  C12: continuing all threads, when it succeeds, leaves every thread running, knows the same
  threads as before, and has put every breakpoint it stepped over back into force.
\<close>

theorem resume_all_threads_resumes:
  assumes "resume_all_threads os s = Inr s'"
  shows "map fst (pr_threads s') = map fst (pr_threads s) \<and> th_state ` snd ` set (pr_threads s') \<subseteq> {Running}
    \<and> map bs_enabled (pr_sites s') = map bs_enabled (pr_sites s) \<and> map bs_address (pr_sites s') = map bs_address (pr_sites s)"
proof -
  obtain s1 where 1: "foldR (step_over_breakpoint os) (map fst (pr_threads s)) s = Inr s1"
      and 2: "foldR (send_continue os) (map fst (pr_threads s1)) s1 = Inr s'"
    using assms by (auto simp: resume_all_threads_def rbind_eq_Inr)
  note a = step_over_all [OF 1] and b = continue_all [OF 2]
  have v: "map thread_view (pr_threads s') = map (\<lambda>(t, th). (t, Running, th_reason th)) (pr_threads s1)"
    using b by (auto simp: thread_view_def split_beta)
  have "map fst (map thread_view (pr_threads s')) = map fst (pr_threads s1)" unfolding v by (simp add: comp_def split_beta)
  then have names: "map fst (pr_threads s') = map fst (pr_threads s)"
    using shape_names [of s1 s] a by (simp add: thread_view_def comp_def split_beta)
  have "(\<lambda>(t, st, r). st) ` set (map thread_view (pr_threads s')) \<subseteq> {Running}" unfolding v by auto
  then have run: "th_state ` snd ` set (pr_threads s') \<subseteq> {Running}" by (auto simp: thread_view_def image_subset_iff)
  have sv: "sites_view s' = sites_view s" using a b by simp
  have "map (\<lambda>(p, i, a, e, h). e) (sites_view s') = map (\<lambda>(p, i, a, e, h). e) (sites_view s)"
    "map (\<lambda>(p, i, a, e, h). a) (sites_view s') = map (\<lambda>(p, i, a, e, h). a) (sites_view s)" using sv by simp_all
  then have "map bs_enabled (pr_sites s') = map bs_enabled (pr_sites s)" "map bs_address (pr_sites s') = map bs_address (pr_sites s)"
    by (simp_all add: sites_view_def site_view_def comp_def)
  with names run show ?thesis by simp
qed

subsection \<open>Waiting\<close>

text \<open>A wait returns the number of a thread, which is positive, and no thread 0 can be continued.\<close>

definition kernel_threads :: "'k os \<Rightarrow> bool" where
  "kernel_threads os \<longleftrightarrow> (\<forall>k. os_cont os 0 k = None \<and> os_syscall os 0 k = None)
     \<and> (\<forall>pid k t st k'. os_waitpid os pid k = Some (t, st, k') \<longrightarrow> 0 < t)"

lemma resume_zero_fails: "kernel_threads os \<Longrightarrow> \<exists>e. andthen (resume os (Some 0) s) f = Some (Inl e)"
  by (cases "step_over_breakpoint os 0 s")
    (auto simp: resume_def tid_of_def Let_def send_continue_def request_def kernel_threads_def)

lemma stop_reason_of_tid: "stop_reason_of tid status = Inr r \<Longrightarrow> sr_tid r = tid"
  by (auto simp: stop_reason_of_def Let_def split: if_splits)

lemma has_thread_os [simp]: "has_thread t (s\<lparr>pr_os := k\<rparr>) = has_thread t s"
  by (simp add: has_thread_def)

lemma thread_at_missing: "\<not> has_thread t s \<Longrightarrow> thread_at t s = Inl OutOfRange"
  by (simp add: has_thread_def thread_at_def map_at_def)

lemma handle_signal_unknown_thread:
  assumes "\<not> has_thread (sr_tid r) s"
  shows "(\<exists>e. handle_signal os h r True s = Inl e) \<or> (\<exists>s'. handle_signal os h r True s = Inr (None, s'))
    \<or> (\<exists>r'. handle_signal os h r True s = Inr (Some r', s))"
  using assms by (cases "hk_lifecycle h r (add_thread os (sr_tid r) s)") (auto simp: handle_signal_def)

lemma wait_on_signal_fails:
  assumes "kernel_threads os" and "\<not> has_thread 0 s"
  shows "\<exists>e. wait_on_signal os h (Suc n) to_await s = Some (Inl e)"
proof (cases "os_waitpid os to_await (pr_os s)")
  case (Some x)
  obtain waited status k where x: "x = (waited, status, k)" by (cases x)
  have tid: "assigned_tid waited = 0" using assms(1) Some x by (fastforce simp: kernel_threads_def assigned_tid_def)
  show ?thesis
  proof (cases "stop_reason_of 0 status")
    case (Inr r)
    let ?s = "s\<lparr>pr_os := k\<rparr>"
    have missing: "\<not> has_thread (sr_tid r) ?s" using assms(2) stop_reason_of_tid [OF Inr] by simp
    note run = handle_signal_unknown_thread [OF this, of os h] and miss = thread_at_missing [OF assms(2)]
    from run show ?thesis
    proof (elim disjE exE)
      fix s' assume "handle_signal os h r True ?s = Inr (None, s')"
      then show ?thesis using Some x Inr resume_zero_fails [OF assms(1), of s'] by (simp add: wait_on_signal_def tid)
    qed (use Some x Inr miss in \<open>simp_all add: wait_on_signal_def tid\<close>)
  qed (use Some x in \<open>simp add: wait_on_signal_def tid\<close>)
qed (simp add: wait_on_signal_def)

lemma disable_shape: "at_site (site_disable os) k s = Inr (u, s') \<Longrightarrow> shape s' = shape s"
  by (auto simp: at_site_def rbind_eq_Inr keeps_def dest!: site_disable_keeps)

lemma shape_has_thread:
  assumes "shape s' = shape s"
  shows "has_thread t s' \<longleftrightarrow> has_thread t s"
proof -
  have "set (map fst (pr_threads s')) = set (map fst (pr_threads s))" using shape_names [OF assms] by simp
  then show ?thesis by (simp add: has_thread_def map_of_eq_None_iff)
qed

text \<open>
  C40: because the wait assigns the result of a comparison instead of the thread it waited for,
  waiting for a signal and stepping an instruction never return a reason: for every fuel that
  lets the wait be made at all they end in an error.
\<close>

theorem waiting_always_fails:
  assumes "kernel_threads os" and "\<not> has_thread 0 s"
  shows "(\<exists>e. wait_on_signal os h (Suc n) to_await s = Some (Inl e)) \<and> (\<exists>e. step_instruction os h (Suc n) otid s = Some (Inl e))"
proof
  show "\<exists>e. wait_on_signal os h (Suc n) to_await s = Some (Inl e)" by (rule wait_on_signal_fails [OF assms])
  let ?tid = "tid_of otid s"
  let ?prep = "\<lambda>pc. if sp_enabled_at_address bs_at_address bs_enabled pc (pr_sites s)
               then rbind (sp_get_by_address bs_at_address pc (pr_sites s)) (\<lambda>k.
                    rbind (at_site (site_disable os) k s) (\<lambda>(_, s1). Inr (Some k, s1)))
               else Inr (None, s)"
  show "\<exists>e. step_instruction os h (Suc n) otid s = Some (Inl e)"
  proof (cases "\<exists>pc o1 s1 s2 s3. get_pc (Some ?tid) s = Inr pc \<and> ?prep pc = Inr (o1, s1)
      \<and> swallow_pending_sigstop os ?tid s1 = Inr s2 \<and> request ''Could not single step'' (os_singlestep os ?tid) s2 = Inr ((), s3)")
    case True
    then obtain pc o1 s1 s2 s3 where pc: "get_pc (Some ?tid) s = Inr pc" and prep: "?prep pc = Inr (o1, s1)"
        and sw: "swallow_pending_sigstop os ?tid s1 = Inr s2" and rq: "request ''Could not single step'' (os_singlestep os ?tid) s2 = Inr ((), s3)"
      by blast
    have "shape s1 = shape s" using prep by (auto simp: rbind_eq_Inr split: if_splits dest: disable_shape)
    then have "shape s3 = shape s" using swallow_keeps [OF sw] request_keeps_shape [OF rq] by (simp add: keeps_def)
    then have "\<not> has_thread 0 s3" using shape_has_thread assms(2) by blast
    from wait_on_signal_fails [OF assms(1) this] obtain e where "wait_on_signal os h (Suc n) ?tid s3 = Some (Inl e)" by blast
    then show ?thesis using pc prep sw rq by (simp add: step_instruction_def Let_def)
  next
    case False
    then show ?thesis
      by (cases "get_pc (Some ?tid) s")
        (auto simp: step_instruction_def Let_def andthen_def split: sum.splits)
  qed
qed

subsection \<open>System calls\<close>

text \<open>The explanations of a run of stops, in order.\<close>

fun explain_stops :: "'k os \<Rightarrow> stop_reason list \<Rightarrow> (stop_reason list, 'k, 't) op" where
  "explain_stops os [] s = Inr ([], s)"
| "explain_stops os (r # rs) s = rbind (augment_stop_reason os r s) (\<lambda>(r', s1).
     rbind (explain_stops os rs s1) (\<lambda>(rs', s2). Inr (r' # rs', s2)))"

definition is_entry :: "stop_reason \<Rightarrow> bool" where
  "is_entry r \<longleftrightarrow> (case sr_syscall r of Some (SyscallEntry _ args) \<Rightarrow> length args = 6 | _ \<Rightarrow> False)"

definition is_exit :: "stop_reason \<Rightarrow> bool" where
  "is_exit r \<longleftrightarrow> (case sr_syscall r of Some (SyscallExit _ _) \<Rightarrow> True | _ \<Rightarrow> False)"

definition is_syscall_stop :: "stop_reason \<Rightarrow> bool" where
  "is_syscall_stop r \<longleftrightarrow> sr_info r = SIGTRAP OR 0x80"

lemma augment_syscall_stop:
  assumes "augment_stop_reason os r s = Inr (r', s')" and "is_syscall_stop r"
  shows "(pr_expecting s' \<longleftrightarrow> \<not> pr_expecting s) \<and> (if pr_expecting s then is_exit r' else is_entry r')
    \<and> sr_info r' = SIGTRAP \<and> sr_trap r' = Some SyscallTrap"
  using assms
  by (cases "pr_expecting s") (auto simp: augment_stop_reason_def augment_syscall_def is_syscall_stop_def is_exit_def is_entry_def rbind_eq_Inr Let_def
      syscall_arg_regs_def split: option.splits if_splits)

lemma augment_other_stop:
  assumes "augment_stop_reason os r s = Inr (r', s')" and "\<not> is_syscall_stop r"
  shows "\<not> pr_expecting s'"
  using assms by (auto simp: augment_stop_reason_def is_syscall_stop_def split: option.splits)


subsection \<open>Threads that are gone\<close>

text \<open>
  The clean-up forgets exactly the threads that have exited or were killed, except the one
  whose stop is being handled, keeps the others in their order, and reports a reason only when
  the main thread is among those it forgets.
\<close>

theorem cleanup_forgets_exited_threads:
  assumes "cleanup_exited_threads t s = (rep, s')" and "distinct (map fst (pr_threads s))"
  shows "pr_threads s' = filter (\<lambda>x. \<not> gone t x) (pr_threads s)
    \<and> rep = (case map_of (pr_threads s) (pr_pid s) of None \<Rightarrow> None
        | Some th \<Rightarrow> if gone t (pr_pid s, th) then Some (th_reason th) else None)"
proof -
  have key: "x \<in> fst ` set (filter (gone t) (pr_threads s)) \<longleftrightarrow> gone t (x, th)" if "(x, th) \<in> set (pr_threads s)" for x th
    using that by (auto dest: eq_key_imp_eq_value [OF assms(2)] intro: image_eqI [where x = "(x, th)"])
  have "pr_threads s' = filter (\<lambda>(x, _). x \<notin> fst ` set (filter (gone t) (pr_threads s))) (pr_threads s)"
    using assms(1) by (auto simp: cleanup_exited_threads_def Let_def)
  also have "\<dots> = filter (\<lambda>x. \<not> gone t x) (pr_threads s)"
    by (rule filter_cong [OF refl]) (use key in \<open>simp add: split_paired_all\<close>)
  finally have kept: "pr_threads s' = filter (\<lambda>x. \<not> gone t x) (pr_threads s)" .
  have "map_of (filter (gone t) xs) p = (case map_of xs p of None \<Rightarrow> None | Some th \<Rightarrow> if gone t (p, th) then Some th else None)"
    if "distinct (map fst xs)" for xs p
    using that by (induction xs) (auto simp: map_of_eq_None_iff split: option.splits)
  from this [OF assms(2), of "pr_pid s"] assms(1) kept show ?thesis
    by (auto simp: cleanup_exited_threads_def Let_def split: option.splits)
qed

subsection \<open>Hits\<close>

lemma store_user_keeps: "keeps s (store_user tid off bs s) \<and> pr_os (store_user tid off bs s) = pr_os s"
  by (simp add: store_user_def keeps_def shape_update_thread)

lemma read_all_registers_shape:
  assumes "read_all_registers os tid s = Inr (u, s')"
  shows "keeps s s' \<and> pr_os s' = pr_os s"
proof -
  obtain b1 b2 where "foldR (read_debug_register os tid) [0..<8] (store_user tid i387_offset b2 (store_user tid i387_offset b1 s)) = Inr s'"
    using assms unfolding read_all_registers_def by (fastforce simp: rbind_eq_Inr split: option.splits)
  then show ?thesis
  proof (rule foldR_invariant)
    show "keeps s (store_user tid i387_offset b2 (store_user tid i387_offset b1 s))
        \<and> pr_os (store_user tid i387_offset b2 (store_user tid i387_offset b1 s)) = pr_os s"
      using store_user_keeps by (metis keeps_trans)
    fix i s1 s2 assume "keeps s s1 \<and> pr_os s1 = pr_os s" "read_debug_register os tid i s1 = Inr s2"
    moreover from this obtain off bs where "s2 = store_user tid off bs s1"
      by (auto simp: read_debug_register_def rbind_eq_Inr split: option.splits)
    ultimately show "keeps s s2 \<and> pr_os s2 = pr_os s"
      using store_user_keeps [of s1 tid off bs] by (auto intro: keeps_trans)
  qed
qed

lemma set_pc_get_pc:
  assumes "set_pc os a (Some t) s = Inr (u, s')" and "get_registers (Some t) s = Inr regs" and "regs_inv regs"
    and "is_undefined rid_rip regs = Inr False"
  shows "get_pc (Some t) s' = Inr a"
proof -
  let ?i = "g_register_infos ! rid_rip"
  have i: "reg_fmt ?i = UintF" "reg_size ?i = 8" "reg_id ?i = rid_rip" "info_ok ?i"
    using gpr_below_i387 [of rid_rip] reg_id_nth [of rid_rip] all_infos_ok length_g_register_infos nth_mem [of rid_rip g_register_infos]
    by (auto simp: rid_rip_def)
  obtain regs' reqs where w: "reg_write (os_fc os) ?i (VU64 (addr a)) True regs = Inr (regs', reqs)"
      and f: "foldR (send_user_req os) reqs (update_thread t (\<lambda>th. th\<lparr>th_regs := regs'\<rparr>) s) = Inr s'"
    using assms(1,2) by (auto simp: set_pc_def write_reg_def rbind_eq_Inr Let_def tid_of_def write_by_id_def register_info_by_id_nth rid_rip_def)
  have "reg_read ?i regs' = Inr (VU64 (addr a))" using reg_write_read [OF w] i assms(3,4) by simp
  then have r: "read_by_id_as_u64 rid_rip regs' = Inr (addr a)"
    by (simp add: read_by_id_as_u64_def register_info_by_id_nth rid_rip_def get_u64_def)
  have "get_registers (Some t) s' = Inr regs'"
    using foldR_send_keeps [OF f] assms(2)
    by (auto simp: get_registers_def tid_of_def thread_at_def map_at_def rbind_eq_Inr split: option.splits)
  then show ?thesis using r by (simp add: get_pc_def read_reg_def)
qed

lemma get_pc_defined:
  assumes "get_pc (Some t) s = Inr pc" and "get_registers (Some t) s = Inr regs"
  shows "is_undefined rid_rip regs = Inr False" and "reg_read (g_register_infos ! rid_rip) regs = Inr (VU64 (addr pc))"
proof -
  have "rbind (reg_read (g_register_infos ! rid_rip) regs) get_u64 = Inr (addr pc)"
    using assms by (auto simp: get_pc_def read_reg_def read_by_id_as_u64_def register_info_by_id_nth rid_rip_def rbind_eq_Inr)
  then obtain x where x: "reg_read (g_register_infos ! rid_rip) regs = Inr x" "get_u64 x = Inr (addr pc)" by (rule rbindE)
  then have "x = VU64 (addr pc)" by (cases x) (simp_all add: get_u64_def)
  with x(1) show "reg_read (g_register_infos ! rid_rip) regs = Inr (VU64 (addr pc))" by simp
  then show "is_undefined rid_rip regs = Inr False"
    using reg_id_nth [of rid_rip] by (auto simp: reg_read_def rbind_eq_Inr rid_rip_def split: if_splits)
qed


subsection \<open>Concrete runs\<close>

definition sample_hooks :: "(u64 \<Rightarrow> u8, unit) hooks" where
  "sample_hooks = \<lparr>hk_hit = (\<lambda>p s. Inr (False, s)), hk_stop = (\<lambda>r s. Inr s), hk_lifecycle = (\<lambda>r s. Inr s)\<rparr>"

definition stop_with :: "u8 \<Rightarrow> stop_reason" where
  "stop_with sig = \<lparr>sr_info = sig, sr_reason = Stopped, sr_trap = None, sr_syscall = None, sr_tid = 100\<rparr>"

definition with_regs :: "registers \<Rightarrow> (u64 \<Rightarrow> u8, unit) process" where
  "with_regs regs = update_thread 100 (\<lambda>th. th\<lparr>th_regs := regs\<rparr>) trapped_process"

definition rip_registers :: "u64 \<Rightarrow> registers" where
  "rip_registers a = zero_registers\<lparr>rg_data := copy_at 128 (as_bytes a) (replicate 912 0)\<rparr>"

lemma sample_process_fields: "pr_pid sample_process = 100" "pr_current sample_process = 100" "pr_attached sample_process"
    "pr_target sample_process = None" "pr_policy sample_process = catch_none" "pr_watch sample_process = []"
  by (simp_all add: sample_process_def mk_process_def populate_existing_threads_def sample_os_def add_thread_def has_thread_def)

lemma with_regs_thread: "thread_at 100 (with_regs regs) = Inr ((mk_thread sample_os 100)\<lparr>th_regs := regs\<rparr>)"
  by (simp add: with_regs_def thread_at_update_thread)
    (simp add: thread_at_def map_at_def trapped_process_def sample_process_threads)

lemma with_regs_registers: "get_registers (Some 100) (with_regs regs) = Inr regs"
  by (simp add: get_registers_def tid_of_def with_regs_thread)

lemma rip_registers_pc:
  "regs_inv (rip_registers a)" "reg_read (g_register_infos ! rid_rip) (rip_registers a) = Inr (VU64 a)"
proof -
  show "regs_inv (rip_registers a)" by (simp add: regs_inv_def rip_registers_def sizeof_user_def)
  note rip_offset
  moreover have "bytes_at 128 8 (copy_at 128 (as_bytes a) (replicate 912 0)) = as_bytes a"
    using bytes_at_copy_at [of 128 "as_bytes a" "replicate 912 0"] by simp
  ultimately show "reg_read (g_register_infos ! rid_rip) (rip_registers a) = Inr (VU64 a)"
    using gpr_below_i387 [of rid_rip] reg_id_nth [of rid_rip]
    by (simp add: reg_read_def reg_bytes_def rip_registers_def is_undefined_def register_info_by_id_nth zero_registers_def rid_rip_def from_as_bytes)
qed

lemma pc_of_registers:
  "get_registers (Some t) s = Inr regs \<Longrightarrow> reg_read (g_register_infos ! rid_rip) regs = Inr (VU64 a) \<Longrightarrow> get_pc (Some t) s = Inr (VirtAddr a)"
  by (simp add: get_pc_def read_reg_def read_by_id_as_u64_def register_info_by_id_nth rid_rip_def get_u64_def)

lemma sample_read_all:
  assumes "thread_at t (s :: (u64 \<Rightarrow> u8, unit) process) = Inr th"
  shows "\<exists>s'. read_all_registers sample_os t s = Inr ((), s')"
proof -
  let ?s2 = "store_user t i387_offset (replicate 512 2) (store_user t i387_offset (replicate 216 1) s)"
  obtain s' where "foldR (read_debug_register sample_os t) [0..<8] ?s2 = Inr s'"
    using foldR_returns [of "[0..<8]" "read_debug_register sample_os t" ?s2] read_debug_register_returns by auto
  then show ?thesis using assms by (simp add: read_all_registers_def) (simp add: sample_os_def)
qed

lemma sample_set_pc:
  assumes "get_registers (Some t) (s :: (u64 \<Rightarrow> u8, unit) process) = Inr regs"
  shows "\<exists>s'. set_pc sample_os a (Some t) s = Inr ((), s')"
proof -
  have "reg_type (g_register_infos ! rid_rip) \<noteq> Fpr" using gpr_place [of rid_rip] by (simp add: rid_rip_def)
  moreover have "os_pokeuser sample_os (pr_pid s) off w k \<noteq> None" for off w k by (simp add: sample_os_def)
  ultimately show ?thesis using write_reg_returns [OF assms, of rid_rip sample_os "addr a"] gpr_below_i387 [of rid_rip]
    by (simp add: set_pc_def rid_rip_def)
qed


lemma sample_kernel_threads: "kernel_threads sample_os"
  by (auto simp: kernel_threads_def sample_os_def)

lemma waiting_always_fails_witness:
  "(\<exists>e. wait_on_signal sample_os sample_hooks 3 (- 1) sample_process = Some (Inl e))
   \<and> (\<exists>e. step_instruction sample_os sample_hooks 3 None sample_process = Some (Inl e))"
proof -
  have "\<not> has_thread 0 sample_process" by (simp add: has_thread_def sample_process_threads)
  from waiting_always_fails [OF sample_kernel_threads this, of sample_hooks 2 "- 1" None] show ?thesis
    by (simp add: numeral_3_eq_3 numeral_2_eq_2)
qed

lemma sample_pc: "get_pc (Some 100) sample_process = Inr (VirtAddr 0)"
proof -
  from zero_rip_read have "reg_read (g_register_infos ! rid_rip) (mk_registers sample_os 100) = Inr (VU64 0)" by (simp add: sample_registers zero_registers_def)
  with sample_get_registers show ?thesis by (rule pc_of_registers)
qed

lemma resume_all_threads_resumes_witness:
  "\<exists>s'. resume_all_threads sample_os sample_process = Inr s' \<and> map fst (pr_threads s') = [100] \<and> th_state ` snd ` set (pr_threads s') \<subseteq> {Running}"
proof -
  have sites: "pr_sites sample_process = []"
    by (simp add: sample_process_def mk_process_def populate_existing_threads_def sample_os_def add_thread_def has_thread_def)
  have cont: "os_cont sample_os 100 k = Some k" for k by (simp add: sample_os_def)
  have "step_over_breakpoint sample_os 100 sample_process = Inr sample_process"
    using sample_pc by (simp add: step_over_breakpoint_def sp_enabled_at_address_def sp_find_by_address_def sites)
  moreover have "\<exists>s'. send_continue sample_os 100 sample_process = Inr s'"
    using cont by (simp add: send_continue_def request_def sample_process_fields catch_none_def thread_at_def map_at_def sample_process_threads)
  ultimately obtain s' where run: "resume_all_threads sample_os sample_process = Inr s'"
    by (auto simp: resume_all_threads_def sample_process_threads)
  from resume_all_threads_resumes [OF run] run show ?thesis by (simp add: sample_process_threads)
qed

lemma sample_gprs: "i < 25 \<Longrightarrow> read_reg (Some 100) i sample_process = Inr 0"
proof -
  assume i: "i < 25"
  have "reg_bytes (g_register_infos ! i) zero_registers 8 = replicate 8 0"
    using gpr_below_i387 [OF i] by (auto simp: reg_bytes_def zero_registers_def sizeof_user_def bytes_at_def i387_offset_def min_def)
  moreover have "(from_bytes (replicate 8 0) :: u64) = 0" by (rule from_zero_bytes)
  ultimately have z: "(from_bytes (reg_bytes (g_register_infos ! i) zero_registers 8) :: u64) = 0" by (simp only:)
  have "is_undefined i zero_registers = Inr False"
    using i by (simp add: is_undefined_def register_info_by_id_nth zero_registers_def)
  then have "reg_read (g_register_infos ! i) zero_registers = Inr (VU64 0)"
    using gpr_below_i387 [OF i] reg_id_nth [of i] i z by (simp add: reg_read_def)
  then have "read_by_id_as_u64 i zero_registers = Inr 0" using i by (simp add: read_by_id_as_u64_def register_info_by_id_nth get_u64_def)
  then have "read_by_id_as_u64 i (mk_registers sample_os 100) = Inr 0" by (simp add: sample_registers zero_registers_def)
  then show ?thesis by (simp add: read_reg_def sample_get_registers)
qed


lemma cleanup_forgets_exited_threads_witness:
  "pr_threads (snd (cleanup_exited_threads 100 (sample_process\<lparr>pr_threads :=
      [(100, mk_thread sample_os 100), (101, (mk_thread sample_os 101)\<lparr>th_state := Exited\<rparr>)]\<rparr>))) = [(100, mk_thread sample_os 100)]"
  (is "pr_threads (snd (cleanup_exited_threads 100 ?s)) = _")
proof -
  obtain rep s' where run: "cleanup_exited_threads 100 ?s = (rep, s')" by (cases "cleanup_exited_threads 100 ?s") blast
  have "distinct (map fst (pr_threads ?s))" by simp
  from cleanup_forgets_exited_threads [OF run this] have "pr_threads s' = filter (\<lambda>x. \<not> gone 100 x) (pr_threads ?s)" by blast
  then show ?thesis unfolding run snd_conv by (simp add: gone_def mk_thread_def)
qed

end
