(* ===== verification/KD_Cfi.thy ===== *)
theory KD_Cfi
  imports KD_Registers KD_Forms KD_Elf
begin

text \<open>
  Call frame information (\<open>call_frame_information\<close> and the functions around it in
  \<open>src/dwarf.cpp\<close>): encoded pointers, the two kinds of entries of \<open>.eh_frame\<close>, the binary
  search of \<open>.eh_frame_hdr\<close>, the interpreter of frame instructions and the rules that compute
  the registers of the caller.
\<close>

unbundle bit_operations_syntax

subsection \<open>Encoded pointers\<close>

definition eh_base_value :: "image \<Rightarrow> u8 \<Rightarrow> u64 reader" where
  "eh_base_value img encoding c =
     (let e = encoding AND 0x0f in
      if e = 0x00 then cu64 img c
      else if e = 0x01 then uleb128 img c
      else if e = 0x02 then rbind (cu16 img c) (\<lambda>(v, c'). Inr (ucast v, c'))
      else if e = 0x03 then rbind (cu32 img c) (\<lambda>(v, c'). Inr (ucast v, c'))
      else if e = 0x04 then cu64 img c
      else if e = 0x09 then sleb128 img c
      else if e = 0x0a then rbind (cs16 img c) (\<lambda>(v, c'). Inr (scast v, c'))
      else if e = 0x0b then rbind (cs32 img c) (\<lambda>(v, c'). Inr (scast v, c'))
      else if e = 0x0c then cs64 img c
      else Inl (Send ''Unkown eh_frame pointer encoding''))"

definition parse_eh_frame_pointer_with_base :: "image \<Rightarrow> u8 \<Rightarrow> u64 \<Rightarrow> u64 reader" where
  "parse_eh_frame_pointer_with_base img encoding base c =
     rbind (eh_base_value img encoding c) (\<lambda>(v, c'). Inr (base + v, c'))"

definition eh_pointer_base :: "u8 \<Rightarrow> u64 \<Rightarrow> u64 \<Rightarrow> u64 \<Rightarrow> u64 \<Rightarrow> u64 result" where
  "eh_pointer_base encoding pc text_start data_start func_start =
     (let e = encoding AND 0x70 in
      if e = 0x00 then Inr 0
      else if e = 0x10 then Inr pc
      else if e = 0x20 then Inr text_start
      else if e = 0x30 then Inr data_start
      else if e = 0x40 then Inr func_start
      else Inl (Send ''Unkown eh_frame pointer encoding''))"

definition parse_eh_frame_pointer :: "image \<Rightarrow> u8 \<Rightarrow> u64 \<Rightarrow> u64 \<Rightarrow> u64 \<Rightarrow> u64 \<Rightarrow> u64 reader" where
  "parse_eh_frame_pointer img encoding pc text_start data_start func_start c =
     rbind (eh_pointer_base encoding pc text_start data_start func_start) (\<lambda>base.
     parse_eh_frame_pointer_with_base img encoding base c)"

definition eh_frame_pointer_encoding_size :: "u8 \<Rightarrow> nat result" where
  "eh_frame_pointer_encoding_size encoding =
     (let e = encoding AND 0x07 in
      if e = 0 then Inr 8 else if e = 2 then Inr 2 else if e = 3 then Inr 4 else if e = 4 then Inr 8
      else Inl (Send ''Invalid pointer encoding''))"

subsection \<open>Entries of .eh_frame\<close>

record cie =
  cie_length :: u32
  cie_code_alignment :: u64
  cie_data_alignment :: u64
  cie_fde_has_augmentation :: bool
  cie_fde_pointer_encoding :: u8
  cie_instructions :: span

record fde =
  fde_length :: u32
  fde_cie :: cie
  fde_initial_location :: file_addr
  fde_address_range :: u64
  fde_instructions :: span

text \<open>The loop over the augmentation string; the value is the encoding of pointers in an FDE.\<close>

fun parse_augmentation :: "image \<Rightarrow> u8 list \<Rightarrow> u8 \<Rightarrow> u8 reader" where
  "parse_augmentation img [] enc c = Inr (enc, c)"
| "parse_augmentation img (ch # chs) enc c =
     (if ch = of_char (CHR ''z'') then rbind (uleb128 img c) (\<lambda>(_, c'). parse_augmentation img chs enc c')
      else if ch = of_char (CHR ''R'') then rbind (cu8 img c) (\<lambda>(e, c'). parse_augmentation img chs e c')
      else if ch = of_char (CHR ''L'') then rbind (cu8 img c) (\<lambda>(_, c'). parse_augmentation img chs enc c')
      else if ch = of_char (CHR ''P'') then
        rbind (cu8 img c) (\<lambda>(encoding, c1).
        rbind (parse_eh_frame_pointer_with_base img encoding 0 c1) (\<lambda>(_, c2). parse_augmentation img chs enc c2))
      else Inl (Send ''Invalid CIE augmentation''))"

definition parse_cie :: "image \<Rightarrow> cursor \<Rightarrow> cie result" where
  "parse_cie img cur =
     rbind (cu32 img cur) (\<lambda>(len, c1).
     let length = len + 4 in
     rbind (cu32 img c1) (\<lambda>(cie_id, c2).
     rbind (cu8 img c2) (\<lambda>(version, c3).
     rbind (guard (version = 1 \<or> version = 3 \<or> version = 4) (Send ''Invalid CIE version'')) (\<lambda>_.
     rbind (cursor_string img c3) (\<lambda>(augmentation, c4).
     rbind (guard (augmentation = [] \<or> hd augmentation = of_char (CHR ''z'')) (Send ''Invalid CIE augmentation'')) (\<lambda>_.
     rbind (if version = 4 then
              rbind (cu8 img c4) (\<lambda>(address_size, c5).
              rbind (cu8 img c5) (\<lambda>(segment_size, c6).
              rbind (guard (address_size = 8) (Send ''Invalid address size'')) (\<lambda>_.
              rbind (guard (segment_size = 0) (Send ''Invalid segment size'')) (\<lambda>_. Inr c6))))
            else Inr c4) (\<lambda>c7.
     rbind (uleb128 img c7) (\<lambda>(code_alignment, c8).
     rbind (sleb128 img c8) (\<lambda>(data_alignment, c9).
     rbind (if version = 1 then rbind (cu8 img c9) (\<lambda>(_, c'). Inr c') else rbind (uleb128 img c9) (\<lambda>(_, c'). Inr c')) (\<lambda>c10.
     rbind (parse_augmentation img augmentation 0x04 c10) (\<lambda>(enc, c11).
     Inr \<lparr>cie_length = length, cie_code_alignment = code_alignment, cie_data_alignment = data_alignment,
        cie_fde_has_augmentation = (augmentation \<noteq> []), cie_fde_pointer_encoding = enc,
        cie_instructions = mk_span (cpos c11) (cpos cur + unat length)\<rparr>)))))))))))"

text \<open>The cache of CIEs is keyed by the low 32 bits of the offset.\<close>

type_synonym cie_map = "u32 \<rightharpoonup> cie"

definition parse_cie_at :: "elf \<Rightarrow> file_offset \<Rightarrow> cie result" where
  "parse_cie_at f at = (let section = get_section_contents f (ascii ''.eh_frame'') in
     parse_cie (e_image f) (mk_cursor (mk_span (file_offset_as_data_pointer f at) (send section))))"

definition get_cie :: "elf \<Rightarrow> file_offset \<Rightarrow> cie_map \<Rightarrow> (cie \<times> cie_map) result" where
  "get_cie f at m =
     (let key = ucast (fo_off at) :: u32 in
      case m key of
        Some cie \<Rightarrow> Inr (cie, m)
      | None \<Rightarrow> rbind (parse_cie_at f at) (\<lambda>cie.
          let m' = emplace key cie m in rbind (map_at m' key) (\<lambda>c. Inr (c, m'))))"

definition section_start_or_default :: "elf \<Rightarrow> string \<Rightarrow> file_addr" where
  "section_start_or_default f name = (case get_section_start_address f (ascii name) of
      None \<Rightarrow> file_addr_default | Some a \<Rightarrow> a)"

definition parse_fde :: "elf \<Rightarrow> cursor \<Rightarrow> cie_map \<Rightarrow> (fde \<times> cie_map) result" where
  "parse_fde f cur m =
     (let img = e_image f in
      rbind (cu32 img cur) (\<lambda>(len, c1).
      let length = len + 4; current_offset = fo_off (data_pointer_as_file_offset f (cpos c1)) in
      rbind (cs32 img c1) (\<lambda>(d, c2).
      let cie_offset = mk_file_offset (e_id f) (current_offset - scast d) in
      rbind (get_cie f cie_offset m) (\<lambda>(cie, m').
      let current_offset' = fo_off (data_pointer_as_file_offset f (cpos c2));
          text_start = fa_addr (section_start_or_default f ''.text'') in
      rbind (parse_eh_frame_pointer img (cie_fde_pointer_encoding cie) current_offset' text_start 0 0 c2) (\<lambda>(loc, c3).
      rbind (parse_eh_frame_pointer_with_base img (cie_fde_pointer_encoding cie) 0 c3) (\<lambda>(range, c4).
      rbind (if cie_fde_has_augmentation cie
             then rbind (uleb128 img c4) (\<lambda>(n, c'). Inr (cursor_advance (unat n) c')) else Inr c4) (\<lambda>c5.
      Inr (\<lparr>fde_length = length, fde_cie = cie, fde_initial_location = mk_file_addr (e_id f) loc,
             fde_address_range = range, fde_instructions = mk_span (cpos c5) (cpos cur + unat length)\<rparr>, m'))))))))"

subsection \<open>The search table\<close>

record eh_hdr =
  eh_start :: ptr
  eh_search_table :: ptr
  eh_count :: u64
  eh_encoding :: u8

definition required_start :: "elf \<Rightarrow> string \<Rightarrow> file_addr result" where
  "required_start f name = (case get_section_start_address f (ascii name) of
      None \<Rightarrow> Inl (UB ''empty optional'') | Some a \<Rightarrow> Inr a)"

text \<open>
  The number of entries is read with the encoding \<open>fde_count_enc\<close>; the code passes the name of
  the variable it declares.
\<close>

definition parse_eh_hdr :: "elf \<Rightarrow> eh_hdr result" where
  "parse_eh_hdr f =
     (let img = e_image f in
      rbind (required_start f ''.eh_frame_hdr'') (\<lambda>_.
      rbind (required_start f ''.text'') (\<lambda>_.
      let cur = mk_cursor (get_section_contents f (ascii ''.eh_frame_hdr'')) in
      rbind (cu8 img cur) (\<lambda>(version, c1).
      rbind (cu8 img c1) (\<lambda>(eh_frame_ptr_enc, c2).
      rbind (cu8 img c2) (\<lambda>(fde_count_enc, c3).
      rbind (cu8 img c3) (\<lambda>(table_enc, c4).
      rbind (parse_eh_frame_pointer_with_base img eh_frame_ptr_enc 0 c4) (\<lambda>(_, c5).
      rbind (parse_eh_frame_pointer_with_base img fde_count_enc 0 c5) (\<lambda>(fde_count, c6).
      Inr \<lparr>eh_start = cpos cur, eh_search_table = cpos c6, eh_count = fde_count, eh_encoding = table_enc\<rparr>)))))))))"

text \<open>
  A row of the table is an address and the offset of its FDE, both in the same encoding; the
  row size, which the code uses without declaring it, is twice the size of the encoding.
\<close>

definition hdr_pointer_at :: "elf \<Rightarrow> eh_hdr \<Rightarrow> u64 \<Rightarrow> ptr \<Rightarrow> u64 result" where
  "hdr_pointer_at f h text_start p =
     rbind (parse_eh_frame_pointer (e_image f) (eh_encoding h) (fo_off (data_pointer_as_file_offset f p)) text_start
       (fo_off (data_pointer_as_file_offset f (eh_start h))) 0 (mk_cursor (mk_span p p))) (\<lambda>(v, _). Inr v)"

definition hdr_entry_address :: "elf \<Rightarrow> eh_hdr \<Rightarrow> u64 \<Rightarrow> nat \<Rightarrow> nat \<Rightarrow> u64 result" where
  "hdr_entry_address f h text_start row_size i = hdr_pointer_at f h text_start (eh_search_table h + i * row_size)"

text \<open>
  The loop of the binary search over the rows \<open>low\<close> to \<open>high\<close>; the value is \<open>high\<close> after it.
  The search runs over any lookup of rows, so that its correctness does not depend on how a
  row is decoded.
\<close>

function hdr_search :: "(nat \<Rightarrow> u64 result) \<Rightarrow> u64 \<Rightarrow> nat \<Rightarrow> nat \<Rightarrow> nat result" where
  "hdr_search entry a low high =
     (if high < low then Inr high
      else let mid = (low + high) div 2 in
        rbind (entry mid) (\<lambda>entry_address.
        if entry_address < a then hdr_search entry a (mid + 1) high
        else if entry_address > a then
          if mid = 0 then Inl (Send ''Address not found in eh_hdr'') else hdr_search entry a low (mid - 1)
        else Inr mid))"
  by pat_completeness auto
termination
  by (relation "measure (\<lambda>(entry, a, low, high). Suc high - low)") auto

declare hdr_search.simps [simp del]

definition eh_hdr_lookup :: "elf \<Rightarrow> eh_hdr \<Rightarrow> file_addr \<Rightarrow> ptr result" where
  "eh_hdr_lookup f h a =
     rbind (required_start f ''.text'') (\<lambda>text.
     rbind (eh_frame_pointer_encoding_size (eh_encoding h)) (\<lambda>encoding_size.
     let row_size = 2 * encoding_size in
     rbind (hdr_search (hdr_entry_address f h (fa_addr text) row_size) (fa_addr a) 0 (unat (eh_count h - 1))) (\<lambda>high.
     rbind (hdr_pointer_at f h (fa_addr text) (eh_search_table h + high * row_size + encoding_size)) (\<lambda>off.
     Inr (file_offset_as_data_pointer f (mk_file_offset (e_id f) off))))))"

subsection \<open>Frame instructions\<close>

text \<open>Offsets are signed in the source; they are only added to addresses, where the two readings agree.\<close>

datatype rule = UndefinedRule | SameRule | OffsetRule u64 | ValOffsetRule u64 | RegisterRule u32

text \<open>A set of rules, one for a register at most, in the order in which they were added.\<close>

type_synonym ruleset = "(u32 \<times> rule) list"

definition rules_emplace :: "u32 \<Rightarrow> rule \<Rightarrow> ruleset \<Rightarrow> ruleset" where
  "rules_emplace r x rs = (case map_of rs r of None \<Rightarrow> rs @ [(r, x)] | Some _ \<Rightarrow> rs)"

definition rules_at :: "ruleset \<Rightarrow> u32 \<Rightarrow> rule result" where
  "rules_at rs r = map_at (map_of rs) r"

record cfa_rule =
  cr_reg :: u32
  cr_offset :: u64

record unwind_context =
  uc_cur :: cursor
  uc_location :: file_addr
  uc_cfa :: cfa_rule
  uc_cie_rules :: ruleset
  uc_rules :: ruleset
  uc_stack :: "(ruleset \<times> cfa_rule) list"

definition uc_emplace :: "u32 \<Rightarrow> rule \<Rightarrow> unwind_context \<Rightarrow> unwind_context" where
  "uc_emplace r x ctx = ctx\<lparr>uc_rules := rules_emplace r x (uc_rules ctx)\<rparr>"

definition uc_advance :: "u64 \<Rightarrow> unwind_context \<Rightarrow> unwind_context" where
  "uc_advance n ctx = ctx\<lparr>uc_location := fa_add_assign (uc_location ctx) n\<rparr>"

definition uc_set_cfa :: "u32 \<Rightarrow> u64 \<Rightarrow> unwind_context \<Rightarrow> unwind_context" where
  "uc_set_cfa r off ctx = ctx\<lparr>uc_cfa := \<lparr>cr_reg = r, cr_offset = off\<rparr>\<rparr>"

definition exec_primary :: "elf \<Rightarrow> cie \<Rightarrow> u8 \<Rightarrow> u8 \<Rightarrow> unwind_context \<Rightarrow> unwind_context reader" where
  "exec_primary f cie primary ext ctx c =
     (if primary = 0x40 then Inr (uc_advance (ucast ext * cie_code_alignment cie) ctx, c)
      else if primary = 0x80 then rbind (uleb128 (e_image f) c) (\<lambda>(v, c').
        Inr (uc_emplace (ucast ext) (OffsetRule (v * cie_data_alignment cie)) ctx, c'))
      else rbind (rules_at (uc_cie_rules ctx) (ucast ext)) (\<lambda>x. Inr (uc_emplace (ucast ext) x ctx, c)))"

definition two_operands :: "'a reader \<Rightarrow> 'b reader \<Rightarrow> ('a \<times> 'b) reader" where
  "two_operands r1 r2 c = rbind (r1 c) (\<lambda>(x, c1). rbind (r2 c1) (\<lambda>(y, c2). Inr ((x, y), c2)))"

text \<open>
  The opcodes of the extended switch. One that it does not list, \<open>DW_CFA_def_cfa_register\<close> (0x0d)
  among them, does nothing, and its operands stay in the stream.
\<close>

definition exec_extended_cfi :: "elf \<Rightarrow> fde \<Rightarrow> u8 \<Rightarrow> u64 \<Rightarrow> u64 \<Rightarrow> unwind_context \<Rightarrow> unwind_context reader" where
  "exec_extended_cfi f d ext text_start plt_start ctx c =
     (let img = e_image f; cie = fde_cie d; da = cie_data_alignment cie; ca = cie_code_alignment cie in
      if ext = 0x01 then
        rbind (parse_eh_frame_pointer img (cie_fde_pointer_encoding cie) (fo_off (data_pointer_as_file_offset f (cpos c)))
          text_start plt_start (fa_addr (fde_initial_location d)) c) (\<lambda>(loc, c').
        Inr (ctx\<lparr>uc_location := mk_file_addr (e_id f) loc\<rparr>, c'))
      else if ext = 0x02 then rbind (cu8 img c) (\<lambda>(v, c'). Inr (uc_advance (ucast v * ca) ctx, c'))
      else if ext = 0x03 then rbind (cu16 img c) (\<lambda>(v, c'). Inr (uc_advance (ucast v * ca) ctx, c'))
      else if ext = 0x04 then rbind (cu32 img c) (\<lambda>(v, c'). Inr (uc_advance (ucast v * ca) ctx, c'))
      else if ext = 0x0c then rbind (two_operands (uleb128 img) (uleb128 img) c) (\<lambda>((r, off), c').
        Inr (uc_set_cfa (ucast r) off ctx, c'))
      else if ext = 0x12 then rbind (two_operands (uleb128 img) (sleb128 img) c) (\<lambda>((r, off), c').
        Inr (uc_set_cfa (ucast r) (off * da) ctx, c'))
      else if ext = 0x0e then rbind (uleb128 img c) (\<lambda>(off, c'). Inr (uc_set_cfa (cr_reg (uc_cfa ctx)) off ctx, c'))
      else if ext = 0x13 then rbind (sleb128 img c) (\<lambda>(off, c'). Inr (uc_set_cfa (cr_reg (uc_cfa ctx)) (off * da) ctx, c'))
      else if ext \<in> {0x0f, 0x10, 0x16} then Inl (Send ''DWARF expressions not yet implemented'')
      else if ext = 0x07 then rbind (uleb128 img c) (\<lambda>(r, c'). Inr (uc_emplace (ucast r) UndefinedRule ctx, c'))
      else if ext = 0x08 then rbind (uleb128 img c) (\<lambda>(r, c'). Inr (uc_emplace (ucast r) SameRule ctx, c'))
      else if ext = 0x05 then rbind (two_operands (uleb128 img) (uleb128 img) c) (\<lambda>((r, off), c').
        Inr (uc_emplace (ucast r) (OffsetRule (off * da)) ctx, c'))
      else if ext = 0x11 then rbind (two_operands (uleb128 img) (sleb128 img) c) (\<lambda>((r, off), c').
        Inr (uc_emplace (ucast r) (OffsetRule (off * da)) ctx, c'))
      else if ext = 0x14 then rbind (two_operands (uleb128 img) (uleb128 img) c) (\<lambda>((r, off), c').
        Inr (uc_emplace (ucast r) (ValOffsetRule (off * da)) ctx, c'))
      else if ext = 0x15 then rbind (two_operands (uleb128 img) (sleb128 img) c) (\<lambda>((r, off), c').
        Inr (uc_emplace (ucast r) (ValOffsetRule (off * da)) ctx, c'))
      else if ext = 0x09 then rbind (two_operands (uleb128 img) (uleb128 img) c) (\<lambda>((r, r2), c').
        Inr (uc_emplace (ucast r) (RegisterRule (ucast r2)) ctx, c'))
      else if ext = 0x06 then rbind (uleb128 img c) (\<lambda>(r, c').
        rbind (rules_at (uc_cie_rules ctx) (ucast r)) (\<lambda>x. Inr (uc_emplace (ucast r) x ctx, c')))
      else if ext = 0x0a then Inr (ctx\<lparr>uc_stack := (uc_rules ctx, uc_cfa ctx) # uc_stack ctx\<rparr>, c)
      else if ext = 0x0b then (case uc_stack ctx of
          [] \<Rightarrow> Inl (UB ''back of an empty vector'')
        | (rs, cfa) # st \<Rightarrow> Inr (ctx\<lparr>uc_rules := rs, uc_cfa := cfa, uc_stack := st\<rparr>, c))
      else Inr (ctx, c))"

definition cfi_dispatch :: "elf \<Rightarrow> fde \<Rightarrow> u8 \<Rightarrow> u64 \<Rightarrow> u64 \<Rightarrow> unwind_context \<Rightarrow> unwind_context reader" where
  "cfi_dispatch f d opcode text_start plt_start ctx c =
     (let primary = opcode AND 0xc0; ext = opcode AND 0x3f in
      if primary \<noteq> 0 then exec_primary f (fde_cie d) primary ext ctx c
      else if ext \<noteq> 0 then exec_extended_cfi f d ext text_start plt_start ctx c
      else Inr (ctx, c))"

definition execute_cfi_instruction :: "elf \<Rightarrow> fde \<Rightarrow> unwind_context \<Rightarrow> unwind_context result" where
  "execute_cfi_instruction f d ctx =
     rbind (required_start f ''.text'') (\<lambda>text.
     let plt_start = fa_addr (section_start_or_default f ''.got.plt'') in
     rbind (cu8 (e_image f) (uc_cur ctx)) (\<lambda>(opcode, c).
     rbind (cfi_dispatch f d opcode (fa_addr text) plt_start ctx c) (\<lambda>(ctx', c').
     Inr (ctx'\<lparr>uc_cur := c'\<rparr>))))"

subsection \<open>The two loops of unwind\<close>

lemma eh_base_value_forward: "eh_base_value img e c = Inr (v, c') \<Longrightarrow> cpos c \<le> cpos c'"
  by (auto simp: eh_base_value_def Let_def rbind_eq_Inr cs16_def cs32_def cs64_def fixed_int_Inr split: if_splits
      dest: uleb.forward sleb.forward cu16.forward cu32.forward cu64.forward)

lemma with_base_forward: "parse_eh_frame_pointer_with_base img e b c = Inr (v, c') \<Longrightarrow> cpos c \<le> cpos c'"
  by (auto simp: parse_eh_frame_pointer_with_base_def rbind_eq_Inr dest: eh_base_value_forward)

lemma eh_pointer_forward: "parse_eh_frame_pointer img e pc t s fs c = Inr (v, c') \<Longrightarrow> cpos c \<le> cpos c'"
  by (auto simp: parse_eh_frame_pointer_def rbind_eq_Inr dest: with_base_forward)

lemma exec_primary_forward: "exec_primary f cie p e ctx c = Inr (ctx', c') \<Longrightarrow> cpos c \<le> cpos c'"
  by (auto simp: exec_primary_def rbind_eq_Inr split: if_splits dest: uleb.forward)

lemma two_operands_forward:
  assumes "two_operands r1 r2 c = Inr (v, c')"
    and "\<And>c x c'. r1 c = Inr (x, c') \<Longrightarrow> cpos c \<le> cpos c'" and "\<And>c y c'. r2 c = Inr (y, c') \<Longrightarrow> cpos c \<le> cpos c'"
  shows "cpos c \<le> cpos c'"
  using assms by (auto simp: two_operands_def rbind_eq_Inr) (meson le_trans)

lemmas uleb_uleb_forward = two_operands_forward [OF _ uleb.forward uleb.forward]
lemmas uleb_sleb_forward = two_operands_forward [OF _ uleb.forward sleb.forward]

lemma exec_extended_cfi_forward: "exec_extended_cfi f d ext t p ctx c = Inr (ctx', c') \<Longrightarrow> cpos c \<le> cpos c'"
  unfolding exec_extended_cfi_def Let_def
  by (auto simp: rbind_eq_Inr split: if_splits list.splits
      dest: uleb.forward sleb.forward cu8.forward cu16.forward cu32.forward eh_pointer_forward
        uleb_uleb_forward uleb_sleb_forward)

lemma execute_cfi_progress:
  assumes "execute_cfi_instruction f d ctx = Inr ctx'"
  shows "cpos (uc_cur ctx) < cpos (uc_cur ctx') \<and> cpos (uc_cur ctx) < iend (e_image f)"
proof -
  from assms obtain tx opcode c ctx1 c' where r: "cu8 (e_image f) (uc_cur ctx) = Inr (opcode, c)"
      "cfi_dispatch f d opcode tx (fa_addr (section_start_or_default f ''.got.plt'')) ctx c = Inr (ctx1, c')"
      "ctx' = ctx1\<lparr>uc_cur := c'\<rparr>"
    unfolding execute_cfi_instruction_def Let_def by (auto simp: rbind_eq_Inr)
  then have "cpos c \<le> cpos c'"
    by (auto simp: cfi_dispatch_def Let_def split: if_splits dest: exec_primary_forward exec_extended_cfi_forward)
  then show ?thesis using cu8.strict [OF r(1)] cu8.inside [OF r(1)] r(3) by simp
qed

function cfi_run_all :: "elf \<Rightarrow> fde \<Rightarrow> unwind_context \<Rightarrow> unwind_context result" where
  "cfi_run_all f d ctx =
     (if finished (uc_cur ctx) then Inr ctx
      else rbind (execute_cfi_instruction f d ctx) (\<lambda>ctx'. cfi_run_all f d ctx'))"
  by pat_completeness auto
termination
  by (relation "measure (\<lambda>(f, d, ctx). iend (e_image f) - cpos (uc_cur ctx))")
     (auto dest: execute_cfi_progress)

function cfi_run_until :: "elf \<Rightarrow> fde \<Rightarrow> file_addr \<Rightarrow> unwind_context \<Rightarrow> unwind_context result" where
  "cfi_run_until f d pc ctx =
     (if finished (uc_cur ctx) then Inr ctx
      else rbind (fa_less_eq (uc_location ctx) pc) (\<lambda>before.
        if before then rbind (execute_cfi_instruction f d ctx) (\<lambda>ctx'. cfi_run_until f d pc ctx')
        else Inr ctx))"
  by pat_completeness auto
termination
  by (relation "measure (\<lambda>(f, d, pc, ctx). iend (e_image f) - cpos (uc_cur ctx))")
     (auto dest: execute_cfi_progress)

declare cfi_run_all.simps [simp del] cfi_run_until.simps [simp del]

subsection \<open>Applying the rules\<close>

text \<open>Reading the memory of the process is an argument; a write to a register yields the requests it sends.\<close>

definition apply_rule :: "float_conv \<Rightarrow> (virt_addr \<Rightarrow> nat \<Rightarrow> u8 list result) \<Rightarrow> registers \<Rightarrow> u64 \<Rightarrow> register_info \<Rightarrow> rule \<Rightarrow>
    registers \<Rightarrow> (registers \<times> user_req list) result" where
  "apply_rule fc read_memory old_regs cfa info x regs = (case x of
      UndefinedRule \<Rightarrow> rbind (undefine (reg_id info) regs) (\<lambda>r. Inr (r, []))
    | SameRule \<Rightarrow> Inr (regs, [])
    | RegisterRule other \<Rightarrow> rbind (register_info_by_dwarf (sint other)) (\<lambda>oinfo.
        rbind (reg_read oinfo old_regs) (\<lambda>v. reg_write fc info v False regs))
    | OffsetRule off \<Rightarrow> rbind (read_memory (VirtAddr (cfa + off)) 8) (\<lambda>bs.
        reg_write fc info (VU64 (from_bytes bs)) False regs)
    | ValOffsetRule off \<Rightarrow> reg_write fc info (VU64 (cfa + off)) False regs)"

fun apply_rules :: "float_conv \<Rightarrow> (virt_addr \<Rightarrow> nat \<Rightarrow> u8 list result) \<Rightarrow> registers \<Rightarrow> u64 \<Rightarrow> ruleset \<Rightarrow>
    registers \<Rightarrow> (registers \<times> user_req list) result" where
  "apply_rules fc read_memory old_regs cfa [] regs = Inr (regs, [])"
| "apply_rules fc read_memory old_regs cfa ((r, x) # rs) regs =
     rbind (register_info_by_dwarf (sint r)) (\<lambda>info.
     rbind (apply_rule fc read_memory old_regs cfa info x regs) (\<lambda>(regs', reqs).
     rbind (apply_rules fc read_memory old_regs cfa rs regs') (\<lambda>(regs'', reqs').
     Inr (regs'', reqs @ reqs'))))"

text \<open>
  The result holds the registers of the caller, the registers of the callee (whose CFA is set)
  and the requests sent to the process. The rules are walked in the order of an unordered
  container, which is an argument.
\<close>

definition execute_unwind_rules :: "float_conv \<Rightarrow> (ruleset \<Rightarrow> ruleset) \<Rightarrow> (virt_addr \<Rightarrow> nat \<Rightarrow> u8 list result) \<Rightarrow>
    unwind_context \<Rightarrow> registers \<Rightarrow> (registers \<times> registers \<times> user_req list) result" where
  "execute_unwind_rules fc order read_memory ctx old_regs =
     rbind (register_info_by_dwarf (sint (cr_reg (uc_cfa ctx)))) (\<lambda>info.
     rbind (rbind (reg_read info old_regs) get_u64) (\<lambda>v.
     let cfa = v + cr_offset (uc_cfa ctx); old' = old_regs\<lparr>rg_cfa := VirtAddr cfa\<rparr> in
     rbind (write_by_id fc rid_rsp (VU64 cfa) False old_regs) (\<lambda>(unwound, reqs).
     rbind (apply_rules fc read_memory old' cfa (order (uc_rules ctx)) unwound) (\<lambda>(unwound', reqs').
     Inr (unwound', old', reqs @ reqs')))))"

definition unwind :: "float_conv \<Rightarrow> (ruleset \<Rightarrow> ruleset) \<Rightarrow> (virt_addr \<Rightarrow> nat \<Rightarrow> u8 list result) \<Rightarrow> elf \<Rightarrow> eh_hdr \<Rightarrow>
    file_addr \<Rightarrow> registers \<Rightarrow> cie_map \<Rightarrow> ((registers \<times> registers \<times> user_req list) \<times> cie_map) result" where
  "unwind fc order read_memory f hdr pc regs m =
     rbind (eh_hdr_lookup f hdr pc) (\<lambda>fde_start.
     let eh_frame_end = send (get_section_contents f (ascii ''.eh_frame'')) in
     rbind (parse_fde f (mk_cursor (mk_span fde_start eh_frame_end)) m) (\<lambda>(d, m').
     rbind (fa_less pc (fde_initial_location d)) (\<lambda>below.
     rbind (if below then Inr True
            else rbind (fa_plus (fde_initial_location d) (fde_address_range d)) (fa_greater_eq pc)) (\<lambda>outside.
     if outside then Inl (Send ''No unwind information at PC'')
     else
       let ctx = \<lparr>uc_cur = mk_cursor (cie_instructions (fde_cie d)), uc_location = file_addr_default,
                  uc_cfa = \<lparr>cr_reg = 0, cr_offset = 0\<rparr>, uc_cie_rules = [], uc_rules = [], uc_stack = []\<rparr> in
       rbind (cfi_run_all f d ctx) (\<lambda>ctx1.
       let ctx2 = ctx1\<lparr>uc_cie_rules := uc_rules ctx1, uc_cur := mk_cursor (fde_instructions d),
                       uc_location := fde_initial_location d\<rparr> in
       rbind (cfi_run_until f d pc ctx2) (\<lambda>ctx3.
       rbind (execute_unwind_rules fc order read_memory ctx3 regs) (\<lambda>r. Inr (r, m'))))))))"

definition parse_call_frame_information :: "elf \<Rightarrow> eh_hdr result" where
  "parse_call_frame_information f = parse_eh_hdr f"

subsection \<open>The binary search\<close>

text \<open>
  On rows whose addresses increase, the search answers with the last row whose address is not
  above the address looked for.
\<close>

lemma hdr_search_invariant:
  "(\<And>i. i < n \<Longrightarrow> entry i = Inr (addrs i)) \<Longrightarrow> (\<And>i j. i < j \<Longrightarrow> j < n \<Longrightarrow> addrs i < addrs j) \<Longrightarrow>
   high < n \<Longrightarrow> low \<le> high + 1 \<Longrightarrow> 0 < low \<or> low \<le> high \<Longrightarrow> (\<forall>i<low. addrs i < a) \<Longrightarrow>
   (\<forall>i. high < i \<longrightarrow> i < n \<longrightarrow> a < addrs i) \<Longrightarrow>
   (case hdr_search entry a low high of
      Inr k \<Rightarrow> k < n \<and> addrs k \<le> a \<and> (\<forall>i. k < i \<longrightarrow> i < n \<longrightarrow> a < addrs i)
    | Inl e \<Rightarrow> e = Send ''Address not found in eh_hdr'' \<and> (\<forall>i<n. a < addrs i))"
proof (induction entry a low high rule: hdr_search.induct)
  case (1 entry a low high)
  let ?mid = "(low + high) div 2"
  note entry = "1.prems"(1) and sorted = "1.prems"(2)
  show ?case
  proof (cases "high < low")
    case True
    then have "high < low" "low = Suc high" using "1.prems"(4) by simp_all
    with "1.prems" True show ?thesis by (subst hdr_search.simps) (auto intro: less_imp_le)
  next
    case False
    then have mid: "low \<le> ?mid" "?mid \<le> high" "?mid < n" using "1.prems"(3) by auto
    have em: "entry ?mid = Inr (addrs ?mid)" using entry mid(3) .
    consider (less) "addrs ?mid < a" | (greater) "addrs ?mid > a" | (equal) "addrs ?mid = a" by force
    then show ?thesis
    proof cases
      case less
      have "\<forall>i<?mid + 1. addrs i < a"
      proof (intro allI impI)
        fix i assume "i < ?mid + 1"
        then show "addrs i < a" using sorted [of i ?mid] mid(3) less by (cases "i = ?mid") auto
      qed
      then have "case hdr_search entry a (?mid + 1) high of
          Inr k \<Rightarrow> k < n \<and> addrs k \<le> a \<and> (\<forall>i. k < i \<longrightarrow> i < n \<longrightarrow> a < addrs i)
        | Inl e \<Rightarrow> e = Send ''Address not found in eh_hdr'' \<and> (\<forall>i<n. a < addrs i)"
        using "1.prems" mid by (intro "1.IH"(1) [OF False refl em less]) auto
      then show ?thesis using False em less by (subst hdr_search.simps) (simp add: Let_def)
    next
      case greater
      have nl: "\<not> addrs ?mid < a" using greater by simp
      have above: "\<forall>i. ?mid \<le> i \<longrightarrow> i < n \<longrightarrow> a < addrs i"
        using sorted [of ?mid] greater by (metis order_less_trans le_neq_implies_less)
      show ?thesis
      proof (cases "?mid = 0")
        case True
        then show ?thesis using False em greater nl above by (subst hdr_search.simps) (simp add: Let_def)
      next
        case nz: False
        have "case hdr_search entry a low (?mid - 1) of
            Inr k \<Rightarrow> k < n \<and> addrs k \<le> a \<and> (\<forall>i. k < i \<longrightarrow> i < n \<longrightarrow> a < addrs i)
          | Inl e \<Rightarrow> e = Send ''Address not found in eh_hdr'' \<and> (\<forall>i<n. a < addrs i)"
          using "1.prems" mid above nz greater
          by (intro "1.IH"(2) [OF False refl em nl greater nz]) auto
        then show ?thesis using False em greater nl nz by (subst hdr_search.simps) (simp add: Let_def)
      qed
    next
      case equal
      then show ?thesis using False em mid(3) sorted [of ?mid]
        by (subst hdr_search.simps) (simp add: Let_def)
    qed
  qed
qed

subsection \<open>Programs of frame instructions\<close>

text \<open>
  The instructions compilers emit, their encoding and what the interpreter makes of each. The
  rule of a register is only added when the register has none.
\<close>

datatype cfi_op =
    AdvanceLoc u8
  | AdvanceLoc1 u8
  | AdvanceLoc2 u16
  | AdvanceLoc4 u32
  | DefCfa u64 u64
  | DefCfaOffset u64
  | Offset u8 u64
  | OffsetExtended u64 u64
  | RestoreReg u8
  | Undefined u64
  | SameValue u64
  | InRegister u64 u64
  | RememberState
  | RestoreState

fun encode_cfi :: "cfi_op \<Rightarrow> u8 list" where
  "encode_cfi (AdvanceLoc n) = [0x40 OR n]"
| "encode_cfi (AdvanceLoc1 n) = [0x02, n]"
| "encode_cfi (AdvanceLoc2 n) = 0x03 # as_bytes n"
| "encode_cfi (AdvanceLoc4 n) = 0x04 # as_bytes n"
| "encode_cfi (DefCfa r off) = 0x0c # encode_uleb128 (unat r) @ encode_uleb128 (unat off)"
| "encode_cfi (DefCfaOffset off) = 0x0e # encode_uleb128 (unat off)"
| "encode_cfi (Offset r off) = (0x80 OR r) # encode_uleb128 (unat off)"
| "encode_cfi (OffsetExtended r off) = 0x05 # encode_uleb128 (unat r) @ encode_uleb128 (unat off)"
| "encode_cfi (RestoreReg r) = [0xc0 OR r]"
| "encode_cfi (Undefined r) = 0x07 # encode_uleb128 (unat r)"
| "encode_cfi (SameValue r) = 0x08 # encode_uleb128 (unat r)"
| "encode_cfi (InRegister r other) = 0x09 # encode_uleb128 (unat r) @ encode_uleb128 (unat other)"
| "encode_cfi RememberState = [0x0a]"
| "encode_cfi RestoreState = [0x0b]"

fun cfi_ok :: "cfi_op \<Rightarrow> bool" where
  "cfi_ok (AdvanceLoc n) \<longleftrightarrow> n < 64" | "cfi_ok (Offset r off) \<longleftrightarrow> r < 64" | "cfi_ok (RestoreReg r) \<longleftrightarrow> r < 64"
| "cfi_ok _ \<longleftrightarrow> True"

fun cfi_effect :: "cie \<Rightarrow> cfi_op \<Rightarrow> unwind_context \<Rightarrow> unwind_context result" where
  "cfi_effect cie (AdvanceLoc n) ctx = Inr (uc_advance (ucast n * cie_code_alignment cie) ctx)"
| "cfi_effect cie (AdvanceLoc1 n) ctx = Inr (uc_advance (ucast n * cie_code_alignment cie) ctx)"
| "cfi_effect cie (AdvanceLoc2 n) ctx = Inr (uc_advance (ucast n * cie_code_alignment cie) ctx)"
| "cfi_effect cie (AdvanceLoc4 n) ctx = Inr (uc_advance (ucast n * cie_code_alignment cie) ctx)"
| "cfi_effect cie (DefCfa r off) ctx = Inr (uc_set_cfa (ucast r) off ctx)"
| "cfi_effect cie (DefCfaOffset off) ctx = Inr (uc_set_cfa (cr_reg (uc_cfa ctx)) off ctx)"
| "cfi_effect cie (Offset r off) ctx = Inr (uc_emplace (ucast r) (OffsetRule (off * cie_data_alignment cie)) ctx)"
| "cfi_effect cie (OffsetExtended r off) ctx = Inr (uc_emplace (ucast r) (OffsetRule (off * cie_data_alignment cie)) ctx)"
| "cfi_effect cie (RestoreReg r) ctx = rbind (rules_at (uc_cie_rules ctx) (ucast r)) (\<lambda>x. Inr (uc_emplace (ucast r) x ctx))"
| "cfi_effect cie (Undefined r) ctx = Inr (uc_emplace (ucast r) UndefinedRule ctx)"
| "cfi_effect cie (SameValue r) ctx = Inr (uc_emplace (ucast r) SameRule ctx)"
| "cfi_effect cie (InRegister r other) ctx = Inr (uc_emplace (ucast r) (RegisterRule (ucast other)) ctx)"
| "cfi_effect cie RememberState ctx = Inr (ctx\<lparr>uc_stack := (uc_rules ctx, uc_cfa ctx) # uc_stack ctx\<rparr>)"
| "cfi_effect cie RestoreState ctx = (case uc_stack ctx of
      [] \<Rightarrow> Inl (UB ''back of an empty vector'')
    | (rs, cfa) # st \<Rightarrow> Inr (ctx\<lparr>uc_rules := rs, uc_cfa := cfa, uc_stack := st\<rparr>))"

text \<open>One instruction, with the cursor moved behind it.\<close>

definition cfi_step :: "cie \<Rightarrow> cfi_op \<Rightarrow> unwind_context \<Rightarrow> unwind_context result" where
  "cfi_step cie i ctx = rbind (cfi_effect cie i ctx) (\<lambda>c.
     Inr (c\<lparr>uc_cur := cursor_advance (length (encode_cfi i)) (uc_cur ctx)\<rparr>))"

fun run_cfi_ops :: "cie \<Rightarrow> u64 \<Rightarrow> cfi_op list \<Rightarrow> unwind_context \<Rightarrow> unwind_context result" where
  "run_cfi_ops cie pc [] ctx = Inr ctx"
| "run_cfi_ops cie pc (i # ops) ctx =
     (if fa_addr (uc_location ctx) \<le> pc then rbind (cfi_step cie i ctx) (run_cfi_ops cie pc ops) else Inr ctx)"

lemma primary_bits: "n < 64 \<Longrightarrow> (0x40 OR n) AND 0xc0 = (0x40 :: u8) \<and> (0x40 OR n) AND 0x3f = n
    \<and> (0x80 OR n) AND 0xc0 = (0x80 :: u8) \<and> (0x80 OR n) AND 0x3f = n
    \<and> (0xc0 OR n) AND 0xc0 = (0xc0 :: u8) \<and> (0xc0 OR n) AND 0x3f = n"
proof -
  assume n: "n < 64"
  have "0x3f = (mask 6 :: u8)" by (simp add: mask_eq_exp_minus_1)
  then have "n AND 0x3f = take_bit 6 n" by (simp add: take_bit_eq_mask)
  also have "\<dots> = n" using n by (simp add: take_bit_eq_mod mod_word_less)
  finally have low: "n AND 0x3f = n" .
  have "n AND 0xc0 = n AND (0x3f AND 0xc0)" by (simp only: low flip: and.assoc)
  then have "n AND 0xc0 = 0" by simp
  with low show ?thesis by (simp add: bit.conj_disj_distrib2)
qed

lemma execute_cfi_op:
  assumes "cfi_ok i" and "has_bytes (e_image f) (cpos (uc_cur ctx)) (encode_cfi i)"
    and "get_section_start_address f (ascii ''.text'') \<noteq> None"
  shows "execute_cfi_instruction f d ctx = cfi_step (fde_cie d) i ctx"
proof -
  obtain tx where tx: "required_start f ''.text'' = Inr tx" using assms(3) by (auto simp: required_start_def)
  let ?img = "e_image f" and ?c = "cursor_advance 1 (uc_cur ctx)"
  note defs = execute_cfi_instruction_def cfi_dispatch_def exec_primary_def exec_extended_cfi_def cfi_step_def
    two_operands_def cu8_load tx
  have uleb: "has_bytes ?img (cpos c) (encode_uleb128 (unat v)) \<Longrightarrow>
      uleb128 ?img c = Inr (v, cursor_advance (length (encode_uleb128 (unat v))) c)" for v :: u64 and c
    by (rule uleb128_encode_word)
  show ?thesis
  proof (cases i)
    case (AdvanceLoc n)
    then show ?thesis using assms primary_bits [of n] by (simp add: defs)
  next
    case (AdvanceLoc2 n)
    then show ?thesis using assms cu_reads(2) [of ?img ?c n] by (simp add: defs)
  next
    case (AdvanceLoc4 n)
    then show ?thesis using assms cu_reads(3) [of ?img ?c n] by (simp add: defs)
  next
    case (DefCfa r off)
    then show ?thesis using assms uleb [of ?c r] uleb [of "cursor_advance (length (encode_uleb128 (unat r))) ?c" off]
      by (simp add: defs)
  next
    case (DefCfaOffset off)
    then show ?thesis using assms uleb [of ?c off] by (simp add: defs)
  next
    case (Offset r off)
    then show ?thesis using assms primary_bits [of r] uleb [of ?c off] by (simp add: defs)
  next
    case (OffsetExtended r off)
    then show ?thesis using assms uleb [of ?c r] uleb [of "cursor_advance (length (encode_uleb128 (unat r))) ?c" off]
      by (simp add: defs)
  next
    case (RestoreReg r)
    then show ?thesis using assms primary_bits [of r] by (simp add: defs rbind_assoc)
  next
    case (Undefined r)
    then show ?thesis using assms uleb [of ?c r] by (simp add: defs)
  next
    case (SameValue r)
    then show ?thesis using assms uleb [of ?c r] by (simp add: defs)
  next
    case (InRegister r other)
    then show ?thesis using assms uleb [of ?c r] uleb [of "cursor_advance (length (encode_uleb128 (unat r))) ?c" other]
      by (simp add: defs)
  next
    case RestoreState
    then show ?thesis using assms by (cases "uc_stack ctx") (auto simp: defs)
  qed (use assms in \<open>simp_all add: defs\<close>)
qed

definition encode_cfi_ops :: "cfi_op list \<Rightarrow> u8 list" where
  "encode_cfi_ops ops = concat (map encode_cfi ops)"

lemma cfi_effect_keeps:
  "cfi_effect cie i ctx = Inr ctx' \<Longrightarrow> fa_elf (uc_location ctx') = fa_elf (uc_location ctx)"
  by (cases i) (auto simp: uc_advance_def uc_emplace_def uc_set_cfa_def rbind_eq_Inr split: list.splits)

subsection \<open>Rows of the search table\<close>

text \<open>The table of \<open>.eh_frame_hdr\<close> as linkers write it: pairs of signed 32-bit offsets from the start of the section.\<close>

definition encode_hdr_row :: "u32 \<times> u32 \<Rightarrow> u8 list" where
  "encode_hdr_row row = as_bytes (fst row) @ as_bytes (snd row)"

definition hdr_value :: "elf \<Rightarrow> eh_hdr \<Rightarrow> u32 \<Rightarrow> u64" where
  "hdr_value f h d = fo_off (data_pointer_as_file_offset f (eh_start h)) + scast d"

lemma has_bytes_concat:
  "has_bytes img p (concat (map enc xs)) \<Longrightarrow> i < length xs \<Longrightarrow> \<forall>x\<in>set xs. length (enc x) = n \<Longrightarrow>
   has_bytes img (p + i * n) (enc (xs ! i))"
proof (induction xs arbitrary: p i)
  case (Cons x xs)
  show ?case
  proof (cases i)
    case (Suc j)
    then have "has_bytes img (p + n + j * n) (enc (xs ! j))" using Cons.prems by (intro Cons.IH) auto
    then show ?thesis using Suc by (simp add: algebra_simps)
  qed (use Cons.prems in simp)
qed simp

lemma hdr_pointer_at_row:
  assumes "eh_encoding h = 0x3b" and "has_bytes (e_image f) p (as_bytes d)"
  shows "hdr_pointer_at f h t p = Inr (hdr_value f h d)"
proof -
  have "cs32 (e_image f) (mk_cursor (mk_span p p)) = Inr (d, cursor_advance 4 (mk_cursor (mk_span p p)))"
    using fixed_int_has_bytes [of "e_image f" "mk_cursor (mk_span p p)" d] assms(2)
    by (simp add: cs32_def mk_cursor_def mk_span_def)
  then show ?thesis using assms(1)
    by (simp add: hdr_pointer_at_def parse_eh_frame_pointer_def eh_pointer_base_def parse_eh_frame_pointer_with_base_def
        eh_base_value_def hdr_value_def Let_def)
qed

lemma cfi_run_until_ops:
  assumes "get_section_start_address f (ascii ''.text'') \<noteq> None"
  shows "\<forall>i\<in>set ops. cfi_ok i \<Longrightarrow> has_bytes (e_image f) (cpos (uc_cur ctx)) (encode_cfi_ops ops) \<Longrightarrow>
     cpos (uc_cur ctx) + length (encode_cfi_ops ops) = send (cdata (uc_cur ctx)) \<Longrightarrow>
     fa_elf (uc_location ctx) = fa_elf pc \<Longrightarrow>
     cfi_run_until f d pc ctx = run_cfi_ops (fde_cie d) (fa_addr pc) ops ctx"
proof (induction ops arbitrary: ctx)
  case Nil
  then show ?case by (subst cfi_run_until.simps) (simp add: finished_def encode_cfi_ops_def)
next
  case (Cons i ops)
  have "0 < length (encode_cfi i)" by (cases i) simp_all
  then have nf: "\<not> finished (uc_cur ctx)" using Cons.prems(3) by (auto simp: finished_def encode_cfi_ops_def simp del: length_greater_0_conv)
  have ex: "execute_cfi_instruction f d ctx = cfi_step (fde_cie d) i ctx"
    using Cons.prems by (intro execute_cfi_op assms) (auto simp: encode_cfi_ops_def)
  have "rbind (cfi_step (fde_cie d) i ctx) (cfi_run_until f d pc)
      = rbind (cfi_step (fde_cie d) i ctx) (run_cfi_ops (fde_cie d) (fa_addr pc) ops)"
  proof (rule rbind_cong [OF refl])
    fix ctx' assume "cfi_step (fde_cie d) i ctx = Inr ctx'"
    then obtain c where c: "cfi_effect (fde_cie d) i ctx = Inr c"
        "ctx' = c\<lparr>uc_cur := cursor_advance (length (encode_cfi i)) (uc_cur ctx)\<rparr>"
      by (auto simp: cfi_step_def rbind_eq_Inr)
    show "cfi_run_until f d pc ctx' = run_cfi_ops (fde_cie d) (fa_addr pc) ops ctx'"
      using Cons.prems cfi_effect_keeps [OF c(1)] c(2)
      by (intro Cons.IH) (auto simp: encode_cfi_ops_def add.assoc)
  qed
  then show ?case using nf ex Cons.prems(4)
    by (subst cfi_run_until.simps) (simp add: fa_cmp_defs)
qed

lemma rules_emplace_keeps: "map_of rs r = Some x \<Longrightarrow> map_of (rules_emplace r' x' rs) r = Some x"
  by (auto simp: rules_emplace_def map_add_def split: option.splits)

lemma low_opcode:
  fixes b :: u8
  assumes "b AND 0xc0 = 0"
  shows "b AND 0x3f = b"
proof -
  have "(0xc0 OR 0x3f :: u8) = - 1" by simp
  then have "b = b AND (0xc0 OR 0x3f)" by (simp only: bit.conj_one_right)
  also have "\<dots> = (b AND 0xc0) OR (b AND 0x3f)" by (simp only: bit.conj_disj_distrib)
  finally show ?thesis using assms by simp
qed

subsection \<open>Properties\<close>

text \<open>
  C21: on a search table of signed, section relative pairs whose addresses increase, the search
  answers with the frame description entry of the last row whose address is not above the
  address looked for; it fails only when the address lies below every row.
\<close>

theorem eh_hdr_lookup_last_row:
  assumes "get_section_start_address f (ascii ''.text'') \<noteq> None" and "eh_encoding h = 0x3b"
    and "has_bytes (e_image f) (eh_search_table h) (concat (map encode_hdr_row rows))"
    and "rows \<noteq> []" and "eh_count h = of_nat (length rows)" and "length rows < 2 ^ 64"
    and "sorted_wrt (<) (map (\<lambda>r. hdr_value f h (fst r)) rows)"
  shows "case eh_hdr_lookup f h a of
      Inr p \<Rightarrow> \<exists>k<length rows. p = file_offset_as_data_pointer f (mk_file_offset (e_id f) (hdr_value f h (snd (rows ! k))))
        \<and> hdr_value f h (fst (rows ! k)) \<le> fa_addr a
        \<and> (\<forall>i. k < i \<longrightarrow> i < length rows \<longrightarrow> fa_addr a < hdr_value f h (fst (rows ! i)))
    | Inl e \<Rightarrow> e = Send ''Address not found in eh_hdr'' \<and> (\<forall>i<length rows. fa_addr a < hdr_value f h (fst (rows ! i)))"
proof -
  obtain tx where tx: "required_start f ''.text'' = Inr tx" using assms(1) by (auto simp: required_start_def)
  have "eh_count h - 1 = of_nat (length rows - 1)" using assms(4,5) by (simp add: of_nat_diff Suc_leI)
  then have n: "unat (eh_count h - 1) = length rows - 1"
    using assms(6) by (simp add: unat_of_nat)
  have row: "has_bytes (e_image f) (eh_search_table h + i * 8) (encode_hdr_row (rows ! i))" if "i < length rows" for i
    using has_bytes_concat [OF assms(3) that, of 8] by (simp add: encode_hdr_row_def)
  have addrs: "hdr_entry_address f h (fa_addr tx) 8 i = Inr (hdr_value f h (fst (rows ! i)))" if "i < length rows" for i
    using row [OF that] assms(2) by (simp add: hdr_entry_address_def encode_hdr_row_def hdr_pointer_at_row)
  have offs: "hdr_pointer_at f h (fa_addr tx) (eh_search_table h + i * 8 + 4) = Inr (hdr_value f h (snd (rows ! i)))"
    if "i < length rows" for i
    using row [OF that] assms(2) by (simp add: encode_hdr_row_def hdr_pointer_at_row)
  have inc: "hdr_value f h (fst (rows ! i)) < hdr_value f h (fst (rows ! j))" if "i < j" "j < length rows" for i j
    using assms(7) that by (auto simp: sorted_wrt_iff_nth_less)
  have search: "case hdr_search (hdr_entry_address f h (fa_addr tx) 8) (fa_addr a) 0 (length rows - 1) of
      Inr k \<Rightarrow> k < length rows \<and> hdr_value f h (fst (rows ! k)) \<le> fa_addr a
        \<and> (\<forall>i. k < i \<longrightarrow> i < length rows \<longrightarrow> fa_addr a < hdr_value f h (fst (rows ! i)))
    | Inl e \<Rightarrow> e = Send ''Address not found in eh_hdr'' \<and> (\<forall>i<length rows. fa_addr a < hdr_value f h (fst (rows ! i)))"
    using assms(4) inc by (intro hdr_search_invariant [where addrs = "\<lambda>i. hdr_value f h (fst (rows ! i))"]) (auto simp: addrs)
  show ?thesis
  proof (cases "hdr_search (hdr_entry_address f h (fa_addr tx) 8) (fa_addr a) 0 (length rows - 1)")
    case (Inl e)
    then show ?thesis using search assms(2,4) by (simp add: eh_hdr_lookup_def tx n eh_frame_pointer_encoding_size_def)
  next
    case (Inr k)
    then have k: "k < length rows" using search assms(4) by simp
    then show ?thesis using Inr search assms(2,4) offs [OF k]
      by (auto simp: eh_hdr_lookup_def tx n eh_frame_pointer_encoding_size_def)
  qed
qed

definition hdr_sample_rows :: "(u32 \<times> u32) list" where
  "hdr_sample_rows = [(16, 4), (32, 8), (48, 12)]"

definition hdr_elf :: elf where
  "hdr_elf = blank_elf\<lparr>e_image := \<lparr>ibase = 4096, ibytes = [7] @ concat (map encode_hdr_row hdr_sample_rows) @ []\<rparr>,
     e_sections := [\<lparr>sh_name = 0, sh_addr = 0, sh_offset = 0, sh_size = 0, sh_entsize = 0\<rparr>],
     e_secmap := [ascii ''.text'' \<mapsto> 0]\<rparr>"

definition sample_eh_hdr :: eh_hdr where
  "sample_eh_hdr = \<lparr>eh_start = 4096, eh_search_table = 4097, eh_count = 3, eh_encoding = 0x3b\<rparr>"

lemma eh_hdr_lookup_last_row_witness:
  "case eh_hdr_lookup hdr_elf sample_eh_hdr (mk_file_addr (e_id hdr_elf) 40) of
      Inr p \<Rightarrow> \<exists>k<3. hdr_value hdr_elf sample_eh_hdr (fst (hdr_sample_rows ! k)) \<le> 40
        \<and> (\<forall>i. k < i \<longrightarrow> i < 3 \<longrightarrow> 40 < hdr_value hdr_elf sample_eh_hdr (fst (hdr_sample_rows ! i)))
    | Inl e \<Rightarrow> \<forall>i<3. 40 < hdr_value hdr_elf sample_eh_hdr (fst (hdr_sample_rows ! i))"
proof -
  have sect: "get_section_start_address hdr_elf (ascii ''.text'') \<noteq> None"
    by (simp add: get_section_start_address_def get_section_def hdr_elf_def)
  have img: "has_bytes (e_image hdr_elf) (eh_search_table sample_eh_hdr) (concat (map encode_hdr_row hdr_sample_rows))"
    using image_has_bytes [of 4096 "[7]" "concat (map encode_hdr_row hdr_sample_rows)" "[]"]
    by (simp only: hdr_elf_def sample_eh_hdr_def elf.simps eh_hdr.simps) simp
  have srt: "sorted_wrt (<) (map (\<lambda>r. hdr_value hdr_elf sample_eh_hdr (fst r)) hdr_sample_rows)"
    by (simp add: hdr_sample_rows_def hdr_value_def data_pointer_as_file_offset_def hdr_elf_def sample_eh_hdr_def
        mk_file_offset_def)
  have sides: "eh_encoding sample_eh_hdr = 0x3b" "hdr_sample_rows \<noteq> []"
      "eh_count sample_eh_hdr = of_nat (length hdr_sample_rows)" "length hdr_sample_rows < 2 ^ 64"
    by (simp_all add: sample_eh_hdr_def hdr_sample_rows_def)
  have len: "length hdr_sample_rows = 3" and a: "fa_addr (mk_file_addr (e_id hdr_elf) 40) = 40"
    by (simp_all add: hdr_sample_rows_def mk_file_addr_def)
  show ?thesis
    using eh_hdr_lookup_last_row [OF sect sides(1) img sides(2-4) srt, of "mk_file_addr (e_id hdr_elf) 40", unfolded len a]
    by (cases "eh_hdr_lookup hdr_elf sample_eh_hdr (mk_file_addr (e_id hdr_elf) 40)") auto
qed

text \<open>
  C4: walking a row of frame instructions up to a program counter has the effect of the
  instructions up to the first location behind it, in their order.
\<close>

theorem cfi_run_until_executes_program:
  assumes "get_section_start_address f (ascii ''.text'') \<noteq> None" and "\<forall>i\<in>set ops. cfi_ok i"
    and "has_bytes (e_image f) (cpos (uc_cur ctx)) (encode_cfi_ops ops)"
    and "cpos (uc_cur ctx) + length (encode_cfi_ops ops) = send (cdata (uc_cur ctx))"
    and "fa_elf (uc_location ctx) = fa_elf pc"
  shows "cfi_run_until f d pc ctx = run_cfi_ops (fde_cie d) (fa_addr pc) ops ctx"
  using cfi_run_until_ops [OF assms] .

definition cfi_elf :: "cfi_op list \<Rightarrow> elf" where
  "cfi_elf ops = hdr_elf\<lparr>e_image := \<lparr>ibase = 4096, ibytes = [7] @ encode_cfi_ops ops @ []\<rparr>\<rparr>"

definition cfi_context :: "cfi_op list \<Rightarrow> unwind_context" where
  "cfi_context ops = \<lparr>uc_cur = mk_cursor (mk_span 4097 (4097 + length (encode_cfi_ops ops))),
     uc_location = mk_file_addr (e_id hdr_elf) 0x1000, uc_cfa = \<lparr>cr_reg = 7, cr_offset = 8\<rparr>,
     uc_cie_rules = [(16, OffsetRule (- 8))], uc_rules = [(16, OffsetRule (- 8))], uc_stack = []\<rparr>"

definition cfi_fde :: fde where
  "cfi_fde = \<lparr>fde_length = 0, fde_cie = \<lparr>cie_length = 0, cie_code_alignment = 1, cie_data_alignment = - 8,
       cie_fde_has_augmentation = False, cie_fde_pointer_encoding = 0x1b, cie_instructions = mk_span 0 0\<rparr>,
     fde_initial_location = mk_file_addr (e_id hdr_elf) 0x1000, fde_address_range = 64, fde_instructions = mk_span 0 0\<rparr>"

lemma cfi_elf_text: "get_section_start_address (cfi_elf ops) (ascii ''.text'') \<noteq> None"
  by (simp add: get_section_start_address_def get_section_def hdr_elf_def cfi_elf_def)

lemma cfi_elf_bytes:
  "has_bytes (e_image (cfi_elf ops)) (cpos (uc_cur (cfi_context ops))) (encode_cfi_ops ops)"
  using image_has_bytes [of 4096 "[7]" "encode_cfi_ops ops" "[]"]
  by (simp add: cfi_elf_def cfi_context_def mk_cursor_def mk_span_def)

definition prologue :: "cfi_op list" where
  "prologue = [AdvanceLoc 1, DefCfaOffset 16, Offset 6 2, AdvanceLoc1 3, DefCfa 6 16, AdvanceLoc1 40, DefCfa 7 8]"

lemma cfi_run_until_executes_program_witness:
  "\<exists>ctx. cfi_run_until (cfi_elf prologue) cfi_fde (mk_file_addr (e_id hdr_elf) 0x1010) (cfi_context prologue) = Inr ctx
     \<and> uc_cfa ctx = \<lparr>cr_reg = 6, cr_offset = 16\<rparr>
     \<and> uc_rules ctx = [(16, OffsetRule (- 8)), (6, OffsetRule (- 16))]"
proof -
  have "cfi_run_until (cfi_elf prologue) cfi_fde (mk_file_addr (e_id hdr_elf) 0x1010) (cfi_context prologue)
      = run_cfi_ops (fde_cie cfi_fde) (fa_addr (mk_file_addr (e_id hdr_elf) 0x1010)) prologue (cfi_context prologue)"
    by (rule cfi_run_until_executes_program [OF cfi_elf_text _ cfi_elf_bytes])
       (auto simp: prologue_def cfi_context_def mk_cursor_def mk_span_def mk_file_addr_def send_def)
  then show ?thesis
    by (simp add: prologue_def cfi_step_def cfi_context_def cfi_fde_def uc_advance_def uc_emplace_def uc_set_cfa_def
        mk_file_addr_def fa_add_assign_def rules_emplace_def)
qed

text \<open>
  No instruction but \<open>DW_CFA_restore_state\<close> replaces the rule of a register that has one:
  a later \<open>DW_CFA_offset\<close> or \<open>DW_CFA_restore\<close> for the register has no effect.
\<close>

theorem cfi_rule_never_replaced:
  assumes "execute_cfi_instruction f d ctx = Inr ctx'" and "cu8 (e_image f) (uc_cur ctx) = Inr (opcode, c)"
    and "opcode \<noteq> 0x0b" and "map_of (uc_rules ctx) r = Some x"
  shows "map_of (uc_rules ctx') r = Some x"
proof -
  from assms(1,2) obtain tx ctx1 c' where r:
      "cfi_dispatch f d opcode tx (fa_addr (section_start_or_default f ''.got.plt'')) ctx c = Inr (ctx1, c')"
      "ctx' = ctx1\<lparr>uc_cur := c'\<rparr>"
    unfolding execute_cfi_instruction_def Let_def by (auto simp: rbind_eq_Inr)
  have primary: "exec_primary f cie p e ctx c = Inr (ctx1, c') \<Longrightarrow> map_of (uc_rules ctx1) r = Some x" for cie p e
    using assms(4) by (auto simp: exec_primary_def rbind_eq_Inr uc_advance_def uc_emplace_def rules_emplace_keeps split: if_splits)
  have extended: "exec_extended_cfi f d e t s ctx c = Inr (ctx1, c') \<Longrightarrow> e \<noteq> 0x0b \<Longrightarrow> map_of (uc_rules ctx1) r = Some x" for e t s
    using assms(4) unfolding exec_extended_cfi_def Let_def
    by (auto simp: rbind_eq_Inr uc_advance_def uc_emplace_def uc_set_cfa_def rules_emplace_keeps split: if_splits)
  show ?thesis
    using r assms(3,4) primary extended low_opcode [of opcode]
    by (auto simp: cfi_dispatch_def Let_def split: if_splits)
qed

lemma cfi_rule_never_replaced_witness:
  "\<exists>ctx'. execute_cfi_instruction (cfi_elf [Offset 16 5]) cfi_fde (cfi_context [Offset 16 5]) = Inr ctx'
     \<and> map_of (uc_rules ctx') 16 = Some (OffsetRule (- 8))"
proof -
  let ?f = "cfi_elf [Offset 16 5]" and ?ctx = "cfi_context [Offset 16 5]"
  have bytes: "has_bytes (e_image ?f) (cpos (uc_cur ?ctx)) (encode_cfi (Offset 16 5))"
    using cfi_elf_bytes [of "[Offset 16 5]"] by (simp add: encode_cfi_ops_def)
  obtain ctx' where ex: "execute_cfi_instruction ?f cfi_fde ?ctx = Inr ctx'"
    using execute_cfi_op [OF _ bytes cfi_elf_text, of cfi_fde] by (auto simp: cfi_step_def)
  have "cu8 (e_image ?f) (uc_cur ?ctx) = Inr (0x80 OR 16, cursor_advance 1 (uc_cur ?ctx))"
    using bytes by (simp add: cu8_load)
  from cfi_rule_never_replaced [OF ex this, of 16 "OffsetRule (- 8)"] ex show ?thesis
    by (simp add: cfi_context_def)
qed

end
