(* ===== verification/KD_Unwind.thy ===== *)
theory KD_Unwind
  imports KD_Cfi "HOL-Library.Multiset"
begin

text \<open>
  What one step of stack unwinding (\<open>execute_unwind_rules\<close> in \<open>src/dwarf.cpp\<close>) makes of the
  registers: the value every rule gives the caller's register, and what it sends to the process.
\<close>

subsection \<open>The sixteen general registers and the program counter\<close>

text \<open>Their DWARF numbers are their places in the table, and no two of them share a byte.\<close>

lemma gpr_dwarf: "map reg_dwarf (take 17 g_register_infos) = map int [0..<17]"
proof -
  have "map reg_dwarf (take 17 g_register_infos) = map fst (take 17 (map place_of g_register_infos))" by (simp add: take_map place_of_def)
  also have "\<dots> = map int [0..<17]" unfolding register_places by (simp add: register_layout_def upt_rec)
  finally show ?thesis .
qed

lemma gpr_nth:
  assumes "i < 17"
  shows "reg_dwarf (g_register_infos ! i) = int i" and "reg_fmt (g_register_infos ! i) = UintF"
    and "reg_size (g_register_infos ! i) = 8" and "8 dvd reg_offset (g_register_infos ! i)"
    and "reg_type (g_register_infos ! i) = Gpr" and "reg_id (g_register_infos ! i) = i"
    and "info_ok (g_register_infos ! i)"
proof -
  show "reg_dwarf (g_register_infos ! i) = int i"
    using arg_cong [OF gpr_dwarf, of "\<lambda>xs. xs ! i"] assms length_g_register_infos by simp
  show "reg_fmt (g_register_infos ! i) = UintF" "reg_size (g_register_infos ! i) = 8"
      "8 dvd reg_offset (g_register_infos ! i)" "reg_type (g_register_infos ! i) = Gpr"
    using gpr_place [of i] assms by simp_all
  show "reg_id (g_register_infos ! i) = i" using assms by (simp add: reg_id_nth)
  show "info_ok (g_register_infos ! i)" using all_infos_ok nth_mem [of i g_register_infos] assms length_g_register_infos by simp
qed

lemma gpr_disjoint:
  assumes "i < 17" and "j < 17" and "i \<noteq> j"
  shows "disjoint_regs (g_register_infos ! i) (g_register_infos ! j)"
    and "reg_offset (g_register_infos ! i) div 2 \<noteq> reg_offset (g_register_infos ! j) div 2"
proof -
  have ne: "reg_offset (g_register_infos ! i) \<noteq> reg_offset (g_register_infos ! j)"
    using nth_eq_iff_index_eq [OF gpr_offsets_distinct, of i j] assms length_g_register_infos by simp
  show "disjoint_regs (g_register_infos ! i) (g_register_infos ! j)"
    using ne gpr_nth(4) [OF assms(1)] gpr_nth(4) [OF assms(2)]
    by (auto simp: disjoint_regs_def gpr_nth(3) assms(1,2) elim!: dvdE)
  show "reg_offset (g_register_infos ! i) div 2 \<noteq> reg_offset (g_register_infos ! j) div 2"
    using ne gpr_nth(4) [OF assms(1)] gpr_nth(4) [OF assms(2)] by (auto elim!: dvdE)
qed

lemma register_info_by_dwarf_gpr: "i < 17 \<Longrightarrow> register_info_by_dwarf (int i) = Inr (g_register_infos ! i)"
proof -
  assume i: "i < 17"
  then have "find_if (\<lambda>r. reg_dwarf r = int i) g_register_infos = Some i"
    by (intro find_if_SomeI) (auto simp: length_g_register_infos gpr_nth(1))
  then show ?thesis by (simp add: register_info_by_dwarf_def register_info_by_def)
qed

lemma undefine_gpr:
  assumes "i < 17" and "j < 17" and "undefine i r = Inr r'"
  shows "is_undefined j r' = (if i = j then Inr True else is_undefined j r)"
    and "rg_data r' = rg_data r"
  using assms gpr_disjoint(2) [OF assms(1,2)]
  by (auto simp: undefine_def is_undefined_def register_info_by_id_nth find_if_append find_if_None split: option.splits)

lemma dwarf_info:
  assumes "unat (r :: u32) < 17"
  shows "register_info_by_dwarf (sint r) = Inr (g_register_infos ! unat r)"
proof -
  have "int (unat r) < int 17" using assms by (simp only: of_nat_less_iff)
  then have "uint r < 17" by simp
  moreover have "- (2 ^ 31) \<le> uint r" by (rule order_trans [OF _ unsigned_greater_eq]) simp
  ultimately have "sint r = uint r" by (simp add: sint_uint signed_take_bit_int_eq_self)
  then have "sint r = int (unat r)" by simp
  then show ?thesis using register_info_by_dwarf_gpr [OF assms] by (simp only:)
qed

lemma gpr_read_u64: "i < 17 \<Longrightarrow> reg_read (g_register_infos ! i) r = Inr v \<Longrightarrow> \<exists>w. v = VU64 w"
  by (auto simp: reg_read_def gpr_nth rbind_eq_Inr split: if_splits)

lemma gpr_write:
  assumes "i < 17" and "regs_inv r" and "reg_write fc (g_register_infos ! i) (VU64 w) commit r = Inr (r', reqs)"
  shows "is_undefined i r = Inr False \<Longrightarrow> reg_read (g_register_infos ! i) r' = Inr (VU64 w)"
    and "j < 17 \<Longrightarrow> j \<noteq> i \<Longrightarrow> reg_read (g_register_infos ! j) r' = reg_read (g_register_infos ! j) r"
    and "is_undefined k r' = is_undefined k r" and "regs_inv r'"
proof -
  have ok: "is_integer (VU64 w)" "value_ok (VU64 w)" using unsigned_value [of "VU64 w"] by simp_all
  show "reg_read (g_register_infos ! i) r' = Inr (VU64 w)" if "is_undefined i r = Inr False"
    using reg_write_read [OF assms(3)] assms(1,2) that by (simp add: gpr_nth)
  show "reg_read (g_register_infos ! j) r' = reg_read (g_register_infos ! j) r" if "j < 17" "j \<noteq> i"
    using reg_write_frame [OF assms(3) ok gpr_disjoint(1)] assms(1,2) that by (simp add: gpr_nth)
  show "is_undefined k r' = is_undefined k r" using reg_write_data(2) [OF assms(3) ok] by (simp add: is_undefined_def)
  show "regs_inv r'" using reg_write_inv [OF assms(3) ok assms(2)] assms(1) by (simp add: gpr_nth)
qed

subsection \<open>The value a rule stands for\<close>

fun rule_value :: "(virt_addr \<Rightarrow> nat \<Rightarrow> u8 list result) \<Rightarrow> registers \<Rightarrow> u64 \<Rightarrow> reg_value result \<Rightarrow> rule \<Rightarrow> reg_value result" where
  "rule_value mem old cfa kept UndefinedRule = Inl (Send ''Register is undefined'')"
| "rule_value mem old cfa kept SameRule = kept"
| "rule_value mem old cfa kept (RegisterRule other) = reg_read (g_register_infos ! unat other) old"
| "rule_value mem old cfa kept (OffsetRule off) =
     rbind (mem (VirtAddr (cfa + off)) 8) (\<lambda>bs. Inr (VU64 (from_bytes bs)))"
| "rule_value mem old cfa kept (ValOffsetRule off) = Inr (VU64 (cfa + off))"

fun gpr_rule :: "rule \<Rightarrow> bool" where
  "gpr_rule (RegisterRule other) \<longleftrightarrow> unat other < 17" | "gpr_rule _ \<longleftrightarrow> True"

lemma apply_rule_value:
  assumes "i < 17" and "regs_inv regs" and "is_undefined i regs = Inr False" and "gpr_rule x"
    and "apply_rule fc mem old cfa (g_register_infos ! i) x regs = Inr (regs', reqs)"
  shows "reg_read (g_register_infos ! i) regs' = rule_value mem old cfa (reg_read (g_register_infos ! i) regs) x
     \<and> (\<forall>j<17. j \<noteq> i \<longrightarrow> reg_read (g_register_infos ! j) regs' = reg_read (g_register_infos ! j) regs
          \<and> is_undefined j regs' = is_undefined j regs)
     \<and> regs_inv regs'"
proof (cases x)
  case UndefinedRule
  then have u: "undefine i regs = Inr regs'" using assms(1,5) by (auto simp: apply_rule_def rbind_eq_Inr gpr_nth)
  have inv: "regs_inv regs'" using assms(1,2) undefine_gpr(2) [OF _ assms(1) u] by (simp add: regs_inv_def)
  have i: "reg_read (g_register_infos ! i) regs' = Inl (Send ''Register is undefined'')"
    using undefine_gpr(1) [OF assms(1,1) u] assms(1) by (simp add: reg_read_def gpr_nth)
  have j: "is_undefined j regs' = is_undefined j regs" if "j < 17" "j \<noteq> i" for j
    using undefine_gpr(1) [OF assms(1) that(1) u] that(2) by simp
  then have "reg_read (g_register_infos ! j) regs' = reg_read (g_register_infos ! j) regs" if "j < 17" "j \<noteq> i" for j
    using that undefine_gpr(2) [OF assms(1,1) u] unfolding reg_read_def reg_bytes_def
      by (simp add: gpr_nth cong: if_cong)
  with inv i j UndefinedRule show ?thesis by simp
next
  case SameRule
  then show ?thesis using assms by (simp add: apply_rule_def)
next
  case (OffsetRule off)
  then show ?thesis using assms gpr_write [OF assms(1,2)] by (auto simp: apply_rule_def rbind_eq_Inr)
next
  case (ValOffsetRule off)
  then show ?thesis using assms gpr_write [OF assms(1,2)] by (auto simp: apply_rule_def)
next
  case (RegisterRule other)
  then have o: "unat other < 17" using assms(4) by simp
  obtain v where v: "reg_read (g_register_infos ! unat other) old = Inr v"
      "reg_write fc (g_register_infos ! i) v False regs = Inr (regs', reqs)"
    using RegisterRule assms(5) o by (auto simp: apply_rule_def rbind_eq_Inr dwarf_info)
  then obtain w where "v = VU64 w" using gpr_read_u64 [OF o] by blast
  then show ?thesis using v RegisterRule assms(3) gpr_write [OF assms(1,2)] by auto
qed

lemma apply_rules_values:
  "apply_rules fc mem old cfa rs regs = Inr (regs', reqs) \<Longrightarrow> distinct (map fst rs) \<Longrightarrow>
   (\<forall>(r, x)\<in>set rs. unat r < 17 \<and> gpr_rule x \<and> is_undefined (unat r) regs = Inr False) \<Longrightarrow> regs_inv regs \<Longrightarrow>
   j < 17 \<Longrightarrow> reg_read (g_register_infos ! j) regs' =
     (case map_of rs (of_nat j) of
        None \<Rightarrow> reg_read (g_register_infos ! j) regs
      | Some x \<Rightarrow> rule_value mem old cfa (reg_read (g_register_infos ! j) regs) x)"
proof (induction rs arbitrary: regs reqs)
  case (Cons rx rs)
  obtain r x where rx: "rx = (r, x)" by (cases rx)
  have r: "unat r < 17" "gpr_rule x" "is_undefined (unat r) regs = Inr False" using Cons.prems(3) rx by auto
  obtain regs1 reqs1 reqs2 where a: "apply_rule fc mem old cfa (g_register_infos ! unat r) x regs = Inr (regs1, reqs1)"
      and rest: "apply_rules fc mem old cfa rs regs1 = Inr (regs', reqs2)"
    using Cons.prems(1) r(1) by (auto simp: rx rbind_eq_Inr dwarf_info)
  note step = apply_rule_value [OF r(1) Cons.prems(4) r(3,2) a]
  have "\<forall>(r', x')\<in>set rs. unat r' < 17 \<and> gpr_rule x' \<and> is_undefined (unat r') regs1 = Inr False"
  proof safe
    fix r' x' assume m: "(r', x') \<in> set rs"
    have "r' \<noteq> r" using m Cons.prems(2) rx by force
    then have ne: "unat r' \<noteq> unat r" by (simp add: word_unat_eq_iff)
    have p: "unat r' < 17" "gpr_rule x'" "is_undefined (unat r') regs = Inr False" using m Cons.prems(3) by auto
    then show "unat r' < 17" "gpr_rule x'" "is_undefined (unat r') regs1 = Inr False" using step ne by auto
  qed
  then have ih: "reg_read (g_register_infos ! j) regs' = (case map_of rs (of_nat j) of
        None \<Rightarrow> reg_read (g_register_infos ! j) regs1
      | Some x \<Rightarrow> rule_value mem old cfa (reg_read (g_register_infos ! j) regs1) x)"
    using Cons.IH [OF rest] Cons.prems step by (simp add: rx)
  show ?case
  proof (cases "of_nat j = r")
    case True
    then have "unat r = j" using Cons.prems(5) by (auto simp: unat_of_nat)
    moreover have "map_of rs r = None" using Cons.prems(2) rx by (simp add: map_of_eq_None_iff)
    ultimately show ?thesis using ih step True by (simp add: rx)
  next
    case False
    then have "j \<noteq> unat r" by auto
    then have "reg_read (g_register_infos ! j) regs1 = reg_read (g_register_infos ! j) regs"
      using step Cons.prems(5) by auto
    then show ?thesis using False unfolding ih by (simp add: rx cong: option.case_cong)
  qed
qed simp

subsection \<open>Properties\<close>

text \<open>
  C5: unwinding one frame gives every general register of the caller the value its rule
  stands for: read from memory at the CFA, copied from a register of the callee, computed
  from the CFA, or undefined. The stack pointer without a rule becomes the CFA, any other
  register without a rule keeps its value, and the CFA is recorded in the frame's registers.
\<close>

theorem execute_unwind_rules_values:
  assumes run: "execute_unwind_rules fc order mem ctx regs = Inr (unwound, old, reqs)"
    and inv: "regs_inv regs" and defined: "\<forall>i<17. is_undefined i regs = Inr False"
    and cfa_reg: "unat (cr_reg (uc_cfa ctx)) < 17"
    and rules: "\<forall>(r, x)\<in>set (uc_rules ctx). unat r < 17 \<and> gpr_rule x" and dist: "distinct (map fst (uc_rules ctx))"
    and order: "mset (order (uc_rules ctx)) = mset (uc_rules ctx)"
  shows "\<exists>v cfa. reg_read (g_register_infos ! unat (cr_reg (uc_cfa ctx))) regs = Inr (VU64 v)
     \<and> cfa = v + cr_offset (uc_cfa ctx) \<and> old = regs\<lparr>rg_cfa := VirtAddr cfa\<rparr>
     \<and> (\<forall>j<17. reg_read (g_register_infos ! j) unwound =
          (let kept = if j = rid_rsp then Inr (VU64 cfa) else reg_read (g_register_infos ! j) regs in
           case map_of (uc_rules ctx) (of_nat j) of
             None \<Rightarrow> kept | Some x \<Rightarrow> rule_value mem old cfa kept x))"
proof -
  obtain v where v: "reg_read (g_register_infos ! unat (cr_reg (uc_cfa ctx))) regs = Inr (VU64 v)"
    using run gpr_read_u64 [OF cfa_reg]
    by (fastforce simp: execute_unwind_rules_def dwarf_info cfa_reg rbind_eq_Inr)
  define cfa where "cfa = v + cr_offset (uc_cfa ctx)"
  obtain regs1 reqs1 reqs2 where write_rsp: "reg_write fc (g_register_infos ! rid_rsp) (VU64 cfa) False regs = Inr (regs1, reqs1)"
      and a: "apply_rules fc mem old cfa (order (uc_rules ctx)) regs1 = Inr (unwound, reqs2)"
      and old: "old = regs\<lparr>rg_cfa := VirtAddr cfa\<rparr>"
    using run by (auto simp: execute_unwind_rules_def dwarf_info cfa_reg rbind_eq_Inr v get_u64_def Let_def
        write_by_id_def register_info_by_id_nth rid_rsp_def cfa_def)
  have rsp: "rid_rsp < 17" by (simp add: rid_rsp_def)
  note wr = gpr_write [OF rsp inv write_rsp]
  have perm: "set (order (uc_rules ctx)) = set (uc_rules ctx)" "distinct (map fst (order (uc_rules ctx)))"
      "map_of (order (uc_rules ctx)) = map_of (uc_rules ctx)"
  proof -
    show s: "set (order (uc_rules ctx)) = set (uc_rules ctx)" using order by (rule mset_eq_setD)
    have "mset (map fst (order (uc_rules ctx))) = mset (map fst (uc_rules ctx))" using order by (simp add: mset_map)
    then show d: "distinct (map fst (order (uc_rules ctx)))" using dist mset_eq_imp_distinct_iff by blast
    show "map_of (order (uc_rules ctx)) = map_of (uc_rules ctx)" using d dist s by (rule map_of_inject_set [THEN iffD2])
  qed
  have vals: "reg_read (g_register_infos ! j) unwound =
      (case map_of (uc_rules ctx) (of_nat j) of
         None \<Rightarrow> reg_read (g_register_infos ! j) regs1
       | Some x \<Rightarrow> rule_value mem old cfa (reg_read (g_register_infos ! j) regs1) x)" if "j < 17" for j
    using apply_rules_values [OF a perm(2) _ wr(4) that] rules defined wr(3) by (auto simp: perm)
  have kept: "reg_read (g_register_infos ! j) regs1 = (if j = rid_rsp then Inr (VU64 cfa) else reg_read (g_register_infos ! j) regs)"
    if "j < 17" for j
    using wr(1,2) defined rsp that by auto
  have "\<forall>j<17. reg_read (g_register_infos ! j) unwound =
      (let kept = if j = rid_rsp then Inr (VU64 cfa) else reg_read (g_register_infos ! j) regs in
       case map_of (uc_rules ctx) (of_nat j) of None \<Rightarrow> kept | Some x \<Rightarrow> rule_value mem old cfa kept x)"
    unfolding Let_def by (intro allI impI) (simp only: vals kept)
  then show ?thesis using v old cfa_def by blast
qed


definition rip_context :: unwind_context where
  "rip_context = \<lparr>uc_cur = mk_cursor (mk_span 0 0), uc_location = file_addr_default, uc_cfa = \<lparr>cr_reg = 7, cr_offset = 8\<rparr>,
     uc_cie_rules = [], uc_rules = [(16, OffsetRule (- 8)), (3, SameRule), (6, UndefinedRule)], uc_stack = []\<rparr>"

definition rip_memory :: "virt_addr \<Rightarrow> nat \<Rightarrow> u8 list result" where
  "rip_memory a n = (if a = VirtAddr 0 \<and> n = 8 then Inr (as_bytes (0x401136 :: u64)) else Inl (Send ''bad address''))"

lemma reg_write_u64_returns:
  "i < 17 \<Longrightarrow> \<exists>r' req. reg_write fc (g_register_infos ! i) (VU64 w) False r = Inr (r', [req])"
  by (simp add: reg_write_def gpr_nth Let_def)

lemma rip_unwinds: "\<exists>res. execute_unwind_rules no_conv id rip_memory rip_context zero_registers = Inr res"
proof -
  have reads: "register_info_by_dwarf 7 = Inr (g_register_infos ! 7)" "register_info_by_dwarf 16 = Inr (g_register_infos ! 16)"
      "register_info_by_dwarf 3 = Inr (g_register_infos ! 3)" "register_info_by_dwarf 6 = Inr (g_register_infos ! 6)"
    using register_info_by_dwarf_gpr [of 7] register_info_by_dwarf_gpr [of 16] register_info_by_dwarf_gpr [of 3]
      register_info_by_dwarf_gpr [of 6] by simp_all
  obtain r1 q1 where w1: "reg_write no_conv (g_register_infos ! 7) (VU64 8) False zero_registers = Inr (r1, [q1])"
    using reg_write_u64_returns [of 7 no_conv 8 zero_registers] by auto
  obtain r2 q2 where w2: "reg_write no_conv (g_register_infos ! 16) (VU64 (from_bytes (as_bytes (0x401136 :: u64)))) False r1 = Inr (r2, [q2])"
    using reg_write_u64_returns [of 16 no_conv "from_bytes (as_bytes (0x401136 :: u64))" r1] by auto
  have mem: "rip_memory (VirtAddr 0) 8 = Inr (as_bytes (0x401136 :: u64))" by (simp add: rip_memory_def)
  show ?thesis
    using w1 w2 zero_registers_read(2) [of 7]
    by (simp add: execute_unwind_rules_def rip_context_def reads get_u64_def write_by_id_def register_info_by_id_nth rid_rsp_def
        apply_rule_def mem undefine_def gpr_nth)
qed

lemma execute_unwind_rules_values_witness:
  "\<exists>unwound old reqs. execute_unwind_rules no_conv id rip_memory rip_context zero_registers = Inr (unwound, old, reqs)
     \<and> reg_read (g_register_infos ! rid_rip) unwound = Inr (VU64 0x401136)
     \<and> reg_read (g_register_infos ! rid_rsp) unwound = Inr (VU64 8)"
proof -
  obtain unwound old reqs where run:
      "execute_unwind_rules no_conv id rip_memory rip_context zero_registers = Inr (unwound, old, reqs)"
    using rip_unwinds by (metis prod_cases3)
  have sides: "\<forall>i<17. is_undefined i zero_registers = Inr False" "unat (cr_reg (uc_cfa rip_context)) < 17"
      "\<forall>(r, x)\<in>set (uc_rules rip_context). unat r < 17 \<and> gpr_rule x" "distinct (map fst (uc_rules rip_context))"
      "mset (id (uc_rules rip_context)) = mset (uc_rules rip_context)"
    using zero_registers_read(1) by (simp_all add: rip_context_def)
  from execute_unwind_rules_values [OF run zero_registers_inv sides] obtain v cfa where
      v: "reg_read (g_register_infos ! unat (cr_reg (uc_cfa rip_context))) zero_registers = Inr (VU64 v)"
        "cfa = v + cr_offset (uc_cfa rip_context)"
      and vals: "\<forall>j<17. reg_read (g_register_infos ! j) unwound =
        (let kept = if j = rid_rsp then Inr (VU64 cfa) else reg_read (g_register_infos ! j) zero_registers in
         case map_of (uc_rules rip_context) (of_nat j) of None \<Rightarrow> kept | Some x \<Rightarrow> rule_value rip_memory old cfa kept x)"
    by blast
  have "cfa = 8" using v zero_registers_read(2) [of 7] by (simp add: rip_context_def)
  then show ?thesis using run spec [OF vals, of rid_rip] spec [OF vals, of rid_rsp]
    by (simp add: rid_rip_def rid_rsp_def rip_context_def rip_memory_def)
qed

text \<open>
  Unwinding writes to the traced process: the first request replaces the stack pointer of
  the process by the CFA of the frame, although the write is made without committing it.
\<close>

theorem execute_unwind_rules_pokes_stack_pointer:
  assumes "execute_unwind_rules fc order mem ctx regs = Inr (unwound, old, reqs)" and "regs_inv regs"
    and "unat (cr_reg (uc_cfa ctx)) < 17"
  shows "\<exists>cfa rest. rg_cfa old = VirtAddr cfa \<and> reqs = PokeUser 152 cfa None # rest"
proof -
  obtain v where v: "reg_read (g_register_infos ! unat (cr_reg (uc_cfa ctx))) regs = Inr (VU64 v)"
    using assms(1) gpr_read_u64 [OF assms(3)]
    by (fastforce simp: execute_unwind_rules_def dwarf_info assms(3) rbind_eq_Inr)
  define cfa where "cfa = v + cr_offset (uc_cfa ctx)"
  obtain regs1 reqs1 reqs2 where w: "reg_write fc (g_register_infos ! 7) (VU64 cfa) False regs = Inr (regs1, reqs1)"
      and old: "old = regs\<lparr>rg_cfa := VirtAddr cfa\<rparr>" and reqs: "reqs = reqs1 @ reqs2"
    using assms(1) by (auto simp: execute_unwind_rules_def dwarf_info assms(3) rbind_eq_Inr v get_u64_def Let_def
        write_by_id_def register_info_by_id_nth rid_rsp_def cfa_def)
  note off = rsp_offset
  have "value_size (VU64 cfa) \<le> 8" by simp
  moreover have "take 8 (widen fc (g_register_infos ! 7) (VU64 cfa)) = as_bytes cfa"
    using take_widen_integer [of "VU64 cfa" "g_register_infos ! 7" fc] unsigned_value [of "VU64 cfa"] by (simp add: gpr_nth)
  ultimately have "reqs1 = [PokeUser 152 cfa None]"
    using w assms(2) bytes_at_copy_at [of 152 "as_bytes cfa" "rg_data regs"]
    by (auto simp: reg_write_def gpr_nth Let_def write_request_def off aligned_offset_def regs_inv_def sizeof_user_def)
  then show ?thesis using old reqs by simp
qed

lemma execute_unwind_rules_pokes_stack_pointer_witness:
  "\<exists>unwound old reqs rest. execute_unwind_rules no_conv id rip_memory rip_context zero_registers = Inr (unwound, old, reqs)
     \<and> reqs = PokeUser 152 (case rg_cfa old of VirtAddr a \<Rightarrow> a) None # rest"
proof -
  obtain unwound old reqs where run:
      "execute_unwind_rules no_conv id rip_memory rip_context zero_registers = Inr (unwound, old, reqs)"
    using rip_unwinds by (metis prod_cases3)
  then show ?thesis
    using execute_unwind_rules_pokes_stack_pointer [OF run zero_registers_inv] by (fastforce simp: rip_context_def)
qed

end
