(* ===== verification/KD_Die.thy ===== *)
theory KD_Die
  imports KD_Abbrev
begin

text \<open>
  Debugging information entries (\<open>die\<close>, \<open>attr\<close>, \<open>compile_unit\<close> of
  \<open>include/libkdebugger/dwarf.hpp\<close> and \<open>src/dwarf.cpp\<close>): parsing one entry, reading its
  attributes, and walking over the children of an entry, whose list is not stored but found
  by skipping the entries in between.
\<close>

subsection \<open>Compile units and entries\<close>

text \<open>
  A compile unit is known by its bytes and the offset of its abbreviation table; the units
  of a file are those that the parser of \<open>.debug_info\<close> found.
\<close>

record compile_unit =
  cu_data :: span
  cu_abbrev_offset :: nat

record dwarf =
  dw_elf :: elf
  dw_units :: "compile_unit list"

abbreviation dw_image :: "dwarf \<Rightarrow> image" where
  "dw_image dw \<equiv> e_image (dw_elf dw)"

text \<open>An entry that only marks the end of a sibling list has neither unit nor abbreviation.\<close>

record die =
  d_pos :: ptr
  d_cu :: "compile_unit option"
  d_abbrev :: "abbrev option"
  d_attr_locs :: "ptr list"
  d_next :: ptr

definition null_die :: "ptr \<Rightarrow> die" where
  "null_die next = \<lparr>d_pos = nullptr, d_cu = None, d_abbrev = None, d_attr_locs = [], d_next = next\<rparr>"

text \<open>
  The table of a unit. The code asks \<open>dwarf::get_abbrev_table\<close>, whose cache returns what the
  parser returns (\<open>get_abbrev_table_cached\<close>), so the model parses.
\<close>

definition abbrev_table_of :: "dwarf \<Rightarrow> compile_unit \<Rightarrow> abbrev_table result" where
  "abbrev_table_of dw cu = parse_abbrev_table (dw_elf dw) (cu_abbrev_offset cu)"

fun attr_locs :: "image \<Rightarrow> attr_spec list \<Rightarrow> ptr list reader" where
  "attr_locs img [] c = Inr ([], c)"
| "attr_locs img (s # ss) c =
     rbind (skip_form img (as_form s) c) (\<lambda>c1.
     rbind (attr_locs img ss c1) (\<lambda>(ps, c2). Inr (cpos c # ps, c2)))"

definition parse_die :: "dwarf \<Rightarrow> compile_unit \<Rightarrow> cursor \<Rightarrow> die result" where
  "parse_die dw cu cur =
     rbind (uleb128 (dw_image dw) cur) (\<lambda>(abbrev_code, c1).
     if abbrev_code = 0 then Inr (null_die (cpos c1))
     else rbind (abbrev_table_of dw cu) (\<lambda>table.
       rbind (map_at table abbrev_code) (\<lambda>ab.
       rbind (attr_locs (dw_image dw) (ab_specs ab) c1) (\<lambda>(locs, c2).
       Inr \<lparr>d_pos = cpos cur, d_cu = Some cu, d_abbrev = Some ab, d_attr_locs = locs, d_next = cpos c2\<rparr>))))"

definition cu_end_cursor :: "compile_unit \<Rightarrow> ptr \<Rightarrow> cursor" where
  "cu_end_cursor cu p = mk_cursor (mk_span p (send (cu_data cu)))"

definition die_cu :: "die \<Rightarrow> compile_unit result" where
  "die_cu d = (case d_cu d of None \<Rightarrow> Inl (UB ''null compile unit'') | Some cu \<Rightarrow> Inr cu)"

definition parse_next_die :: "dwarf \<Rightarrow> die \<Rightarrow> ptr \<Rightarrow> die result" where
  "parse_next_die dw d p = rbind (die_cu d) (\<lambda>cu. parse_die dw cu (cu_end_cursor cu p))"

lemma attr_locs_forward:
  "attr_locs img ss c = Inr (ps, c') \<Longrightarrow> cdata c' = cdata c \<and> cpos c \<le> cpos c' \<and> length ps = length ss
     \<and> (\<forall>p\<in>set ps. cpos c \<le> p \<and> p < cpos c')"
proof (induction ss arbitrary: c ps)
  case (Cons s ss)
  then obtain c1 qs where q: "skip_form img (as_form s) c = Inr c1" "attr_locs img ss c1 = Inr (qs, c')"
      "ps = cpos c # qs"
    by (auto simp: rbind_eq_Inr)
  then show ?case using Cons.IH [OF q(2)] skip_form_forward [OF q(1)] by fastforce
qed auto

lemma parse_dieE:
  assumes "parse_die dw cu cur = Inr d"
  obtains (null) c1 where "uleb128 (dw_image dw) cur = Inr (0, c1)" and "d = null_die (cpos c1)"
    | (entry) code c1 table ab locs c2 where "code \<noteq> 0" and "uleb128 (dw_image dw) cur = Inr (code, c1)"
      and "abbrev_table_of dw cu = Inr table" and "table code = Some ab"
      and "attr_locs (dw_image dw) (ab_specs ab) c1 = Inr (locs, c2)"
      and "d = \<lparr>d_pos = cpos cur, d_cu = Some cu, d_abbrev = Some ab, d_attr_locs = locs, d_next = cpos c2\<rparr>"
  using assms unfolding parse_die_def by (auto simp: rbind_eq_Inr split: if_splits)

text \<open>
  A parsed entry: it lies behind its position, has one location per attribute of its
  abbreviation, and either all of unit, abbreviation and position or none of them.
\<close>

definition die_inv :: "die \<Rightarrow> bool" where
  "die_inv d \<longleftrightarrow> (d_cu d = None \<longleftrightarrow> d_abbrev d = None) \<and>
     (\<forall>ab. d_abbrev d = Some ab \<longrightarrow> length (d_attr_locs d) = length (ab_specs ab) \<and> d_pos d < d_next d
        \<and> (\<forall>p\<in>set (d_attr_locs d). d_pos d < p \<and> p < d_next d))"

lemma parse_die_inv: "parse_die dw cu cur = Inr d \<Longrightarrow> die_inv d \<and> cpos cur < d_next d"
proof (erule parse_dieE)
  fix c1 assume "uleb128 (dw_image dw) cur = Inr (0, c1)" "d = null_die (cpos c1)"
  then show ?thesis using uleb.strict by (fastforce simp: die_inv_def null_die_def)
next
  fix code c1 table ab locs c2
  assume "uleb128 (dw_image dw) cur = Inr (code, c1)"
    "attr_locs (dw_image dw) (ab_specs ab) c1 = Inr (locs, c2)"
    "d = \<lparr>d_pos = cpos cur, d_cu = Some cu, d_abbrev = Some ab, d_attr_locs = locs, d_next = cpos c2\<rparr>"
  then show ?thesis using uleb.strict [of "dw_image dw" cur code c1] attr_locs_forward
    by (fastforce simp: die_inv_def)
qed

subsection \<open>Attributes\<close>

record attr =
  at_cu :: compile_unit
  at_type :: u64
  at_form :: u64
  at_loc :: ptr

definition die_specs :: "die \<Rightarrow> attr_spec list result" where
  "die_specs d = (case d_abbrev d of None \<Rightarrow> Inl (UB ''null abbreviation'') | Some ab \<Rightarrow> Inr (ab_specs ab))"

definition die_contains :: "die \<Rightarrow> u64 \<Rightarrow> bool result" where
  "die_contains d attribute =
     rbind (die_specs d) (\<lambda>specs. Inr (find_if (\<lambda>spec. as_attr spec = attribute) specs \<noteq> None))"

text \<open>\<open>operator []\<close> has no return statement after its loop: a missing attribute is undefined.\<close>

definition die_attr :: "die \<Rightarrow> u64 \<Rightarrow> attr result" where
  "die_attr d attribute =
     rbind (die_specs d) (\<lambda>specs.
     case find_if (\<lambda>spec. as_attr spec = attribute) specs of
       None \<Rightarrow> Inl (UB ''no return value'')
     | Some i \<Rightarrow> rbind (die_cu d) (\<lambda>cu. rbind (vec_idx (d_attr_locs d) i) (\<lambda>loc.
         Inr \<lparr>at_cu = cu, at_type = as_attr (specs ! i), at_form = as_form (specs ! i), at_loc = loc\<rparr>)))"

lemma die_attr_contains:
  assumes "die_inv d" and "d_abbrev d \<noteq> None"
  shows "(\<exists>a. die_attr d attribute = Inr a) \<longleftrightarrow> die_contains d attribute = Inr True"
proof -
  from assms obtain ab cu where d: "d_abbrev d = Some ab" "d_cu d = Some cu" "length (d_attr_locs d) = length (ab_specs ab)"
    by (auto simp: die_inv_def)
  show ?thesis
  proof (cases "find_if (\<lambda>spec. as_attr spec = attribute) (ab_specs ab)")
    case None
    with d show ?thesis by (simp add: die_attr_def die_contains_def die_specs_def)
  next
    case (Some i)
    then have "i < length (d_attr_locs d)" using d(3) find_if_SomeD by fastforce
    with d Some show ?thesis by (simp add: die_attr_def die_contains_def die_specs_def die_cu_def vec_idx_in rbind_eq_Inr)
  qed
qed

definition attr_cursor :: "attr \<Rightarrow> cursor" where
  "attr_cursor a = cu_end_cursor (at_cu a) (at_loc a)"

definition as_address :: "dwarf \<Rightarrow> attr \<Rightarrow> file_addr result" where
  "as_address dw a =
     (if at_form a \<noteq> DW_FORM_addr then Inl (Send ''Invalid address type'')
      else rbind (cu64 (dw_image dw) (attr_cursor a)) (\<lambda>(v, _). Inr (mk_file_addr (e_id (dw_elf dw)) v)))"

definition as_section_offset :: "dwarf \<Rightarrow> attr \<Rightarrow> u32 result" where
  "as_section_offset dw a =
     (if at_form a \<noteq> DW_FORM_sec_offset then Inl (Send ''Invalid offset type'')
      else rbind (cu32 (dw_image dw) (attr_cursor a)) (\<lambda>(v, _). Inr v))"

definition as_int :: "dwarf \<Rightarrow> attr \<Rightarrow> u64 result" where
  "as_int dw a =
     (let img = dw_image dw; c = attr_cursor a in
      if at_form a = DW_FORM_data1 then rbind (cu8 img c) (\<lambda>(v, _). Inr (ucast v))
      else if at_form a = DW_FORM_data2 then rbind (cu16 img c) (\<lambda>(v, _). Inr (ucast v))
      else if at_form a = DW_FORM_data4 then rbind (cu32 img c) (\<lambda>(v, _). Inr (ucast v))
      else if at_form a = DW_FORM_data8 then rbind (cu64 img c) (\<lambda>(v, _). Inr v)
      else if at_form a = DW_FORM_udata then rbind (uleb128 img c) (\<lambda>(v, _). Inr v)
      else Inl (Send ''Invalid integer type''))"

definition as_block :: "dwarf \<Rightarrow> attr \<Rightarrow> span result" where
  "as_block dw a =
     (let img = dw_image dw; c = attr_cursor a in
      rbind (if at_form a = DW_FORM_block1 then rbind (cu8 img c) (\<lambda>(v, c'). Inr (unat v, c'))
             else if at_form a = DW_FORM_block2 then rbind (cu16 img c) (\<lambda>(v, c'). Inr (unat v, c'))
             else if at_form a = DW_FORM_block4 then rbind (cu32 img c) (\<lambda>(v, c'). Inr (unat v, c'))
             else if at_form a = DW_FORM_block then rbind (uleb128 img c) (\<lambda>(v, c'). Inr (unat v, c'))
             else Inl (Send ''Invalid block type'')) (\<lambda>(size, c').
      Inr \<lparr>sdata = cpos c', ssize = size\<rparr>))"

definition as_string :: "dwarf \<Rightarrow> attr \<Rightarrow> u8 list result" where
  "as_string dw a =
     (let img = dw_image dw; c = attr_cursor a in
      if at_form a = DW_FORM_string then rbind (cursor_string img c) (\<lambda>(s, _). Inr s)
      else if at_form a = DW_FORM_strp then
        rbind (cu32 img c) (\<lambda>(offset, _).
        let stab = get_section_contents (dw_elf dw) (ascii ''.debug_str'') in
        rbind (cursor_string img (mk_cursor (mk_span (sdata stab + unat offset) (send stab)))) (\<lambda>(s, _). Inr s))
      else Inl (Send ''Invalid string type''))"

text \<open>
  A reference: an offset into the unit, or for \<open>DW_FORM_ref_addr\<close> into the whole section,
  where the unit has to be found first. \<open>DW_FORM_ref8\<close> is read as a LEB128 number.
\<close>

definition as_reference :: "dwarf \<Rightarrow> attr \<Rightarrow> die result" where
  "as_reference dw a =
     (let img = dw_image dw; c = attr_cursor a; cu = at_cu a;
          in_unit = (\<lambda>offset. parse_die dw cu (cu_end_cursor cu (sdata (cu_data cu) + offset))) in
      if at_form a = DW_FORM_ref1 then rbind (cu8 img c) (\<lambda>(v, _). in_unit (unat v))
      else if at_form a = DW_FORM_ref2 then rbind (cu16 img c) (\<lambda>(v, _). in_unit (unat v))
      else if at_form a = DW_FORM_ref4 then rbind (cu32 img c) (\<lambda>(v, _). in_unit (unat v))
      else if at_form a = DW_FORM_ref8 then rbind (uleb128 img c) (\<lambda>(v, _). in_unit (unat v))
      else if at_form a = DW_FORM_ref_addr then
        rbind (cu32 img c) (\<lambda>(v, _).
        let die_pos = sdata (get_section_contents (dw_elf dw) (ascii ''.debug_info'')) + unat v in
        case find_if (\<lambda>u. sdata (cu_data u) \<le> die_pos \<and> send (cu_data u) > die_pos) (dw_units dw) of
          None \<Rightarrow> Inl (UB ''dereference of the end iterator'')
        | Some i \<Rightarrow> let u = dw_units dw ! i in parse_die dw u (cu_end_cursor u die_pos))
      else Inl (Send ''Invalid reference type''))"

lemma as_reference_inv: "as_reference dw a = Inr d \<Longrightarrow> die_inv d"
  by (auto simp: as_reference_def Let_def rbind_eq_Inr dest: parse_die_inv split: if_splits option.splits)

end
