(* ===== verification/KD_Children.thy ===== *)
theory KD_Children
  imports KD_Die
begin

text \<open>
  The children of an entry (\<open>die::children_range\<close> and its iterator, \<open>src/dwarf.cpp\<close>). The
  step to the next sibling skips the subtree in between, following a sibling attribute where
  there is one. A sibling attribute of a malformed file may point backwards, so the walk is
  given fuel, and \<open>None\<close> is a walk that did not end; on the encoding of a tree, twice as
  much fuel as it has bytes is enough.
\<close>

subsection \<open>The iterator\<close>

definition fbind :: "'a result option \<Rightarrow> ('a \<Rightarrow> 'b result option) \<Rightarrow> 'b result option" where
  "fbind m g = (case m of None \<Rightarrow> None | Some (Inl e) \<Rightarrow> Some (Inl e) | Some (Inr x) \<Rightarrow> g x)"

lemma fbind_simps [simp]: "fbind None g = None" "fbind (Some (Inl e)) g = Some (Inl e)"
    "fbind (Some (Inr x)) g = g x"
  by (simp_all add: fbind_def)

lemma fbind_eq_Inr: "fbind m g = Some (Inr y) \<longleftrightarrow> (\<exists>x. m = Some (Inr x) \<and> g x = Some (Inr y))"
  by (auto simp: fbind_def split: option.splits sum.splits)

definition children_begin :: "dwarf \<Rightarrow> die \<Rightarrow> die option result" where
  "children_begin dw d =
     (case d_abbrev d of None \<Rightarrow> Inl (UB ''null abbreviation'')
      | Some ab \<Rightarrow> if ab_has_children ab then rbind (parse_next_die dw d (d_next d)) (\<lambda>c. Inr (Some c))
                   else Inr None)"

text \<open>
  \<open>operator ++\<close> and the loop inside it, which steps over the children of the entry until it
  meets the entry that ends their list.
\<close>

fun iter_next :: "nat \<Rightarrow> dwarf \<Rightarrow> die \<Rightarrow> die result option"
and skip_siblings :: "nat \<Rightarrow> dwarf \<Rightarrow> die \<Rightarrow> die result option" where
  "iter_next 0 dw d = None"
| "iter_next (Suc n) dw d =
     (case d_abbrev d of
        None \<Rightarrow> Some (Inr d)
      | Some ab \<Rightarrow>
          if \<not> ab_has_children ab then Some (parse_next_die dw d (d_next d))
          else fbind (Some (die_contains d DW_AT_sibling)) (\<lambda>has_sibling.
            if has_sibling then Some (rbind (die_attr d DW_AT_sibling) (as_reference dw))
            else fbind (Some (parse_next_die dw d (d_next d))) (\<lambda>sub.
              fbind (skip_siblings n dw sub) (\<lambda>last.
              Some (parse_next_die dw d (d_next last))))))"
| "skip_siblings 0 dw d = None"
| "skip_siblings (Suc n) dw d =
     (case d_abbrev d of
        None \<Rightarrow> Some (Inr d)
      | Some ab \<Rightarrow> fbind (iter_next n dw d) (skip_siblings n dw))"

text \<open>
  Comparison of iterators. The abbreviation is compared by value here and by address in the
  code, which agrees for iterators over one unit.
\<close>

definition iter_null :: "die option \<Rightarrow> bool" where
  "iter_null it = (case it of None \<Rightarrow> True | Some d \<Rightarrow> d_abbrev d = None)"

definition iter_eq :: "die option \<Rightarrow> die option \<Rightarrow> bool" where
  "iter_eq lhs rhs =
     (if iter_null lhs \<and> iter_null rhs then True
      else if iter_null lhs \<or> iter_null rhs then False
      else d_abbrev (the lhs) = d_abbrev (the rhs) \<and> d_next (the lhs) = d_next (the rhs))"

text \<open>\<open>for (auto child : d.children())\<close>: the children in order.\<close>

fun collect_children :: "nat \<Rightarrow> dwarf \<Rightarrow> die option \<Rightarrow> die list result option" where
  "collect_children 0 dw it = None"
| "collect_children (Suc n) dw it =
     (if iter_eq it None then Some (Inr [])
      else fbind (iter_next n dw (the it)) (\<lambda>next.
        fbind (collect_children n dw (Some next)) (\<lambda>ds. Some (Inr (the it # ds)))))"

definition children :: "nat \<Rightarrow> dwarf \<Rightarrow> die \<Rightarrow> die list result option" where
  "children n dw d = fbind (Some (children_begin dw d)) (collect_children n dw)"

subsection \<open>Trees of entries\<close>

text \<open>
  What the bytes of a unit stand for: an entry with its abbreviation, the bytes of its
  attribute values, and its children, closed by a null entry when the abbreviation says that
  there are children.
\<close>

datatype die_tree = DieTree (dt_abbrev: abbrev) (dt_vals: "u8 list list") (dt_kids: "die_tree list")

definition tree_head :: "die_tree \<Rightarrow> u8 list" where
  "tree_head t = encode_uleb128 (unat (ab_code (dt_abbrev t))) @ concat (dt_vals t)"

fun encode_tree :: "die_tree \<Rightarrow> u8 list" where
  "encode_tree (DieTree ab vals kids) = encode_uleb128 (unat (ab_code ab)) @ concat vals
     @ (if ab_has_children ab then concat (map encode_tree kids) @ [0] else [])"

definition encode_forest :: "die_tree list \<Rightarrow> u8 list" where
  "encode_forest ks = concat (map encode_tree ks) @ [0]"

lemma encode_tree_head:
  "encode_tree t = tree_head t @ (if ab_has_children (dt_abbrev t) then encode_forest (dt_kids t) else [])"
  by (cases t) (simp add: tree_head_def encode_forest_def)

lemma encode_forest_simps: "encode_forest [] = [0]" "encode_forest (k # ks) = encode_tree k @ encode_forest ks"
  by (simp_all add: encode_forest_def)

fun tree_fits :: "abbrev_table \<Rightarrow> die_tree \<Rightarrow> bool" where
  "tree_fits table (DieTree ab vals kids) \<longleftrightarrow>
     ab_code ab \<noteq> 0 \<and> table (ab_code ab) = Some ab
     \<and> list_all2 (\<lambda>s bs. form_bytes (as_form s) bs) (ab_specs ab) vals
     \<and> (\<forall>s\<in>set (ab_specs ab). as_attr s \<noteq> DW_AT_sibling)
     \<and> (\<not> ab_has_children ab \<longrightarrow> kids = []) \<and> (\<forall>k\<in>set kids. tree_fits table k)"

fun val_locs :: "ptr \<Rightarrow> u8 list list \<Rightarrow> ptr list" where
  "val_locs p [] = []"
| "val_locs p (v # vs) = p # val_locs (p + length v) vs"

definition die_at :: "compile_unit \<Rightarrow> ptr \<Rightarrow> die_tree \<Rightarrow> die" where
  "die_at cu p t = \<lparr>d_pos = p, d_cu = Some cu, d_abbrev = Some (dt_abbrev t),
     d_attr_locs = val_locs (p + length (encode_uleb128 (unat (ab_code (dt_abbrev t))))) (dt_vals t),
     d_next = p + length (tree_head t)\<rparr>"

fun dies_at :: "compile_unit \<Rightarrow> ptr \<Rightarrow> die_tree list \<Rightarrow> die list" where
  "dies_at cu p [] = []"
| "dies_at cu p (k # ks) = die_at cu p k # dies_at cu (p + length (encode_tree k)) ks"

lemma attr_locs_encode:
  "list_all2 (\<lambda>s bs. form_bytes (as_form s) bs) ss vals \<Longrightarrow> has_bytes img (cpos c) (concat vals) \<Longrightarrow>
   cpos c + length (concat vals) \<le> send (cdata c) \<Longrightarrow>
   attr_locs img ss c = Inr (val_locs (cpos c) vals, cursor_advance (length (concat vals)) c)"
proof (induction ss vals arbitrary: c rule: list_all2_induct)
  case (Cons s ss v vs)
  have "skip_form img (as_form s) c = Inr (cursor_advance (length v) c)"
    using Cons.hyps(1) Cons.prems by (intro skip_form_bytes) auto
  moreover have "attr_locs img ss (cursor_advance (length v) c) =
      Inr (val_locs (cpos c + length v) vs, cursor_advance (length v + length (concat vs)) c)"
    using Cons.IH [of "cursor_advance (length v) c"] Cons.prems by simp
  ultimately show ?case by simp
qed simp

lemma cpos_cu_end_cursor [simp]: "cpos (cu_end_cursor cu p) = p"
  by (simp add: cu_end_cursor_def mk_cursor_def mk_span_def)

lemma send_cu_end_cursor [simp]: "p \<le> send (cu_data cu) \<Longrightarrow> send (cdata (cu_end_cursor cu p)) = send (cu_data cu)"
  by (simp add: cu_end_cursor_def mk_cursor_def mk_span_def send_def)

lemma parse_die_tree:
  assumes "abbrev_table_of dw cu = Inr table" and "tree_fits table t"
    and "has_bytes (dw_image dw) p (encode_tree t)" and "p + length (encode_tree t) \<le> send (cu_data cu)"
  shows "parse_die dw cu (cu_end_cursor cu p) = Inr (die_at cu p t)"
proof -
  obtain ab vals kids where t: "t = DieTree ab vals kids" by (cases t)
  let ?c = "cu_end_cursor cu p" and ?n = "length (encode_uleb128 (unat (ab_code ab)))"
  have "uleb128 (dw_image dw) ?c = Inr (ab_code ab, cursor_advance ?n ?c)"
    using assms(3) by (intro uleb128_encode_word) (simp add: t)
  moreover have "attr_locs (dw_image dw) (ab_specs ab) (cursor_advance ?n ?c) =
      Inr (val_locs (p + ?n) vals, cursor_advance (?n + length (concat vals)) ?c)"
    using attr_locs_encode [of "ab_specs ab" vals "dw_image dw" "cursor_advance ?n ?c"] assms
    by (simp add: t)
  ultimately show ?thesis using assms(1,2)
    by (simp add: t parse_die_def die_at_def tree_head_def map_at_def add.assoc)
qed

lemma parse_die_zero:
  "has_bytes (dw_image dw) p [0] \<Longrightarrow> parse_die dw cu (cu_end_cursor cu p) = Inr (null_die (p + 1))"
  using uleb128_encode_word [of "dw_image dw" "cu_end_cursor cu p" 0]
  by (simp add: parse_die_def encode_uleb128.simps)

text \<open>The entry at the start of a list of siblings.\<close>

definition forest_die :: "compile_unit \<Rightarrow> ptr \<Rightarrow> die_tree list \<Rightarrow> die" where
  "forest_die cu p ks = (case ks of [] \<Rightarrow> null_die (p + 1) | k # _ \<Rightarrow> die_at cu p k)"

lemma parse_die_forest:
  assumes "abbrev_table_of dw cu = Inr table" and "\<forall>k\<in>set ks. tree_fits table k"
    and "has_bytes (dw_image dw) p (encode_forest ks)" and "p + length (encode_forest ks) \<le> send (cu_data cu)"
  shows "parse_die dw cu (cu_end_cursor cu p) = Inr (forest_die cu p ks)"
  using assms parse_die_zero [of dw p cu] parse_die_tree [OF assms(1)]
  by (cases ks) (auto simp: forest_die_def encode_forest_simps)

subsection \<open>Skipping a subtree\<close>

fun tree_fuel :: "die_tree \<Rightarrow> nat" where
  "tree_fuel (DieTree ab vals kids) = Suc (Suc (sum_list (map tree_fuel kids)))"

lemma length_encode_tree_pos: "0 < length (encode_tree t)"
  by (cases t) simp

text \<open>Twice the number of bytes of a tree is enough fuel to skip it.\<close>

lemma tree_fuel_le: "tree_fits table t \<Longrightarrow> tree_fuel t \<le> 2 * length (encode_tree t)"
proof (induction t)
  case (DieTree ab vals kids)
  have "sum_list (map tree_fuel kids) \<le> sum_list (map (\<lambda>k. 2 * length (encode_tree k)) kids)"
    using DieTree by (intro sum_list_mono) auto
  also have "\<dots> = 2 * length (concat (map encode_tree kids))"
    by (simp add: length_concat sum_list_const_mult comp_def)
  finally have "sum_list (map tree_fuel kids) \<le> 2 * length (concat (map encode_tree kids))" .
  moreover have "1 \<le> length (encode_uleb128 (unat (ab_code ab)))"
    by (simp add: Suc_le_eq)
  moreover have "\<not> ab_has_children ab \<Longrightarrow> kids = []" using DieTree.prems by simp
  ultimately show ?case by auto
qed

lemma die_contains_sibling:
  "tree_fits table t \<Longrightarrow> die_contains (die_at cu p t) DW_AT_sibling = Inr False"
  by (cases t) (auto simp: die_contains_def die_specs_def die_at_def find_if_None)

lemma parse_next_die_at: "parse_next_die dw (die_at cu p t) q = parse_die dw cu (cu_end_cursor cu q)"
  by (simp add: parse_next_die_def die_cu_def die_at_def)

text \<open>
  The loop over a list of siblings ends at the null entry behind them, when the step over each
  of them reaches the next.
\<close>

lemma skip_siblings_forest:
  assumes "abbrev_table_of dw cu = Inr table"
    and "\<And>k n p. k \<in> set ks \<Longrightarrow> tree_fuel k \<le> n \<Longrightarrow> has_bytes (dw_image dw) p (encode_tree k) \<Longrightarrow>
       p + length (encode_tree k) \<le> send (cu_data cu) \<Longrightarrow>
       iter_next n dw (die_at cu p k) = Some (parse_die dw cu (cu_end_cursor cu (p + length (encode_tree k))))"
    and "\<forall>k\<in>set ks. tree_fits table k" and "Suc (sum_list (map tree_fuel ks)) \<le> n"
    and "has_bytes (dw_image dw) p (encode_forest ks)" and "p + length (encode_forest ks) \<le> send (cu_data cu)"
  shows "skip_siblings n dw (forest_die cu p ks) = Some (Inr (null_die (p + length (encode_forest ks))))"
  using assms(2-)
proof (induction ks arbitrary: n p)
  case Nil
  then show ?case by (cases n) (simp_all add: forest_die_def null_die_def encode_forest_simps)
next
  case (Cons k ks)
  let ?q = "p + length (encode_tree k)"
  from Cons.prems(3) obtain m where n: "n = Suc m" "Suc (tree_fuel k + sum_list (map tree_fuel ks)) \<le> Suc m"
    by (cases n) auto
  have pos: "1 \<le> tree_fuel k" by (cases k) simp
  have "iter_next m dw (die_at cu p k) = Some (parse_die dw cu (cu_end_cursor cu ?q))"
    using Cons.prems n pos by (intro Cons.prems(1)) (auto simp: encode_forest_simps)
  also have "parse_die dw cu (cu_end_cursor cu ?q) = Inr (forest_die cu ?q ks)"
    using Cons.prems by (intro parse_die_forest [OF assms(1)]) (auto simp: encode_forest_simps)
  finally have "iter_next m dw (die_at cu p k) = Some (Inr (forest_die cu ?q ks))" .
  moreover have "skip_siblings m dw (forest_die cu ?q ks) = Some (Inr (null_die (?q + length (encode_forest ks))))"
    using Cons.prems n pos by (intro Cons.IH) (auto simp: encode_forest_simps)
  moreover have "d_abbrev (die_at cu p k) = Some (dt_abbrev k)" by (simp add: die_at_def)
  ultimately show ?case using n
    by (simp add: forest_die_def encode_forest_simps add.assoc)
qed

lemma iter_next_tree:
  assumes "abbrev_table_of dw cu = Inr table"
  shows "tree_fits table t \<Longrightarrow> tree_fuel t \<le> n \<Longrightarrow> has_bytes (dw_image dw) p (encode_tree t) \<Longrightarrow>
     p + length (encode_tree t) \<le> send (cu_data cu) \<Longrightarrow>
     iter_next n dw (die_at cu p t) = Some (parse_die dw cu (cu_end_cursor cu (p + length (encode_tree t))))"
proof (induction t arbitrary: n p)
  case (DieTree ab vals kids)
  let ?t = "DieTree ab vals kids"
  let ?q = "p + length (tree_head ?t)"
  from DieTree.prems(2) obtain m where n: "n = Suc m" by (cases n) auto
  have d: "d_abbrev (die_at cu p ?t) = Some ab" "d_next (die_at cu p ?t) = ?q"
    by (simp_all add: die_at_def)
  show ?case
  proof (cases "ab_has_children ab")
    case False
    then show ?thesis using n d by (simp add: parse_next_die_at tree_head_def)
  next
    case True
    have len: "p + length (encode_tree ?t) = ?q + length (encode_forest kids)"
      using True by (simp add: tree_head_def encode_forest_def)
    have bytes: "has_bytes (dw_image dw) ?q (encode_forest kids)"
      using DieTree.prems(3) True by (simp add: tree_head_def encode_forest_def add.assoc)
    have "parse_die dw cu (cu_end_cursor cu ?q) = Inr (forest_die cu ?q kids)"
      using DieTree.prems len bytes by (intro parse_die_forest [OF assms]) auto
    moreover have "skip_siblings m dw (forest_die cu ?q kids) = Some (Inr (null_die (?q + length (encode_forest kids))))"
      using DieTree n len bytes by (intro skip_siblings_forest [OF assms]) auto
    ultimately show ?thesis using n d True die_contains_sibling [OF DieTree.prems(1), of cu p] len
      by (simp add: parse_next_die_at null_die_def add.assoc del: encode_tree.simps)
  qed
qed

subsection \<open>Enumerating the children\<close>

lemma collect_children_forest:
  assumes "abbrev_table_of dw cu = Inr table"
  shows "\<forall>k\<in>set ks. tree_fits table k \<Longrightarrow> Suc (sum_list (map tree_fuel ks)) \<le> n \<Longrightarrow>
     has_bytes (dw_image dw) p (encode_forest ks) \<Longrightarrow> p + length (encode_forest ks) \<le> send (cu_data cu) \<Longrightarrow>
     collect_children n dw (Some (forest_die cu p ks)) = Some (Inr (dies_at cu p ks))"
proof (induction ks arbitrary: n p)
  case Nil
  then show ?case by (cases n) (simp_all add: forest_die_def null_die_def iter_eq_def iter_null_def)
next
  case (Cons k ks)
  let ?q = "p + length (encode_tree k)"
  from Cons.prems(2) obtain m where n: "n = Suc m" "tree_fuel k + sum_list (map tree_fuel ks) \<le> m"
    by (cases n) auto
  have pos: "1 \<le> tree_fuel k" by (cases k) simp
  have "iter_next m dw (die_at cu p k) = Some (parse_die dw cu (cu_end_cursor cu ?q))"
    using Cons.prems n by (intro iter_next_tree [OF assms]) (auto simp: encode_forest_simps)
  also have "parse_die dw cu (cu_end_cursor cu ?q) = Inr (forest_die cu ?q ks)"
    using Cons.prems by (intro parse_die_forest [OF assms]) (auto simp: encode_forest_simps)
  finally have "iter_next m dw (die_at cu p k) = Some (Inr (forest_die cu ?q ks))" .
  moreover have "collect_children m dw (Some (forest_die cu ?q ks)) = Some (Inr (dies_at cu ?q ks))"
    using Cons.prems n pos by (intro Cons.IH) (auto simp: encode_forest_simps)
  moreover have "\<not> iter_eq (Some (die_at cu p k)) None"
    by (simp add: iter_eq_def iter_null_def die_at_def)
  ultimately show ?case using n by (simp add: forest_die_def)
qed

text \<open>
  The children of the entry of a tree are the entries of its subtrees, in order, at the places
  where their encodings start.
\<close>

lemma children_tree:
  assumes "abbrev_table_of dw cu = Inr table" and "tree_fits table t" and "tree_fuel t \<le> n"
    and "has_bytes (dw_image dw) p (encode_tree t)" and "p + length (encode_tree t) \<le> send (cu_data cu)"
  shows "children n dw (die_at cu p t) = Some (Inr (dies_at cu (p + length (tree_head t)) (dt_kids t)))"
proof -
  obtain ab vals kids where t: "t = DieTree ab vals kids" by (cases t)
  let ?q = "p + length (tree_head t)"
  show ?thesis
  proof (cases "ab_has_children ab")
    case False
    then show ?thesis using assms
      by (cases n) (simp_all add: t children_def children_begin_def die_at_def iter_eq_def iter_null_def)
  next
    case True
    have bytes: "has_bytes (dw_image dw) ?q (encode_forest kids)" and len: "?q + length (encode_forest kids) \<le> send (cu_data cu)"
      using assms(4,5) True by (simp_all add: t tree_head_def encode_forest_def add.assoc)
    have "parse_die dw cu (cu_end_cursor cu ?q) = Inr (forest_die cu ?q kids)"
      using assms(2) bytes len by (intro parse_die_forest [OF assms(1)]) (auto simp: t)
    moreover have "collect_children n dw (Some (forest_die cu ?q kids)) = Some (Inr (dies_at cu ?q kids))"
      using assms(2,3) bytes len by (intro collect_children_forest [OF assms(1)]) (auto simp: t)
    moreover have "d_abbrev (die_at cu p t) = Some ab" "d_next (die_at cu p t) = ?q"
      by (simp_all add: die_at_def t)
    ultimately show ?thesis using True
      by (simp add: t children_def children_begin_def parse_next_die_at)
  qed
qed

subsection \<open>Properties\<close>


text \<open>A unit with a function, its inlined call and a nested lexical block around a second one.\<close>

definition sample_table :: "abbrev list" where
  "sample_table =
     [\<lparr>ab_code = 1, ab_tag = DW_TAG_subprogram, ab_has_children = True, ab_specs = [\<lparr>as_attr = DW_AT_decl_line, as_form = DW_FORM_data1\<rparr>]\<rparr>,
      \<lparr>ab_code = 2, ab_tag = DW_TAG_inlined_subroutine, ab_has_children = False, ab_specs = [\<lparr>as_attr = DW_AT_call_line, as_form = DW_FORM_data2\<rparr>]\<rparr>,
      \<lparr>ab_code = 3, ab_tag = 0x0b, ab_has_children = True, ab_specs = []\<rparr>]"

definition sample_tree :: die_tree where
  "sample_tree = DieTree (sample_table ! 0) [[17]]
     [DieTree (sample_table ! 1) [[1, 2]] [],
      DieTree (sample_table ! 2) [] [DieTree (sample_table ! 1) [[3, 4]] []],
      DieTree (sample_table ! 1) [[5, 6]] []]"

text \<open>Its file: the abbreviations first, then the entries at \<open>sample_pos\<close>.\<close>

definition sample_abbrev_bytes :: "u8 list" where
  "sample_abbrev_bytes = concat (map encode_abbrev sample_table) @ encode_abbrev zero_abbrev"

definition sample_pos :: ptr where
  "sample_pos = 4096 + length sample_abbrev_bytes"

definition sample_elf :: elf where
  "sample_elf = blank_elf\<lparr>e_image := \<lparr>ibase = 4096, ibytes = sample_abbrev_bytes @ encode_tree sample_tree\<rparr>,
     e_sections := [\<lparr>sh_name = 0, sh_addr = 0, sh_offset = 0, sh_size = of_nat (length sample_abbrev_bytes), sh_entsize = 0\<rparr>],
     e_secmap := [ascii ''.debug_abbrev'' \<mapsto> 0]\<rparr>"

definition sample_cu :: compile_unit where
  "sample_cu = \<lparr>cu_data = \<lparr>sdata = sample_pos, ssize = length (encode_tree sample_tree)\<rparr>, cu_abbrev_offset = 0\<rparr>"

definition sample_dwarf :: dwarf where
  "sample_dwarf = \<lparr>dw_elf = sample_elf, dw_units = [sample_cu]\<rparr>"

lemma sample_image: "e_image sample_elf = \<lparr>ibase = 4096, ibytes = sample_abbrev_bytes @ encode_tree sample_tree\<rparr>"
  by (simp add: sample_elf_def)

lemma sample_abbrev_table: "abbrev_table_of sample_dwarf sample_cu = Inr (table_of sample_table)"
proof -
  have "has_bytes (e_image sample_elf) 4096 (concat (map encode_abbrev sample_table) @ encode_abbrev zero_abbrev)"
    using image_has_bytes [of 4096 "[]" sample_abbrev_bytes "encode_tree sample_tree"]
    unfolding sample_image by (simp only: sample_abbrev_bytes_def append_Nil list.size add_0_right)
  moreover have "mk_cursor (get_section_contents sample_elf (ascii ''.debug_abbrev''))
      = \<lparr>cdata = get_section_contents sample_elf (ascii ''.debug_abbrev''), cpos = 4096\<rparr>"
    by (simp add: mk_cursor_def get_section_contents_def get_section_def sample_elf_def)
  ultimately show ?thesis
    unfolding abbrev_table_of_def parse_abbrev_table_def sample_dwarf_def sample_cu_def
    by (simp, intro parse_abbrev_loop_table_of)
       (auto simp: sample_table_def zero_abbrev_def wf_abbrev_def)
qed

lemma sample_tree_fits: "tree_fits (table_of sample_table) sample_tree"
  by (simp add: sample_tree_def sample_table_def table_of_def form_bytes.one form_bytes.two)


end
