(* ===== verification/KD_Ranges.thy ===== *)
theory KD_Ranges
  imports KD_Children
begin

text \<open>
  Address ranges of entries (\<open>range_list\<close>, its iterator, and \<open>die::low_pc\<close>,
  \<open>die::high_pc\<close>, \<open>die::contains_address\<close> of \<open>src/dwarf.cpp\<close>). \<open>compile_unit::root\<close> is
  declared in the header file and defined nowhere, so it is an argument here.
\<close>

subsection \<open>Range lists\<close>

record range_entry =
  re_low :: file_addr
  re_high :: file_addr

definition range_entry_contains :: "range_entry \<Rightarrow> file_addr \<Rightarrow> bool result" where
  "range_entry_contains e a =
     rbind (fa_less_eq (re_low e) a) (\<lambda>ge. if ge then fa_less a (re_high e) else Inr False)"

record range_list =
  rl_data :: span
  rl_base :: file_addr

record range_iter =
  ri_data :: span
  ri_base :: file_addr
  ri_pos :: ptr
  ri_cur :: range_entry

text \<open>
  The loop of \<open>operator ++\<close>: a pair that starts with the largest address sets the base, a
  pair of zeros ends the list, every other pair is an entry relative to the base.
\<close>

function range_scan :: "image \<Rightarrow> elf_id \<Rightarrow> file_addr \<Rightarrow> cursor \<Rightarrow> (file_addr \<times> ptr \<times> range_entry) result" where
  "range_scan img e base c =
     rbind (cu64 img c) (\<lambda>(lo, c1).
     rbind (cu64 img c1) (\<lambda>(hi, c2).
     let low = mk_file_addr e lo; high = mk_file_addr e hi in
     if lo = - 1 then range_scan img e high c2
     else if lo = 0 \<and> hi = 0 then Inr (base, nullptr, \<lparr>re_low = low, re_high = high\<rparr>)
     else Inr (base, cpos c2, \<lparr>re_low = fa_add_assign low (fa_addr base), re_high = fa_add_assign high (fa_addr base)\<rparr>)))"
  by pat_completeness auto
termination
proof (relation "measure (\<lambda>(img, e, base, c). iend img - cpos c)")
  fix img e base c r lo c1 r' hi c2 low high
  assume "cu64 img c = Inr r" "(lo, c1) = r" "cu64 img c1 = Inr r'" "(hi, c2) = r'"
  then show "((img, e, high, c2), img, e, base, c) \<in> measure (\<lambda>(img, e, base, c). iend img - cpos c)"
    using cu64.decreases [of img c lo c1] cu64.decreases [of img c1 hi c2] by (auto simp: cu64.left_def)
qed simp

declare range_scan.simps [simp del]

definition range_iter_next :: "image \<Rightarrow> elf_id \<Rightarrow> range_iter \<Rightarrow> range_iter result" where
  "range_iter_next img e it =
     rbind (range_scan img e (ri_base it) (mk_cursor (mk_span (ri_pos it) (send (ri_data it))))) (\<lambda>(base, pos, cur).
     Inr (it\<lparr>ri_base := base, ri_pos := pos, ri_cur := cur\<rparr>))"

definition range_begin :: "image \<Rightarrow> elf_id \<Rightarrow> range_list \<Rightarrow> range_iter result" where
  "range_begin img e r = range_iter_next img e
     \<lparr>ri_data = rl_data r, ri_base = rl_base r, ri_pos = sdata (rl_data r),
      ri_cur = \<lparr>re_low = file_addr_default, re_high = file_addr_default\<rparr>\<rparr>"

text \<open>Iterators are compared by position, and the end iterator is at \<open>nullptr\<close>.\<close>

definition range_at_end :: "range_iter \<Rightarrow> bool" where
  "range_at_end it \<longleftrightarrow> ri_pos it = nullptr"

lemma range_scan_pos:
  "range_scan img e base c = Inr (base', pos, cur) \<Longrightarrow> pos = nullptr \<or> cpos c < pos \<and> pos \<le> iend img"
proof (induction img e base c rule: range_scan.induct)
  case (1 img e base c)
  from "1.prems" obtain lo c1 hi c2 where r: "cu64 img c = Inr (lo, c1)" "cu64 img c1 = Inr (hi, c2)"
    by (subst (asm) range_scan.simps) (auto simp: rbind_eq_Inr)
  have step: "cpos c < cpos c2" "cpos c2 \<le> iend img"
    using cu64.strict [OF r(1)] cu64.strict [OF r(2)] cu64.inside [OF r(2)] by simp_all
  show ?case
  proof (cases "lo = - 1")
    case True
    with "1.prems" r have "range_scan img e (mk_file_addr e hi) c2 = Inr (base', pos, cur)"
      by (subst (asm) range_scan.simps) simp
    then show ?thesis using "1.IH" [OF r(1) refl r(2) refl refl refl True] step by auto
  next
    case False
    with "1.prems" r step show ?thesis
      by (subst (asm) range_scan.simps) (auto simp: Let_def split: if_splits)
  qed
qed

lemma range_iter_next_pos:
  "range_iter_next img e it = Inr it' \<Longrightarrow> range_at_end it' \<or> ri_pos it < ri_pos it' \<and> ri_pos it' \<le> iend img"
  by (auto simp: range_iter_next_def rbind_eq_Inr range_at_end_def mk_cursor_def dest!: range_scan_pos)

text \<open>\<open>std::any_of(begin(), end(), ...)\<close>.\<close>

function range_any_of :: "image \<Rightarrow> elf_id \<Rightarrow> file_addr \<Rightarrow> range_iter \<Rightarrow> bool result" where
  "range_any_of img e a it =
     (if range_at_end it then Inr False
      else rbind (range_entry_contains (ri_cur it) a) (\<lambda>found.
        if found then Inr True
        else rbind (range_iter_next img e it) (\<lambda>it'.
          if range_at_end it' then Inr False else range_any_of img e a it')))"
  by pat_completeness auto
termination
proof (relation "measure (\<lambda>(img, e, a, it). iend img - ri_pos it)")
  fix img e a it found it'
  assume "range_iter_next img e it = Inr it'" "\<not> range_at_end it'"
  then show "((img, e, a, it'), img, e, a, it) \<in> measure (\<lambda>(img, e, a, it). iend img - ri_pos it)"
    using range_iter_next_pos [of img e it it'] by auto
qed simp

declare range_any_of.simps [simp del]

definition range_list_contains :: "image \<Rightarrow> elf_id \<Rightarrow> range_list \<Rightarrow> file_addr \<Rightarrow> bool result" where
  "range_list_contains img e r a = rbind (range_begin img e r) (range_any_of img e a)"

text \<open>The last entry: \<open>while (std::next(it) != ranges.end()) ++it;\<close>.\<close>

function range_last :: "image \<Rightarrow> elf_id \<Rightarrow> range_iter \<Rightarrow> range_iter result" where
  "range_last img e it =
     rbind (range_iter_next img e it) (\<lambda>it'.
     if range_at_end it' then Inr it else range_last img e it')"
  by pat_completeness auto
termination
proof (relation "measure (\<lambda>(img, e, it). iend img - ri_pos it)")
  fix img e it it'
  assume "range_iter_next img e it = Inr it'" "\<not> range_at_end it'"
  then show "((img, e, it'), img, e, it) \<in> measure (\<lambda>(img, e, it). iend img - ri_pos it)"
    using range_iter_next_pos [of img e it it'] by auto
qed simp

declare range_last.simps [simp del]

subsection \<open>The range of an entry\<close>

definition as_range_list :: "(compile_unit \<Rightarrow> die result) \<Rightarrow> dwarf \<Rightarrow> attr \<Rightarrow> range_list result" where
  "as_range_list root dw a =
     (let section = get_section_contents (dw_elf dw) (ascii ''.debug_ranges'') in
      rbind (as_section_offset dw a) (\<lambda>offset.
      rbind (root (at_cu a)) (\<lambda>r.
      rbind (die_contains r DW_AT_low_pc) (\<lambda>has_low.
      rbind (if has_low then rbind (die_attr r DW_AT_low_pc) (as_address dw) else Inr file_addr_default) (\<lambda>base.
      Inr \<lparr>rl_data = mk_span (sdata section + unat offset) (send section), rl_base = base\<rparr>)))))"

text \<open>
  \<open>low_pc\<close> reads \<open>DW_AT_low_pc\<close> in both of its branches: with a range list and no low address,
  the attribute it asks for does not exist.
\<close>

definition low_pc :: "dwarf \<Rightarrow> die \<Rightarrow> file_addr result" where
  "low_pc dw d =
     rbind (die_contains d DW_AT_ranges) (\<lambda>has_ranges.
     if has_ranges then rbind (die_attr d DW_AT_low_pc) (as_address dw)
     else rbind (die_contains d DW_AT_low_pc) (\<lambda>has_low.
       if has_low then rbind (die_attr d DW_AT_low_pc) (as_address dw)
       else Inl (Send ''DIE does not have low PC'')))"

definition high_pc :: "(compile_unit \<Rightarrow> die result) \<Rightarrow> dwarf \<Rightarrow> die \<Rightarrow> file_addr result" where
  "high_pc root dw d =
     rbind (die_contains d DW_AT_ranges) (\<lambda>has_ranges.
     if has_ranges then
       rbind (die_attr d DW_AT_ranges) (\<lambda>a.
       rbind (as_range_list root dw a) (\<lambda>r.
       rbind (range_begin (dw_image dw) (e_id (dw_elf dw)) r) (\<lambda>it.
       rbind (range_last (dw_image dw) (e_id (dw_elf dw)) it) (\<lambda>it'. Inr (re_high (ri_cur it'))))))
     else rbind (die_contains d DW_AT_high_pc) (\<lambda>has_high.
       if has_high then
         rbind (die_attr d DW_AT_high_pc) (\<lambda>a.
         if at_form a = DW_FORM_addr then as_address dw a
         else rbind (low_pc dw d) (\<lambda>low. rbind (as_int dw a) (\<lambda>n. fa_plus low n)))
       else Inl (Send ''DIE does not have High PC'')))"

definition contains_address :: "(compile_unit \<Rightarrow> die result) \<Rightarrow> dwarf \<Rightarrow> die \<Rightarrow> file_addr \<Rightarrow> bool result" where
  "contains_address root dw d a =
     rbind (die_cu d) (\<lambda>cu.
     if fa_elf a \<noteq> Some (e_id (dw_elf dw)) then Inr False
     else rbind (die_contains d DW_AT_ranges) (\<lambda>has_ranges.
       if has_ranges then
         rbind (die_attr d DW_AT_ranges) (\<lambda>at.
         rbind (as_range_list root dw at) (\<lambda>r. range_list_contains (dw_image dw) (e_id (dw_elf dw)) r a))
       else rbind (die_contains d DW_AT_low_pc) (\<lambda>has_low.
         if has_low then
           rbind (low_pc dw d) (\<lambda>low. rbind (fa_less_eq low a) (\<lambda>ge.
           if ge then rbind (high_pc root dw d) (\<lambda>high. fa_greater high a) else Inr False))
         else Inr False)))"

subsection \<open>What a range list means\<close>

text \<open>
  The pairs of a list as they stand in the section, their encoding with the closing zeros, and
  the absolute half-open intervals they denote under a base address.
\<close>

definition encode_ranges :: "(u64 \<times> u64) list \<Rightarrow> u8 list" where
  "encode_ranges rs = concat (map (\<lambda>(lo, hi). as_bytes lo @ as_bytes hi) rs) @ as_bytes (0 :: u64) @ as_bytes (0 :: u64)"

fun resolve_ranges :: "u64 \<Rightarrow> (u64 \<times> u64) list \<Rightarrow> (u64 \<times> u64) list" where
  "resolve_ranges base [] = []"
| "resolve_ranges base ((lo, hi) # rs) =
     (if lo = - 1 then resolve_ranges hi rs else (lo + base, hi + base) # resolve_ranges base rs)"

lemma encode_ranges_simps:
  "encode_ranges [] = as_bytes (0 :: u64) @ as_bytes (0 :: u64)"
  "encode_ranges ((lo, hi) # rs) = as_bytes lo @ as_bytes hi @ encode_ranges rs"
  by (simp_all add: encode_ranges_def)

lemma length_as_bytes_u64 [simp]: "length (as_bytes (w :: u64)) = 8"
  by simp

lemma range_scan_pair:
  assumes "has_bytes img (cpos c) (as_bytes (lo :: u64) @ as_bytes (hi :: u64))"
  shows "cu64 img c = Inr (lo, cursor_advance 8 c) \<and> cu64 img (cursor_advance 8 c) = Inr (hi, cursor_advance 16 c)"
proof -
  have "cu64 img c = Inr (lo, cursor_advance 8 c)" using assms by (intro cu_reads(4)) simp
  moreover have "cu64 img (cursor_advance 8 c) = Inr (hi, cursor_advance 8 (cursor_advance 8 c))"
    using assms by (intro cu_reads(4)) simp
  ultimately show ?thesis by simp
qed

lemma range_scan_encode:
  "has_bytes img (cpos c) (encode_ranges rs) \<Longrightarrow> (0, 0) \<notin> set rs \<Longrightarrow>
   \<exists>base' q lo hi rest f. range_scan img e base c = Inr (\<lparr>fa_elf = f, fa_addr = base'\<rparr>, q,
       \<lparr>re_low = mk_file_addr e lo, re_high = mk_file_addr e hi\<rparr>)
     \<and> (if q = nullptr then resolve_ranges (fa_addr base) rs = []
        else resolve_ranges (fa_addr base) rs = (lo, hi) # resolve_ranges base' rest
          \<and> has_bytes img q (encode_ranges rest) \<and> (0, 0) \<notin> set rest \<and> length rest < length rs)"
proof (induction rs arbitrary: base c)
  case Nil
  then show ?case using range_scan_pair [of img c 0 0]
    by (cases base, subst range_scan.simps) (auto simp: encode_ranges_simps Let_def)
next
  case (Cons r rs)
  obtain lo hi where r: "r = (lo, hi)" by (cases r)
  have reads: "cu64 img c = Inr (lo, cursor_advance 8 c)" "cu64 img (cursor_advance 8 c) = Inr (hi, cursor_advance 16 c)"
    using Cons.prems(1) range_scan_pair [of img c lo hi] by (simp_all add: r encode_ranges_simps)
  have rest: "has_bytes img (cpos c + 16) (encode_ranges rs)" "(0, 0) \<notin> set rs" "\<not> (lo = 0 \<and> hi = 0)"
    using Cons.prems by (auto simp: r encode_ranges_simps add.assoc)
  show ?case
  proof (cases "lo = - 1")
    case True
    have step: "range_scan img e base c = range_scan img e (mk_file_addr e hi) (cursor_advance 16 c)"
      using reads True by (subst range_scan.simps) simp
    show ?thesis using Cons.IH [of "cursor_advance 16 c" "mk_file_addr e hi"] rest True
      unfolding step r by (fastforce simp: mk_file_addr_def)
  next
    case False
    have "range_scan img e base c = Inr (base, cpos c + 16,
        \<lparr>re_low = mk_file_addr e (lo + fa_addr base), re_high = mk_file_addr e (hi + fa_addr base)\<rparr>)"
      using reads False rest(3) by (subst range_scan.simps) (simp add: Let_def fa_add_assign_def mk_file_addr_def)
    then show ?thesis using rest False r
      by (cases base) (auto intro!: exI [of _ rs])
  qed
qed

definition in_ranges :: "u64 \<Rightarrow> (u64 \<times> u64) list \<Rightarrow> bool" where
  "in_ranges a rs \<longleftrightarrow> (\<exists>(lo, hi)\<in>set rs. lo \<le> a \<and> a < hi)"

lemma range_any_of_end: "range_at_end it \<Longrightarrow> range_any_of img e a it = Inr False"
  by (subst range_any_of.simps) simp

lemma range_any_of_encode:
  assumes "fa_elf a = Some e"
  shows "has_bytes img (ri_pos it) (encode_ranges rs) \<Longrightarrow> (0, 0) \<notin> set rs \<Longrightarrow>
     rbind (range_iter_next img e it) (range_any_of img e a)
       = Inr (in_ranges (fa_addr a) (resolve_ranges (fa_addr (ri_base it)) rs))"
proof (induction "length rs" arbitrary: rs it rule: less_induct)
  case less
  obtain base' q lo hi rest f where s:
    "range_scan img e (ri_base it) (mk_cursor (mk_span (ri_pos it) (send (ri_data it)))) =
       Inr (\<lparr>fa_elf = f, fa_addr = base'\<rparr>, q, \<lparr>re_low = mk_file_addr e lo, re_high = mk_file_addr e hi\<rparr>)"
    "if q = nullptr then resolve_ranges (fa_addr (ri_base it)) rs = []
     else resolve_ranges (fa_addr (ri_base it)) rs = (lo, hi) # resolve_ranges base' rest
       \<and> has_bytes img q (encode_ranges rest) \<and> (0, 0) \<notin> set rest \<and> length rest < length rs"
    using range_scan_encode [of img "mk_cursor (mk_span (ri_pos it) (send (ri_data it)))" rs e "ri_base it"] less.prems
    by (auto simp: mk_cursor_def)
  define it' where "it' = it\<lparr>ri_base := \<lparr>fa_elf = f, fa_addr = base'\<rparr>, ri_pos := q,
     ri_cur := \<lparr>re_low = mk_file_addr e lo, re_high = mk_file_addr e hi\<rparr>\<rparr>"
  have nx: "range_iter_next img e it = Inr it'" using s(1) by (simp add: range_iter_next_def it'_def)
  show ?case
  proof (cases "q = nullptr")
    case True
    then show ?thesis using nx s(2)
      by (simp add: it'_def, subst range_any_of.simps) (simp add: range_at_end_def in_ranges_def)
  next
    case False
    with s(2) have r: "resolve_ranges (fa_addr (ri_base it)) rs = (lo, hi) # resolve_ranges base' rest"
        "has_bytes img q (encode_ranges rest)" "(0, 0) \<notin> set rest" "length rest < length rs" by auto
    have e: "range_entry_contains (ri_cur it') a = Inr (lo \<le> fa_addr a \<and> fa_addr a < hi)"
      using assms by (simp add: it'_def range_entry_contains_def fa_cmp_defs mk_file_addr_def)
    have "rbind (range_iter_next img e it') (range_any_of img e a) = Inr (in_ranges (fa_addr a) (resolve_ranges base' rest))"
      using less.hyps [of rest it'] r by (simp add: it'_def)
    moreover have "rbind (range_iter_next img e it') (\<lambda>x. if range_at_end x then Inr False else range_any_of img e a x)
        = rbind (range_iter_next img e it') (range_any_of img e a)"
      by (rule rbind_cong [OF refl]) (simp add: range_any_of_end)
    ultimately show ?thesis using nx e False r(1)
      by (simp, subst range_any_of.simps) (auto simp: it'_def range_at_end_def in_ranges_def)
  qed
qed

text \<open>The step from one entry to the next, over the encoding.\<close>

lemma range_iter_next_encode:
  assumes "has_bytes img (ri_pos it) (encode_ranges rs)" and "(0, 0) \<notin> set rs"
  obtains it' where "range_iter_next img e it = Inr it'" and "range_at_end it'"
      and "resolve_ranges (fa_addr (ri_base it)) rs = []"
    | it' lo hi rest where "range_iter_next img e it = Inr it'" and "\<not> range_at_end it'"
      and "resolve_ranges (fa_addr (ri_base it)) rs = (lo, hi) # resolve_ranges (fa_addr (ri_base it')) rest"
      and "ri_cur it' = \<lparr>re_low = mk_file_addr e lo, re_high = mk_file_addr e hi\<rparr>"
      and "has_bytes img (ri_pos it') (encode_ranges rest)" and "(0, 0) \<notin> set rest" and "length rest < length rs"
proof -
  let ?c = "mk_cursor (mk_span (ri_pos it) (send (ri_data it)))"
  obtain base' q lo hi rest f where s:
    "range_scan img e (ri_base it) ?c =
       Inr (\<lparr>fa_elf = f, fa_addr = base'\<rparr>, q, \<lparr>re_low = mk_file_addr e lo, re_high = mk_file_addr e hi\<rparr>)"
    "if q = nullptr then resolve_ranges (fa_addr (ri_base it)) rs = []
     else resolve_ranges (fa_addr (ri_base it)) rs = (lo, hi) # resolve_ranges base' rest
       \<and> has_bytes img q (encode_ranges rest) \<and> (0, 0) \<notin> set rest \<and> length rest < length rs"
    using range_scan_encode [of img ?c rs e "ri_base it"] assms by (auto simp: mk_cursor_def)
  have n: "range_iter_next img e it = Inr (it\<lparr>ri_base := \<lparr>fa_elf = f, fa_addr = base'\<rparr>, ri_pos := q,
     ri_cur := \<lparr>re_low = mk_file_addr e lo, re_high = mk_file_addr e hi\<rparr>\<rparr>)"
    using s(1) by (simp add: range_iter_next_def)
  show thesis
  proof (cases "q = nullptr")
    case True
    with that(1) [OF n] s(2) show ?thesis by (simp add: range_at_end_def)
  next
    case False
    with that(2) [OF n, of lo hi rest] s(2) show ?thesis by (simp add: range_at_end_def)
  qed
qed

lemma range_last_encode:
  "has_bytes img (ri_pos it) (encode_ranges rs) \<Longrightarrow> (0, 0) \<notin> set rs \<Longrightarrow>
   \<exists>it'. range_last img e it = Inr it' \<and>
     (case resolve_ranges (fa_addr (ri_base it)) rs of [] \<Rightarrow> it' = it
      | r # rs' \<Rightarrow> re_high (ri_cur it') = mk_file_addr e (snd (last (r # rs'))))"
proof (induction "length rs" arbitrary: rs it rule: less_induct)
  case less
  from less.prems show ?case
  proof (cases rule: range_iter_next_encode [of img it rs e])
    case (1 it')
    then show ?thesis by (subst range_last.simps) simp
  next
    case (2 it' lo hi rest)
    have rl: "range_last img e it = range_last img e it'"
      using 2 by (subst range_last.simps) simp
    from less.hyps [OF 2(7) 2(5,6)] obtain it'' where it'': "range_last img e it' = Inr it''"
        "case resolve_ranges (fa_addr (ri_base it')) rest of [] \<Rightarrow> it'' = it'
         | r # rs' \<Rightarrow> re_high (ri_cur it'') = mk_file_addr e (snd (last (r # rs')))" by blast
    then show ?thesis using rl 2(3,4) by (auto split: list.splits)
  qed
qed

subsection \<open>Properties\<close>

text \<open>
  C8: a range list holds an address exactly when one of the half-open intervals it denotes
  does; base-address entries in the list take effect from their place on.
\<close>

theorem range_list_contains_correct:
  assumes "has_bytes img (sdata (rl_data r)) (encode_ranges rs)" and "(0, 0) \<notin> set rs" and "fa_elf a = Some e"
  shows "range_list_contains img e r a =
     Inr (\<exists>(lo, hi)\<in>set (resolve_ranges (fa_addr (rl_base r)) rs). lo \<le> fa_addr a \<and> fa_addr a < hi)"
  using range_any_of_encode [OF assms(3), of img "\<lparr>ri_data = rl_data r, ri_base = rl_base r, ri_pos = sdata (rl_data r),
      ri_cur = \<lparr>re_low = file_addr_default, re_high = file_addr_default\<rparr>\<rparr>" rs] assms(1,2)
  by (simp add: range_list_contains_def range_begin_def in_ranges_def)

definition sample_ranges :: "(u64 \<times> u64) list" where
  "sample_ranges = [(0x10, 0x20), (- 1, 0x4000), (0x8, 0x18)]"

definition sample_range_image :: image where
  "sample_range_image = \<lparr>ibase = 4096, ibytes = encode_ranges sample_ranges\<rparr>"

definition sample_range_list :: range_list where
  "sample_range_list = \<lparr>rl_data = \<lparr>sdata = 4096, ssize = 64\<rparr>, rl_base = mk_file_addr 1 0x1000\<rparr>"

lemma sample_range_bytes: "has_bytes sample_range_image 4096 (encode_ranges sample_ranges)"
  using image_has_bytes [of 4096 "[]" "encode_ranges sample_ranges" "[]"]
  by (simp add: sample_range_image_def)

lemma range_list_contains_correct_witness:
  "range_list_contains sample_range_image 1 sample_range_list (mk_file_addr 1 0x4010) = Inr True"
  using range_list_contains_correct [of sample_range_image sample_range_list sample_ranges "mk_file_addr 1 0x4010" 1]
    sample_range_bytes
  by (simp add: sample_range_list_def sample_ranges_def mk_file_addr_def)

text \<open>
  The high address of an entry with a nonempty range list is the upper end of the last
  interval of the list, which need not be the largest.
\<close>

theorem high_pc_last_range:
  assumes "die_contains d DW_AT_ranges = Inr True" and "die_attr d DW_AT_ranges = Inr at"
    and "as_range_list root dw at = Inr r" and "has_bytes (dw_image dw) (sdata (rl_data r)) (encode_ranges rs)"
    and "(0, 0) \<notin> set rs" and "resolve_ranges (fa_addr (rl_base r)) rs = ivs @ [(lo, hi)]"
  shows "high_pc root dw d = Inr (mk_file_addr (e_id (dw_elf dw)) hi)"
proof -
  let ?e = "e_id (dw_elf dw)" and ?img = "dw_image dw"
  define it where "it = \<lparr>ri_data = rl_data r, ri_base = rl_base r, ri_pos = sdata (rl_data r),
      ri_cur = \<lparr>re_low = file_addr_default, re_high = file_addr_default\<rparr>\<rparr>"
  have it: "has_bytes ?img (ri_pos it) (encode_ranges rs)" "range_begin ?img ?e r = range_iter_next ?img ?e it"
      "fa_addr (ri_base it) = fa_addr (rl_base r)"
    using assms(4) by (simp_all add: it_def range_begin_def)
  from it(1) assms(5) show ?thesis
  proof (cases rule: range_iter_next_encode [of ?img it rs ?e])
    case (1 it')
    then show ?thesis using assms(6) it(3) by simp
  next
    case (2 it' lo' hi' rest)
    from range_last_encode [OF 2(5,6), of ?e] obtain it'' where it'': "range_last ?img ?e it' = Inr it''"
        "case resolve_ranges (fa_addr (ri_base it')) rest of [] \<Rightarrow> it'' = it'
         | r # rs' \<Rightarrow> re_high (ri_cur it'') = mk_file_addr ?e (snd (last (r # rs')))" by blast
    have l: "last ((lo', hi') # resolve_ranges (fa_addr (ri_base it')) rest) = (lo, hi)"
      using 2(3) assms(6) it(3) by (metis last_snoc)
    then have "re_high (ri_cur it'') = mk_file_addr ?e hi"
      using it''(2) 2(4) by (auto split: list.splits if_splits)
    then show ?thesis using assms(1-3) it(2) 2(1) it''(1) by (simp add: high_pc_def)
  qed
qed

definition ranges_dwarf :: dwarf where
  "ranges_dwarf = \<lparr>dw_elf = blank_elf\<lparr>
     e_image := \<lparr>ibase = 4096, ibytes = encode_ranges sample_ranges @ as_bytes (0 :: u32)\<rparr>,
     e_sections := [\<lparr>sh_name = 0, sh_addr = 0, sh_offset = 0, sh_size = 64, sh_entsize = 0\<rparr>],
     e_secmap := [ascii ''.debug_ranges'' \<mapsto> 0]\<rparr>, dw_units = []\<rparr>"

definition ranges_die :: die where
  "ranges_die = \<lparr>d_pos = 4159, d_cu = Some \<lparr>cu_data = \<lparr>sdata = 4159, ssize = 5\<rparr>, cu_abbrev_offset = 0\<rparr>,
     d_abbrev = Some \<lparr>ab_code = 1, ab_tag = DW_TAG_subprogram, ab_has_children = False,
        ab_specs = [\<lparr>as_attr = DW_AT_ranges, as_form = DW_FORM_sec_offset\<rparr>]\<rparr>,
     d_attr_locs = [4160], d_next = 4164\<rparr>"

lemma ranges_image: "has_bytes (dw_image ranges_dwarf) 4096 (encode_ranges sample_ranges)"
    "has_bytes (dw_image ranges_dwarf) 4160 (as_bytes (0 :: u32))"
  using image_has_bytes [of 4096 "[]" "encode_ranges sample_ranges" "as_bytes (0 :: u32)"]
    image_has_bytes [of 4096 "encode_ranges sample_ranges" "as_bytes (0 :: u32)" "[]"]
  by (simp_all add: ranges_dwarf_def encode_ranges_def sample_ranges_def)

lemma high_pc_last_range_witness:
  "high_pc (\<lambda>cu. Inr (die_at cu 0 (DieTree \<lparr>ab_code = 1, ab_tag = 17, ab_has_children = False, ab_specs = []\<rparr> [] [])))
     ranges_dwarf ranges_die = Inr (mk_file_addr 1 0x4018)"
proof -
  let ?cu = "\<lparr>cu_data = \<lparr>sdata = 4159, ssize = 5\<rparr>, cu_abbrev_offset = 0\<rparr>"
  let ?at = "\<lparr>at_cu = ?cu, at_type = DW_AT_ranges, at_form = DW_FORM_sec_offset, at_loc = 4160\<rparr>"
  let ?root = "\<lambda>cu. Inr (die_at cu 0 (DieTree \<lparr>ab_code = 1, ab_tag = 17, ab_has_children = False, ab_specs = []\<rparr> [] []))"
  let ?r = "\<lparr>rl_data = mk_span 4096 4160, rl_base = file_addr_default\<rparr>"
  have "as_section_offset ranges_dwarf ?at = Inr 0"
    using cu_reads(3) [of "dw_image ranges_dwarf" "attr_cursor ?at" 0] ranges_image(2)
    by (simp add: as_section_offset_def attr_cursor_def)
  then have "as_range_list ?root ranges_dwarf ?at = Inr ?r"
    by (simp add: as_range_list_def die_contains_def die_specs_def die_at_def get_section_contents_def
        get_section_def ranges_dwarf_def send_def)
  then have "high_pc ?root ranges_dwarf ranges_die = Inr (mk_file_addr (e_id (dw_elf ranges_dwarf)) 0x4018)"
    using ranges_image(1)
    by (intro high_pc_last_range [of ranges_die ?at ?root ranges_dwarf ?r sample_ranges "[(0x10, 0x20)]" "0x4008"])
       (simp_all add: ranges_die_def die_contains_def die_specs_def die_attr_def die_cu_def vec_idx_def
         sample_ranges_def file_addr_default_def)
  then show ?thesis by (simp add: ranges_dwarf_def blank_elf_def)
qed

end
