(* ===== verification/KD_Line.thy ===== *)
theory KD_Line
  imports KD_Ranges
begin

text \<open>
  The line table of a unit (\<open>line_table\<close>, its iterator and \<open>parse_line_table\<close> of
  \<open>src/dwarf.cpp\<close>): the header parser, the interpreter of the line program, and the two
  lookups. The constructor of \<open>line_table\<close> leaves \<open>m_Cu\<close> uninitialised; the model uses the
  unit that was passed to it.
\<close>

unbundle bit_operations_syntax

subsection \<open>Paths\<close>

text \<open>\<open>std::filesystem::path\<close> on POSIX: bytes, compared and walked by components.\<close>

type_synonym path = "u8 list"

abbreviation (input) slash :: u8 where "slash \<equiv> 47"

definition path_absolute :: "path \<Rightarrow> bool" where
  "path_absolute p \<longleftrightarrow> p \<noteq> [] \<and> hd p = slash"

definition path_append :: "path \<Rightarrow> path \<Rightarrow> path" where
  "path_append p q = (if path_absolute q then q else if p = [] \<or> last p = slash then p @ q else p @ slash # q)"

fun split_slash :: "path \<Rightarrow> path list" where
  "split_slash [] = [[]]"
| "split_slash (b # bs) = (if b = slash then [] # split_slash bs
     else (b # hd (split_slash bs)) # tl (split_slash bs))"

definition path_components :: "path \<Rightarrow> path list" where
  "path_components p = (let names = filter (\<lambda>n. n \<noteq> []) (split_slash p) in
     (if path_absolute p then [[slash]] else []) @ names
     @ (if names \<noteq> [] \<and> last p = slash then [[]] else []))"

definition path_eq :: "path \<Rightarrow> path \<Rightarrow> bool" where
  "path_eq p q \<longleftrightarrow> path_components p = path_components q"

definition path_ends_in :: "path \<Rightarrow> path \<Rightarrow> bool" where
  "path_ends_in lhs rhs =
     (let l = path_components lhs; r = path_components rhs in
      if length r > length l then False else drop (length l - length r) l = r)"

subsection \<open>The table and its rows\<close>

record lt_file =
  lf_path :: path
  lf_mtime :: u64
  lf_length :: u64

text \<open>\<open>file_entry\<close> is a pointer into the vector of files; the model keeps the index.\<close>

record line_entry =
  le_address :: file_addr
  le_file_index :: u64
  le_line :: u64
  le_column :: u64
  le_is_stmt :: bool
  le_basic_block_start :: bool
  le_end_sequence :: bool
  le_prologue_end :: bool
  le_epilogue_begin :: bool
  le_discriminator :: u64
  le_file_entry :: "nat option"

definition line_entry_default :: line_entry where
  "line_entry_default = \<lparr>le_address = file_addr_default, le_file_index = 1, le_line = 1, le_column = 0,
     le_is_stmt = False, le_basic_block_start = False, le_end_sequence = False, le_prologue_end = False,
     le_epilogue_begin = False, le_discriminator = 0, le_file_entry = None\<rparr>"

definition line_entry_eq :: "line_entry \<Rightarrow> line_entry \<Rightarrow> bool" where
  "line_entry_eq a b \<longleftrightarrow> fa_eq (le_address a) (le_address b) \<and> le_file_index a = le_file_index b
     \<and> le_line a = le_line b \<and> le_column a = le_column b \<and> le_discriminator a = le_discriminator b"

record line_table =
  lt_data :: span
  lt_cu :: compile_unit
  lt_default_is_stmt :: bool
  lt_line_base :: u8
  lt_line_range :: u8
  lt_opcode_base :: u8
  lt_dirs :: "path list"
  lt_files :: "lt_file list"

record line_iter =
  li_current :: line_entry
  li_registers :: line_entry
  li_pos :: ptr

subsection \<open>Parsing the header\<close>

lemma find_byte0_forward: "find_byte0 img p e = Inr q \<Longrightarrow> p \<le> q"
proof (induction img p e arbitrary: q rule: find_byte0.induct)
  case (1 img p e)
  show ?case
  proof (cases "p = e")
    case True
    with "1.prems" show ?thesis by (subst (asm) find_byte0.simps) simp
  next
    case False
    with "1.prems" obtain b where "load_byte img p = Inr b" "b = 0 \<and> q = p \<or> b \<noteq> 0 \<and> find_byte0 img (Suc p) e = Inr q"
      by (subst (asm) find_byte0.simps) (auto simp: rbind_eq_Inr split: if_splits)
    then show ?thesis using "1.IH" [OF False] by fastforce
  qed
qed

lemma cstring_inside: "cstring img p = Inr s \<Longrightarrow> ibase img \<le> p \<and> p < iend img"
  by (subst (asm) cstring.simps) (auto simp: rbind_eq_Inr load_byte_Inr)

lemma cursor_string_progress:
  "cursor_string img c = Inr (s, c') \<Longrightarrow>
     cdata c' = cdata c \<and> cpos c < cpos c' \<and> ibase img \<le> cpos c \<and> cpos c < iend img"
  by (auto simp: cursor_string_def rbind_eq_Inr dest: find_byte0_forward cstring_inside)

definition parse_line_table_file :: "image \<Rightarrow> path \<Rightarrow> path list \<Rightarrow> lt_file reader" where
  "parse_line_table_file img compilation_dir include_directories c =
     rbind (cursor_string img c) (\<lambda>(file, c1).
     rbind (uleb128 img c1) (\<lambda>(dir_index, c2).
     rbind (uleb128 img c2) (\<lambda>(modification_time, c3).
     rbind (uleb128 img c3) (\<lambda>(file_length, c4).
     rbind (if file = [] then Inl (UB ''string_view index'')
            else if hd file \<noteq> slash then
              if dir_index = 0 then Inr (path_append compilation_dir file)
              else rbind (vec_idx include_directories (unat (dir_index - 1))) (\<lambda>d. Inr (path_append d file))
            else Inr file) (\<lambda>path.
     Inr (\<lparr>lf_path = path, lf_mtime = modification_time, lf_length = file_length\<rparr>, c4))))))"

lemma parse_line_table_file_progress:
  assumes "parse_line_table_file img d ds c = Inr (f, c')"
  shows "cdata c' = cdata c \<and> cpos c < cpos c' \<and> cpos c < iend img"
proof -
  from assms obtain s c1 i c2 m c3 l where
    r: "cursor_string img c = Inr (s, c1)" "uleb128 img c1 = Inr (i, c2)" "uleb128 img c2 = Inr (m, c3)"
      "uleb128 img c3 = Inr (l, c')"
    by (auto simp: parse_line_table_file_def rbind_eq_Inr)
  then show ?thesis
    using cursor_string_progress [OF r(1)] uleb.strict [OF r(2)] uleb.strict [OF r(3)] uleb.strict [OF r(4)]
      uleb.keeps_data [OF r(2)] uleb.keeps_data [OF r(3)] uleb.keeps_data [OF r(4)] by simp
qed

function parse_include_dirs :: "image \<Rightarrow> path \<Rightarrow> path list reader" where
  "parse_include_dirs img compilation_dir c =
     rbind (cursor_string img c) (\<lambda>(dir, c1).
     if dir = [] then Inr ([], c1)
     else rbind (parse_include_dirs img compilation_dir c1) (\<lambda>(ds, c2).
       Inr ((if hd dir = slash then dir else path_append compilation_dir dir) # ds, c2)))"
  by pat_completeness auto
termination
proof (relation "measure (\<lambda>(img, d, c). iend img - cpos c)")
  fix img cd c r dir c1
  assume "cursor_string img c = Inr r" "(dir, c1) = r"
  then show "((img, cd, c1), img, cd, c) \<in> measure (\<lambda>(img, d, c). iend img - cpos c)"
    using cursor_string_progress [of img c dir c1] by auto
qed simp

function parse_file_names :: "image \<Rightarrow> path \<Rightarrow> path list \<Rightarrow> lt_file list reader" where
  "parse_file_names img compilation_dir dirs c =
     rbind (load_byte img (cpos c)) (\<lambda>b.
     if b = 0 then Inr ([], c)
     else rbind (parse_line_table_file img compilation_dir dirs c) (\<lambda>(f, c1).
       rbind (parse_file_names img compilation_dir dirs c1) (\<lambda>(fs, c2). Inr (f # fs, c2))))"
  by pat_completeness auto
termination
proof (relation "measure (\<lambda>(img, d, ds, c). iend img - cpos c)")
  fix img cd and dirs :: "path list" and c :: cursor and b r f c1
  assume "parse_line_table_file img cd dirs c = Inr r" "(f, c1) = r"
  then show "((img, cd, dirs, c1), img, cd, dirs, c) \<in> measure (\<lambda>(img, d, ds, c). iend img - cpos c)"
    using parse_line_table_file_progress [of img cd dirs c f c1] by auto
qed simp

declare parse_include_dirs.simps [simp del] parse_file_names.simps [simp del]

definition expected_opcode_lengths :: "u8 list" where
  "expected_opcode_lengths = [0, 1, 1, 1, 1, 0, 0, 0, 1, 0, 0, 1]"

text \<open>The comparison of the opcode lengths: \<open>n\<close> of them are left, from index \<open>i\<close> on.\<close>

fun check_opcode_lengths :: "image \<Rightarrow> nat \<Rightarrow> nat \<Rightarrow> cursor \<Rightarrow> cursor result" where
  "check_opcode_lengths img 0 i c = Inr c"
| "check_opcode_lengths img (Suc n) i c =
     rbind (cu8 img c) (\<lambda>(b, c').
     rbind (vec_idx expected_opcode_lengths i) (\<lambda>expected.
     if b \<noteq> expected then Inl (Send ''Unexpected opcode lengths'') else check_opcode_lengths img n (Suc i) c'))"

definition parse_line_table :: "(compile_unit \<Rightarrow> die result) \<Rightarrow> dwarf \<Rightarrow> compile_unit \<Rightarrow> line_table option result" where
  "parse_line_table root dw cu =
     (let img = dw_image dw; section = get_section_contents (dw_elf dw) (ascii ''.debug_line'') in
      rbind (root cu) (\<lambda>r.
      rbind (die_contains r DW_AT_stmt_list) (\<lambda>has_lines.
      if \<not> has_lines then Inr None
      else rbind (rbind (die_attr r DW_AT_stmt_list) (as_section_offset dw)) (\<lambda>offset.
        let c0 = mk_cursor (mk_span (sdata section + unat offset) (send section)) in
        rbind (cu32 img c0) (\<lambda>(size, c1).
        let end = cpos c1 + unat size in
        rbind (cu16 img c1) (\<lambda>(version, c2).
        rbind (guard (version = 4) (Send ''Only DWARF 4 is supported right now'')) (\<lambda>_.
        rbind (cu32 img c2) (\<lambda>(header_length, c3).
        rbind (cu8 img c3) (\<lambda>(minimum_instruction_length, c4).
        rbind (guard (minimum_instruction_length = 1) (Send ''Invalid minimum instruction length'')) (\<lambda>_.
        rbind (cu8 img c4) (\<lambda>(maximum_operations, c5).
        rbind (guard (maximum_operations = 1) (Send ''Invalid maximum operations per instruction'')) (\<lambda>_.
        rbind (cu8 img c5) (\<lambda>(default_is_stmt, c6).
        rbind (cu8 img c6) (\<lambda>(line_base, c7).
        rbind (cu8 img c7) (\<lambda>(line_range, c8).
        rbind (cu8 img c8) (\<lambda>(opcode_base, c9).
        rbind (check_opcode_lengths img (unat opcode_base - 1) 0 c9) (\<lambda>c10.
        rbind (rbind (die_attr r DW_AT_comp_dir) (as_string dw)) (\<lambda>compilation_dir.
        rbind (parse_include_dirs img compilation_dir c10) (\<lambda>(dirs, c11).
        rbind (parse_file_names img compilation_dir dirs c11) (\<lambda>(files, c12).
        Inr (Some \<lparr>lt_data = mk_span (cpos c12 + 1) end, lt_cu = cu, lt_default_is_stmt = (default_is_stmt \<noteq> 0),
          lt_line_base = line_base, lt_line_range = line_range, lt_opcode_base = opcode_base,
          lt_dirs = dirs, lt_files = files\<rparr>)))))))))))))))))))))"

subsection \<open>The interpreter of the line program\<close>

text \<open>What every instruction that emits a row resets afterwards.\<close>

definition row_reset :: "line_entry \<Rightarrow> line_entry" where
  "row_reset e = e\<lparr>le_basic_block_start := False, le_prologue_end := False, le_epilogue_begin := False,
     le_discriminator := 0\<rparr>"

definition advance_address :: "u64 \<Rightarrow> line_entry \<Rightarrow> line_entry" where
  "advance_address n e = e\<lparr>le_address := fa_add_assign (le_address e) n\<rparr>"

definition emit :: "line_entry \<Rightarrow> line_iter \<Rightarrow> line_iter" where
  "emit row it = it\<lparr>li_current := row, li_registers := row_reset row\<rparr>"

definition set_regs :: "line_entry \<Rightarrow> line_iter \<Rightarrow> line_iter" where
  "set_regs e it = it\<lparr>li_registers := e\<rparr>"

definition exec_standard :: "image \<Rightarrow> line_table \<Rightarrow> line_iter \<Rightarrow> u8 \<Rightarrow> cursor \<Rightarrow> ((bool \<times> line_iter) \<times> cursor) result" where
  "exec_standard img t it opcode c =
     (let regs = li_registers it in
      if opcode = 1 then Inr ((True, emit regs it), c)
      else if opcode = 2 then rbind (sleb128 img c) (\<lambda>(v, c'). Inr ((False, set_regs (advance_address v regs) it), c'))
      else if opcode = 4 then rbind (uleb128 img c) (\<lambda>(v, c'). Inr ((False, set_regs (regs\<lparr>le_column := v\<rparr>) it), c'))
      else if opcode = 6 then Inr ((False, set_regs (regs\<lparr>le_is_stmt := \<not> le_is_stmt regs\<rparr>) it), c)
      else if opcode = 7 then Inr ((False, set_regs (regs\<lparr>le_basic_block_start := True\<rparr>) it), c)
      else if opcode = 8 then
        if lt_line_range t = 0 then Inl (UB ''division by zero'')
        else Inr ((False, set_regs (advance_address (of_nat ((255 - unat (lt_opcode_base t)) div unat (lt_line_range t))) regs) it), c)
      else if opcode = 9 then rbind (cu16 img c) (\<lambda>(v, c'). Inr ((False, set_regs (advance_address (ucast v) regs) it), c'))
      else if opcode = 10 then Inr ((False, set_regs (regs\<lparr>le_prologue_end := True\<rparr>) it), c)
      else if opcode = 11 then Inr ((False, set_regs (regs\<lparr>le_epilogue_begin := True\<rparr>) it), c)
      else if opcode = 12 then Inr ((False, it), c)
      else Inl (Send ''Unexpected standard opcode''))"

definition exec_extended :: "(compile_unit \<Rightarrow> die result) \<Rightarrow> dwarf \<Rightarrow> line_table \<Rightarrow> line_iter \<Rightarrow> cursor \<Rightarrow>
    ((bool \<times> line_iter \<times> line_table) \<times> cursor) result" where
  "exec_extended root dw t it c =
     (let img = dw_image dw; regs = li_registers it in
      rbind (uleb128 img c) (\<lambda>(length, c1).
      rbind (cu8 img c1) (\<lambda>(extended_opcode, c2).
      if extended_opcode = 1 then
        let row = regs\<lparr>le_end_sequence := True\<rparr> in
        Inr ((True, it\<lparr>li_current := row,
          li_registers := line_entry_default\<lparr>le_is_stmt := lt_default_is_stmt t\<rparr>\<rparr>, t), c2)
      else if extended_opcode = 2 then
        rbind (cu64 img c2) (\<lambda>(v, c3).
        Inr ((False, set_regs (regs\<lparr>le_address := mk_file_addr (e_id (dw_elf dw)) v\<rparr>) it, t), c3))
      else if extended_opcode = 3 then
        rbind (root (lt_cu t)) (\<lambda>r.
        rbind (rbind (die_attr r DW_AT_comp_dir) (as_string dw)) (\<lambda>compilation_dir.
        rbind (parse_line_table_file img compilation_dir (lt_dirs t) c2) (\<lambda>(file, c3).
        Inr ((False, it, t\<lparr>lt_files := lt_files t @ [file]\<rparr>), c3))))
      else if extended_opcode = 4 then
        rbind (uleb128 img c2) (\<lambda>(v, c3). Inr ((False, set_regs (regs\<lparr>le_discriminator := v\<rparr>) it, t), c3))
      else Inl (Send ''Unexpected extended opcode''))))"

definition exec_special :: "line_table \<Rightarrow> line_iter \<Rightarrow> u8 \<Rightarrow> line_iter result" where
  "exec_special t it opcode =
     (if lt_line_range t = 0 then Inl (UB ''division by zero'')
      else let adjusted = unat opcode - unat (lt_opcode_base t); range = unat (lt_line_range t);
               regs = advance_address (of_nat (adjusted div range)) (li_registers it);
               row = regs\<lparr>le_line := le_line regs + word_of_int (sint (lt_line_base t) + int (adjusted mod range))\<rparr>
           in Inr (emit row it))"

definition execute_instruction :: "(compile_unit \<Rightarrow> die result) \<Rightarrow> dwarf \<Rightarrow> line_table \<Rightarrow> line_iter \<Rightarrow>
    (bool \<times> line_iter \<times> line_table) result" where
  "execute_instruction root dw t it =
     rbind (cu8 (dw_image dw) (mk_cursor (mk_span (li_pos it) (send (lt_data t))))) (\<lambda>(opcode, c).
     rbind (if 0 < opcode \<and> opcode < lt_opcode_base t then
              rbind (exec_standard (dw_image dw) t it opcode c) (\<lambda>((emitted, it'), c'). Inr ((emitted, it', t), c'))
            else if opcode = 0 then exec_extended root dw t it c
            else rbind (exec_special t it opcode) (\<lambda>it'. Inr ((True, it', t), c))) (\<lambda>((emitted, it', t'), c').
     Inr (emitted, it'\<lparr>li_pos := cpos c'\<rparr>, t')))"

lemma exec_standard_forward: "exec_standard img t it opcode c = Inr (r, c') \<Longrightarrow> cpos c \<le> cpos c'"
  by (auto simp: exec_standard_def Let_def rbind_eq_Inr split: if_splits
      dest: uleb.forward sleb.forward cu16.forward)

lemma exec_extended_forward: "exec_extended root dw t it c = Inr (r, c') \<Longrightarrow> cpos c \<le> cpos c'"
  by (auto simp: exec_extended_def Let_def rbind_eq_Inr split: if_splits
      dest!: uleb.forward cu8.forward cu64.forward parse_line_table_file_progress)

lemma execute_instruction_progress:
  "execute_instruction root dw t it = Inr (emitted, it', t') \<Longrightarrow>
     li_pos it < li_pos it' \<and> ibase (dw_image dw) \<le> li_pos it \<and> li_pos it < iend (dw_image dw)"
  by (auto simp: execute_instruction_def rbind_eq_Inr cu8_Inr load_byte_Inr mk_cursor_def split: if_splits
      dest!: exec_standard_forward exec_extended_forward)

text \<open>\<open>do emitted = execute_instruction(); while (!emitted);\<close>\<close>

function run_to_row :: "(compile_unit \<Rightarrow> die result) \<Rightarrow> dwarf \<Rightarrow> line_table \<Rightarrow> line_iter \<Rightarrow> (line_iter \<times> line_table) result" where
  "run_to_row root dw t it =
     rbind (execute_instruction root dw t it) (\<lambda>(emitted, it', t').
     if emitted then Inr (it', t') else run_to_row root dw t' it')"
  by pat_completeness auto
termination
proof (relation "measure (\<lambda>(root, dw, t, it). iend (dw_image dw) - li_pos it)")
  fix root dw t it r emitted r' it' t'
  assume "execute_instruction root dw t it = Inr r" "(emitted, r') = r" "(it', t') = r'"
  then show "((root, dw, t', it'), root, dw, t, it) \<in> measure (\<lambda>(root, dw, t, it). iend (dw_image dw) - li_pos it)"
    using execute_instruction_progress [of root dw t it emitted it' t'] by auto
qed simp

declare run_to_row.simps [simp del]

definition line_next :: "(compile_unit \<Rightarrow> die result) \<Rightarrow> dwarf \<Rightarrow> line_table \<Rightarrow> line_iter \<Rightarrow> (line_iter \<times> line_table) result" where
  "line_next root dw t it =
     (if li_pos it = send (lt_data t) then Inr (it\<lparr>li_pos := nullptr\<rparr>, t)
      else rbind (run_to_row root dw t it) (\<lambda>(it', t').
        let i = unat (le_file_index (li_current it') - 1) in
        rbind (vec_idx (lt_files t') i) (\<lambda>_.
        Inr (it'\<lparr>li_current := (li_current it')\<lparr>le_file_entry := Some i\<rparr>\<rparr>, t'))))"

definition line_begin :: "(compile_unit \<Rightarrow> die result) \<Rightarrow> dwarf \<Rightarrow> line_table \<Rightarrow> (line_iter \<times> line_table) result" where
  "line_begin root dw t = line_next root dw t
     \<lparr>li_current = line_entry_default, li_registers = line_entry_default\<lparr>le_is_stmt := lt_default_is_stmt t\<rparr>,
      li_pos = sdata (lt_data t)\<rparr>"

definition line_at_end :: "line_iter \<Rightarrow> bool" where
  "line_at_end it \<longleftrightarrow> li_pos it = nullptr"

subsection \<open>Iteration and the two lookups\<close>

lemma run_to_row_progress:
  "run_to_row root dw t it = Inr (it', t') \<Longrightarrow> li_pos it < li_pos it' \<and> li_pos it < iend (dw_image dw)"
proof (induction root dw t it rule: run_to_row.induct)
  case (1 root dw t it)
  from "1.prems" obtain emitted it1 t1 where s: "execute_instruction root dw t it = Inr (emitted, it1, t1)"
      "emitted \<and> it' = it1 \<or> \<not> emitted \<and> run_to_row root dw t1 it1 = Inr (it', t')"
    by (subst (asm) run_to_row.simps) (auto simp: rbind_eq_Inr split: if_splits)
  then show ?case using execute_instruction_progress [OF s(1)] "1.IH" [OF s(1) refl refl] by auto
qed

lemma line_next_progress:
  "line_next root dw t it = Inr (it', t') \<Longrightarrow>
     line_at_end it' \<or> li_pos it < li_pos it' \<and> li_pos it < iend (dw_image dw)"
  by (auto simp: line_next_def line_at_end_def Let_def rbind_eq_Inr split: if_splits dest!: run_to_row_progress)

definition line_left :: "dwarf \<Rightarrow> line_iter \<Rightarrow> nat" where
  "line_left dw it = (if line_at_end it then 0 else Suc (iend (dw_image dw) - li_pos it))"

lemma line_next_decreases:
  "line_next root dw t it = Inr (it', t') \<Longrightarrow> \<not> line_at_end it \<Longrightarrow> line_left dw it' < line_left dw it"
  using line_next_progress [of root dw t it it' t'] by (auto simp: line_left_def)

text \<open>The rows from an iterator on, \<open>for (; it != end(); ++it)\<close>.\<close>

function line_rows :: "(compile_unit \<Rightarrow> die result) \<Rightarrow> dwarf \<Rightarrow> line_table \<Rightarrow> line_iter \<Rightarrow> (line_iter list \<times> line_table) result" where
  "line_rows root dw t it =
     (if line_at_end it then Inr ([], t)
      else rbind (line_next root dw t it) (\<lambda>(it', t').
        rbind (line_rows root dw t' it') (\<lambda>(its, t''). Inr (it # its, t''))))"
  by pat_completeness auto
termination
  by (relation "measure (\<lambda>(root, dw, t, it). line_left dw it)") (auto dest: line_next_decreases)

definition covers :: "file_addr \<Rightarrow> line_iter \<Rightarrow> line_iter \<Rightarrow> bool result" where
  "covers a prev it =
     rbind (fa_less_eq (le_address (li_current prev)) a) (\<lambda>p.
     if \<not> p then Inr False
     else rbind (fa_greater (le_address (li_current it)) a) (\<lambda>q.
       Inr (q \<and> \<not> le_end_sequence (li_current prev))))"

function entry_scan :: "(compile_unit \<Rightarrow> die result) \<Rightarrow> dwarf \<Rightarrow> file_addr \<Rightarrow> line_table \<Rightarrow> line_iter \<Rightarrow> line_iter \<Rightarrow>
    line_iter option result" where
  "entry_scan root dw a t prev it =
     (if line_at_end it then Inr None
      else rbind (covers a prev it) (\<lambda>found.
        if found then Inr (Some prev)
        else rbind (line_next root dw t it) (\<lambda>(it', t'). entry_scan root dw a t' it it')))"
  by pat_completeness auto
termination
  by (relation "measure (\<lambda>(root, dw, a, t, prev, it). line_left dw it)") (auto dest: line_next_decreases)

declare line_rows.simps [simp del] entry_scan.simps [simp del]

text \<open>The answer \<open>end()\<close> is \<open>None\<close>.\<close>

definition get_entry_by_address :: "(compile_unit \<Rightarrow> die result) \<Rightarrow> dwarf \<Rightarrow> line_table \<Rightarrow> file_addr \<Rightarrow> line_iter option result" where
  "get_entry_by_address root dw t a =
     rbind (line_begin root dw t) (\<lambda>(prev, t').
     if line_at_end prev then Inr None
     else rbind (line_next root dw t' prev) (\<lambda>(it, t''). entry_scan root dw a t'' prev it))"

text \<open>The vector of files only grows, so the path of a row can be looked up at the end.\<close>

definition path_matches :: "path \<Rightarrow> path \<Rightarrow> bool" where
  "path_matches path entry_path \<longleftrightarrow>
     (if path_absolute path then path_eq entry_path path else path_ends_in entry_path path)"

definition get_entries_by_line :: "(compile_unit \<Rightarrow> die result) \<Rightarrow> dwarf \<Rightarrow> line_table \<Rightarrow> path \<Rightarrow> nat \<Rightarrow> line_iter list result" where
  "get_entries_by_line root dw t path line =
     rbind (line_begin root dw t) (\<lambda>(it, t').
     rbind (line_rows root dw t' it) (\<lambda>(its, t'').
     Inr (filter (\<lambda>it. case le_file_entry (li_current it) of None \<Rightarrow> False
        | Some i \<Rightarrow> path_matches path (lf_path (lt_files t'' ! i))) its)))"

subsection \<open>The lookup by address, over the list of rows\<close>

fun scan_rows :: "file_addr \<Rightarrow> line_iter \<Rightarrow> line_iter list \<Rightarrow> line_iter option result" where
  "scan_rows a prev [] = Inr None"
| "scan_rows a prev (it # its) = rbind (covers a prev it) (\<lambda>found. if found then Inr (Some prev) else scan_rows a it its)"

lemma entry_scan_rows:
  "line_rows root dw t it = Inr (its, t') \<Longrightarrow> entry_scan root dw a t prev it = scan_rows a prev its"
proof (induction root dw t it arbitrary: its prev rule: line_rows.induct)
  case (1 root dw t it)
  show ?case
  proof (cases "line_at_end it")
    case True
    with "1.prems" show ?thesis
      by (subst entry_scan.simps, subst (asm) line_rows.simps) simp
  next
    case False
    with "1.prems" obtain it1 t1 rest where r: "line_next root dw t it = Inr (it1, t1)"
        "line_rows root dw t1 it1 = Inr (rest, t')" "its = it # rest"
      by (subst (asm) line_rows.simps) (auto simp: rbind_eq_Inr)
    have "entry_scan root dw a t1 it it1 = scan_rows a it rest"
      using "1.IH" [OF False r(1) refl r(2)] .
    then show ?thesis using False r
      by (subst entry_scan.simps) (cases "covers a prev it"; simp split: if_split)
  qed
qed

definition row_covers :: "file_addr \<Rightarrow> line_iter \<Rightarrow> line_iter \<Rightarrow> bool" where
  "row_covers a prev it \<longleftrightarrow> fa_addr (le_address (li_current prev)) \<le> fa_addr a
     \<and> fa_addr a < fa_addr (le_address (li_current it)) \<and> \<not> le_end_sequence (li_current prev)"

lemma covers_in_file:
  "fa_elf (le_address (li_current prev)) = fa_elf a \<Longrightarrow> fa_elf (le_address (li_current it)) = fa_elf a \<Longrightarrow>
   covers a prev it = Inr (row_covers a prev it)"
  by (auto simp: covers_def row_covers_def fa_cmp_defs)

lemma find_if_map: "find_if p (map f xs) = find_if (\<lambda>x. p (f x)) xs"
  by (induction xs) auto

lemma upt_Suc_map: "[0..<Suc n] = 0 # map Suc [0..<n]"
  by (simp add: upt_conv_Cons map_Suc_upt del: upt_Suc)

lemma scan_rows_find:
  "\<forall>it\<in>set (prev # its). fa_elf (le_address (li_current it)) = fa_elf a \<Longrightarrow>
   scan_rows a prev its = Inr (map_option (\<lambda>i. (prev # its) ! i)
     (find_if (\<lambda>i. row_covers a ((prev # its) ! i) ((prev # its) ! Suc i)) [0..<length its]))"
proof (induction its arbitrary: prev)
  case (Cons it its)
  have "\<forall>it\<in>set (it # its). fa_elf (le_address (li_current it)) = fa_elf a" using Cons.prems by simp
  from Cons.IH [OF this] have IH: "scan_rows a it its = Inr (map_option (\<lambda>i. (it # its) ! i)
      (find_if (\<lambda>i. row_covers a ((it # its) ! i) (its ! i)) [0..<length its]))"
    by (simp only: nth_Cons_Suc)
  have c: "covers a prev it = Inr (row_covers a prev it)"
    using Cons.prems by (intro covers_in_file) auto
  have comp: "map_option (\<lambda>i. (prev # it # its) ! i) (map_option Suc r) = map_option (\<lambda>i. (it # its) ! i) r" for r
    by (cases r) simp_all
  show ?case
    unfolding list.size upt_Suc_map add_0_right add_Suc_right find_if.simps find_if_map
    using c IH comp by (cases "row_covers a prev it") simp_all
qed simp

subsection \<open>Line programs\<close>

text \<open>
  The instructions a line program is made of, their encoding, and the effect each has on the
  registers together with the row it emits. A decoder that follows the format would differ
  from \<open>op_effect\<close> in \<open>SetFile\<close>, which sets the column here.
\<close>

datatype line_op =
    Copy
  | AdvancePc u64
  | SetFile u64
  | NegateStmt
  | BasicBlock
  | ConstAddPc
  | FixedAdvancePc u16
  | PrologueEnd
  | EpilogueBegin
  | EndSequence
  | SetAddress u64
  | SetDiscriminator u64
  | Special u8

fun encode_op :: "line_op \<Rightarrow> u8 list" where
  "encode_op Copy = [1]"
| "encode_op (AdvancePc w) = 2 # encode_sleb128 (sint w)"
| "encode_op (SetFile w) = 4 # encode_uleb128 (unat w)"
| "encode_op NegateStmt = [6]"
| "encode_op BasicBlock = [7]"
| "encode_op ConstAddPc = [8]"
| "encode_op (FixedAdvancePc h) = 9 # as_bytes h"
| "encode_op PrologueEnd = [10]"
| "encode_op EpilogueBegin = [11]"
| "encode_op EndSequence = [0, 1, 1]"
| "encode_op (SetAddress w) = [0, 9, 2] @ as_bytes w"
| "encode_op (SetDiscriminator w) = [0, 1, 4] @ encode_uleb128 (unat w)"
| "encode_op (Special b) = [b]"

fun op_ok :: "line_table \<Rightarrow> line_op \<Rightarrow> bool" where
  "op_ok t (AdvancePc w) \<longleftrightarrow> - 64 \<le> sint w"
| "op_ok t (Special b) \<longleftrightarrow> lt_opcode_base t \<le> b"
| "op_ok t _ \<longleftrightarrow> True"

fun op_effect :: "elf_id \<Rightarrow> line_table \<Rightarrow> line_op \<Rightarrow> line_entry \<Rightarrow> line_entry \<times> line_entry option" where
  "op_effect e t Copy r = (row_reset r, Some r)"
| "op_effect e t (AdvancePc w) r = (advance_address w r, None)"
| "op_effect e t (SetFile w) r = (r\<lparr>le_column := w\<rparr>, None)"
| "op_effect e t NegateStmt r = (r\<lparr>le_is_stmt := \<not> le_is_stmt r\<rparr>, None)"
| "op_effect e t BasicBlock r = (r\<lparr>le_basic_block_start := True\<rparr>, None)"
| "op_effect e t ConstAddPc r =
     (advance_address (of_nat ((255 - unat (lt_opcode_base t)) div unat (lt_line_range t))) r, None)"
| "op_effect e t (FixedAdvancePc h) r = (advance_address (ucast h) r, None)"
| "op_effect e t PrologueEnd r = (r\<lparr>le_prologue_end := True\<rparr>, None)"
| "op_effect e t EpilogueBegin r = (r\<lparr>le_epilogue_begin := True\<rparr>, None)"
| "op_effect e t EndSequence r =
     (line_entry_default\<lparr>le_is_stmt := lt_default_is_stmt t\<rparr>, Some (r\<lparr>le_end_sequence := True\<rparr>))"
| "op_effect e t (SetAddress w) r = (r\<lparr>le_address := mk_file_addr e w\<rparr>, None)"
| "op_effect e t (SetDiscriminator w) r = (r\<lparr>le_discriminator := w\<rparr>, None)"
| "op_effect e t (Special b) r =
     (let adjusted = unat b - unat (lt_opcode_base t); range = unat (lt_line_range t);
          row = (advance_address (of_nat (adjusted div range)) r)
            \<lparr>le_line := le_line r + word_of_int (sint (lt_line_base t) + int (adjusted mod range))\<rparr>
      in (row_reset row, Some row))"

fun program_rows :: "elf_id \<Rightarrow> line_table \<Rightarrow> line_op list \<Rightarrow> line_entry \<Rightarrow> line_entry list" where
  "program_rows e t [] r = []"
| "program_rows e t (i # is) r = (case op_effect e t i r of
      (r', None) \<Rightarrow> program_rows e t is r'
    | (r', Some row) \<Rightarrow> row # program_rows e t is r')"

definition wf_table :: "line_table \<Rightarrow> bool" where
  "wf_table t \<longleftrightarrow> lt_line_range t \<noteq> 0 \<and> 12 < lt_opcode_base t \<and> lt_files t \<noteq> []"

text \<open>One instruction, decoded and executed.\<close>

definition after_op :: "elf_id \<Rightarrow> line_table \<Rightarrow> line_op \<Rightarrow> line_iter \<Rightarrow> line_iter" where
  "after_op e t i it = (case op_effect e t i (li_registers it) of
      (r', None) \<Rightarrow> it\<lparr>li_registers := r', li_pos := li_pos it + length (encode_op i)\<rparr>
    | (r', Some row) \<Rightarrow> it\<lparr>li_current := row, li_registers := r', li_pos := li_pos it + length (encode_op i)\<rparr>)"

lemma sleb128_encode_word:
  assumes "has_bytes img (cpos c) (encode_sleb128 (sint (w :: u64)))" and "- 64 \<le> sint w"
  shows "sleb128 img c = Inr (w, cursor_advance (length (encode_sleb128 (sint w))) c)"
proof -
  have "sleb128 img c = Inr (sleb128_value (sint w), cursor_advance (length (encode_sleb128 (sint w))) c)"
    using assms(1) sint_greater_eq [of w] sint_less [of w] by (intro sleb128_encode) simp_all
  then show ?thesis using assms(2) by (simp add: sleb128_value_def)
qed

lemma uleb128_single:
  "load_byte img (cpos c) = Inr 1 \<Longrightarrow> uleb128 img c = Inr (1, cursor_advance 1 c)"
  "load_byte img (cpos c) = Inr 9 \<Longrightarrow> uleb128 img c = Inr (9, cursor_advance 1 c)"
  using uleb128_encode_word [of img c 1] uleb128_encode_word [of img c 9]
  by (simp_all add: encode_uleb128.simps)

lemma opcode_below: "12 < (b :: u8) \<Longrightarrow> n < 13 \<Longrightarrow> (of_nat n :: u8) < b"
  by (simp add: word_less_nat_alt unat_of_nat)

lemma execute_op:
  assumes "wf_table t" and "op_ok t i" and "has_bytes (dw_image dw) (li_pos it) (encode_op i)"
  shows "execute_instruction root dw t it =
     Inr (snd (op_effect (e_id (dw_elf dw)) t i (li_registers it)) \<noteq> None,
       after_op (e_id (dw_elf dw)) t i it, t)"
proof -
  define c where "c = mk_cursor (mk_span (li_pos it) (send (lt_data t)))"
  have cp: "cpos c = li_pos it" by (simp add: c_def mk_cursor_def)
  have small: "1 < lt_opcode_base t" "2 < lt_opcode_base t" "4 < lt_opcode_base t" "6 < lt_opcode_base t"
      "7 < lt_opcode_base t" "8 < lt_opcode_base t" "9 < lt_opcode_base t" "10 < lt_opcode_base t"
      "11 < lt_opcode_base t"
    using opcode_below [of "lt_opcode_base t"] assms(1)
    by (auto simp: wf_table_def dest!: spec [where P = "\<lambda>n. n < 13 \<longrightarrow> of_nat n < lt_opcode_base t"]
        intro: order_less_trans [rotated])
  note defs = exec_standard_def exec_extended_def exec_special_def after_op_def emit_def set_regs_def
    wf_table_def Let_def uleb128_single cu8_load
  note exec = execute_instruction_def c_def [symmetric]
  show ?thesis
  proof (cases i)
    case (AdvancePc w)
    then show ?thesis using assms small cp sleb128_encode_word [of "dw_image dw" "cursor_advance 1 c" w]
      unfolding exec by (simp add: defs)
  next
    case (SetFile w)
    then show ?thesis using assms small cp uleb128_encode_word [of "dw_image dw" "cursor_advance 1 c" w]
      unfolding exec by (simp add: defs)
  next
    case (FixedAdvancePc h)
    then show ?thesis using assms small cp cu_reads(2) [of "dw_image dw" "cursor_advance 1 c" h]
      unfolding exec by (simp add: defs)
  next
    case (SetAddress w)
    then show ?thesis using assms small cp cu_reads(4) [of "dw_image dw" "cursor_advance 3 c" w]
      unfolding exec by (simp add: defs numeral_3_eq_3)
  next
    case (SetDiscriminator w)
    then show ?thesis using assms small cp uleb128_encode_word [of "dw_image dw" "cursor_advance 3 c" w]
      unfolding exec by (simp add: defs numeral_3_eq_3)
  next
    case (Special b)
    then have "\<not> b < lt_opcode_base t" "b \<noteq> 0" using assms(1,2) by (auto simp: wf_table_def not_less)
    then show ?thesis using assms cp Special unfolding exec by (simp add: defs advance_address_def)
  qed (use assms small cp in \<open>simp_all add: exec defs\<close>)
qed

subsection \<open>Running a whole program\<close>

fun emits :: "line_op \<Rightarrow> bool" where
  "emits Copy = True" | "emits EndSequence = True" | "emits (Special b) = True" | "emits _ = False"

lemma op_effect_emits: "snd (op_effect e t i r) \<noteq> None \<longleftrightarrow> emits i"
  by (cases i) (simp_all add: Let_def)

lemma op_effect_file_index:
  assumes "le_file_index r = 1" and "op_effect e t i r = (r', row)"
  shows "le_file_index r' = 1 \<and> (\<forall>x. row = Some x \<longrightarrow> le_file_index x = 1)"
  using assms by (cases i) (auto simp: Let_def row_reset_def advance_address_def line_entry_default_def)

definition encode_ops :: "line_op list \<Rightarrow> u8 list" where
  "encode_ops is = concat (map encode_op is)"

lemma run_to_row_program:
  assumes "wf_table t"
  shows "ops \<noteq> [] \<Longrightarrow> emits (last ops) \<Longrightarrow> \<forall>i\<in>set ops. op_ok t i \<Longrightarrow>
     has_bytes (dw_image dw) (li_pos it) (encode_ops ops) \<Longrightarrow> le_file_index (li_registers it) = 1 \<Longrightarrow>
     \<exists>it' rest. run_to_row root dw t it = Inr (it', t)
       \<and> program_rows (e_id (dw_elf dw)) t ops (li_registers it)
          = li_current it' # program_rows (e_id (dw_elf dw)) t rest (li_registers it')
       \<and> li_pos it < li_pos it' \<and> li_pos it' + length (encode_ops rest) = li_pos it + length (encode_ops ops)
       \<and> has_bytes (dw_image dw) (li_pos it') (encode_ops rest) \<and> length rest < length ops
       \<and> (rest \<noteq> [] \<longrightarrow> emits (last rest)) \<and> (\<forall>i\<in>set rest. op_ok t i)
       \<and> le_file_index (li_registers it') = 1 \<and> le_file_index (li_current it') = 1"
proof (induction ops arbitrary: it)
  case (Cons i ops)
  let ?e = "e_id (dw_elf dw)"
  let ?it = "after_op ?e t i it"
  obtain r' row where eff: "op_effect ?e t i (li_registers it) = (r', row)" by fastforce
  have idx: "le_file_index r' = 1" "row = Some x \<Longrightarrow> le_file_index x = 1" for x
    using op_effect_file_index [OF Cons.prems(5) eff] by auto
  have ex: "execute_instruction root dw t it = Inr (row \<noteq> None, ?it, t)"
    using execute_op [OF assms, of i dw it root] Cons.prems eff by (simp add: encode_ops_def)
  have len: "0 < length (encode_op i)" by (cases i) simp_all
  have pos: "li_pos ?it = li_pos it + length (encode_op i)" "li_registers ?it = r'"
    using eff by (auto simp: after_op_def split: option.splits)
  have bytes: "has_bytes (dw_image dw) (li_pos ?it) (encode_ops ops)"
    using Cons.prems(4) pos by (simp add: encode_ops_def)
  show ?case
  proof (cases row)
    case (Some x)
    then have cur: "li_current ?it = x" using eff by (simp add: after_op_def)
    have "run_to_row root dw t it = Inr (?it, t)" using ex Some by (subst run_to_row.simps) simp
    then show ?thesis using Some Cons.prems eff pos len bytes idx cur
      by (intro exI [of _ ?it] exI [of _ ops]) (auto simp: encode_ops_def split: if_splits)
  next
    case None
    then have "\<not> emits i" using op_effect_emits [of ?e t i "li_registers it"] eff by simp
    then have ne: "ops \<noteq> []" "emits (last ops)" using Cons.prems(2) by (auto split: if_splits)
    obtain it' rest where ih: "run_to_row root dw t ?it = Inr (it', t)"
       "program_rows ?e t ops r' = li_current it' # program_rows ?e t rest (li_registers it')"
       "li_pos ?it < li_pos it'" "li_pos it' + length (encode_ops rest) = li_pos ?it + length (encode_ops ops)"
       "has_bytes (dw_image dw) (li_pos it') (encode_ops rest)" "length rest < length ops"
       "rest \<noteq> [] \<longrightarrow> emits (last rest)" "\<forall>i\<in>set rest. op_ok t i"
       "le_file_index (li_registers it') = 1" "le_file_index (li_current it') = 1"
      using Cons.IH [of ?it] ne Cons.prems(3) bytes idx(1) pos by auto
    have "run_to_row root dw t it = Inr (it', t)" using ex None ih(1) by (subst run_to_row.simps) simp
    then show ?thesis using None eff ih pos
      by (intro exI [of _ it'] exI [of _ rest]) (auto simp: encode_ops_def)
  qed
qed simp

definition with_file :: "line_entry \<Rightarrow> line_entry" where
  "with_file r = r\<lparr>le_file_entry := Some 0\<rparr>"

lemma line_rows_program:
  assumes "wf_table t"
  shows "ops \<noteq> [] \<longrightarrow> emits (last ops) \<Longrightarrow> \<forall>i\<in>set ops. op_ok t i \<Longrightarrow>
     has_bytes (dw_image dw) (li_pos it) (encode_ops ops) \<Longrightarrow> le_file_index (li_registers it) = 1 \<Longrightarrow>
     li_pos it + length (encode_ops ops) = send (lt_data t) \<Longrightarrow> 0 < li_pos it \<Longrightarrow>
     \<exists>its. rbind (line_next root dw t it) (\<lambda>(it', t'). line_rows root dw t' it') = Inr (its, t)
       \<and> map li_current its = map with_file (program_rows (e_id (dw_elf dw)) t ops (li_registers it))"
proof (induction "length ops" arbitrary: ops it rule: less_induct)
  case less
  let ?e = "e_id (dw_elf dw)"
  show ?case
  proof (cases "ops = []")
    case True
    then have "line_next root dw t it = Inr (it\<lparr>li_pos := nullptr\<rparr>, t)"
      using less.prems(5) by (simp add: line_next_def encode_ops_def)
    then show ?thesis using True by (simp add: line_rows.simps line_at_end_def)
  next
    case False
    obtain it1 rest where r: "run_to_row root dw t it = Inr (it1, t)"
       "program_rows ?e t ops (li_registers it) = li_current it1 # program_rows ?e t rest (li_registers it1)"
       "li_pos it < li_pos it1" "li_pos it1 + length (encode_ops rest) = li_pos it + length (encode_ops ops)"
       "has_bytes (dw_image dw) (li_pos it1) (encode_ops rest)" "length rest < length ops"
       "rest \<noteq> [] \<longrightarrow> emits (last rest)" "\<forall>i\<in>set rest. op_ok t i"
       "le_file_index (li_registers it1) = 1" "le_file_index (li_current it1) = 1"
      using run_to_row_program [OF assms, of ops dw it root] False less.prems by blast
    let ?it = "it1\<lparr>li_current := with_file (li_current it1)\<rparr>"
    have "li_pos it \<noteq> send (lt_data t)" using r(3,4) less.prems(5) by linarith
    then have nx: "line_next root dw t it = Inr (?it, t)"
      using r(1,10) assms by (simp add: line_next_def wf_table_def with_file_def vec_idx_def)
    obtain its where its: "rbind (line_next root dw t ?it) (\<lambda>(it', t'). line_rows root dw t' it') = Inr (its, t)"
       "map li_current its = map with_file (program_rows ?e t rest (li_registers it1))"
      using less.hyps [OF r(6), of ?it] r less.prems(5,6) by auto
    have "line_rows root dw t ?it = rbind (line_next root dw t ?it) (\<lambda>(it', t').
        rbind (line_rows root dw t' it') (\<lambda>(its, t''). Inr (?it # its, t'')))"
      using r(3) by (subst line_rows.simps) (simp add: line_at_end_def)
    also have "\<dots> = rbind (rbind (line_next root dw t ?it) (\<lambda>(it', t'). line_rows root dw t' it'))
        (\<lambda>(its, t''). Inr (?it # its, t''))"
      unfolding rbind_assoc by (intro rbind_cong [OF refl]) (simp add: split_beta)
    finally have "line_rows root dw t ?it = Inr (?it # its, t)" using its(1) by simp
    then show ?thesis using nx r(2) its(2) by simp
  qed
qed

subsection \<open>The file register\<close>

definition first_file :: "line_iter \<Rightarrow> bool" where
  "first_file it \<longleftrightarrow> le_file_index (li_registers it) = 1 \<and> le_file_index (li_current it) = 1"

lemma exec_standard_first_file:
  "exec_standard img t it opcode c = Inr ((emitted, it'), c') \<Longrightarrow> first_file it \<Longrightarrow> first_file it'"
  by (auto simp: exec_standard_def Let_def rbind_eq_Inr emit_def set_regs_def row_reset_def advance_address_def
      first_file_def split: if_splits)

lemma exec_extended_first_file:
  "exec_extended root dw t it c = Inr ((emitted, it', t'), c') \<Longrightarrow> first_file it \<Longrightarrow> first_file it'"
  by (auto simp: exec_extended_def Let_def rbind_eq_Inr set_regs_def line_entry_default_def first_file_def
      split: if_splits)

lemma exec_special_first_file: "exec_special t it opcode = Inr it' \<Longrightarrow> first_file it \<Longrightarrow> first_file it'"
  by (auto simp: exec_special_def Let_def emit_def row_reset_def advance_address_def first_file_def split: if_splits)

lemma execute_instruction_first_file:
  "execute_instruction root dw t it = Inr (emitted, it', t') \<Longrightarrow> first_file it \<Longrightarrow> first_file it'"
proof -
  have pos: "first_file (x\<lparr>li_pos := p\<rparr>) = first_file x" for x p by (simp add: first_file_def)
  assume "execute_instruction root dw t it = Inr (emitted, it', t')" and "first_file it"
  then show "first_file it'"
    by (auto simp: execute_instruction_def rbind_eq_Inr pos split: if_splits
        dest: exec_standard_first_file exec_extended_first_file exec_special_first_file)
qed

lemma run_to_row_first_file:
  "run_to_row root dw t it = Inr (it', t') \<Longrightarrow> first_file it \<Longrightarrow> first_file it'"
proof (induction root dw t it rule: run_to_row.induct)
  case (1 root dw t it)
  from "1.prems"(1) obtain emitted it1 t1 where s: "execute_instruction root dw t it = Inr (emitted, it1, t1)"
      "emitted \<and> it' = it1 \<or> \<not> emitted \<and> run_to_row root dw t1 it1 = Inr (it', t')"
    by (subst (asm) run_to_row.simps) (auto simp: rbind_eq_Inr split: if_splits)
  then show ?case using execute_instruction_first_file [OF s(1)] "1.prems"(2) "1.IH" [OF s(1) refl refl] by auto
qed

lemma line_next_first_file:
  "line_next root dw t it = Inr (it', t') \<Longrightarrow> first_file it \<Longrightarrow> first_file it'"
  by (auto simp: line_next_def Let_def rbind_eq_Inr first_file_def split: if_splits
      dest!: run_to_row_first_file [unfolded first_file_def])

lemma line_rows_first_file:
  "line_rows root dw t it = Inr (its, t') \<Longrightarrow> first_file it \<Longrightarrow> \<forall>x\<in>set its. first_file x"
proof (induction root dw t it arbitrary: its rule: line_rows.induct)
  case (1 root dw t it)
  show ?case
  proof (cases "line_at_end it")
    case True
    with "1.prems" show ?thesis by (subst (asm) line_rows.simps) simp
  next
    case False
    with "1.prems" obtain it1 t1 rest where r: "line_next root dw t it = Inr (it1, t1)"
        "line_rows root dw t1 it1 = Inr (rest, t')" "its = it # rest"
      by (subst (asm) line_rows.simps) (auto simp: rbind_eq_Inr)
    then show ?thesis using "1.IH" [OF False r(1) refl r(2)] line_next_first_file [OF r(1) "1.prems"(2)] "1.prems"(2)
      by simp
  qed
qed

subsection \<open>Properties\<close>

text \<open>
  C7: iterating over a line table whose bytes encode a program visits exactly the rows of the
  program, in order, and ends at the end of the data: every instruction is decoded to its
  effect and none is read twice or skipped.
\<close>

theorem line_table_rows:
  assumes "wf_table t" and "ops \<noteq> []" and "emits (last ops)" and "\<forall>i\<in>set ops. op_ok t i"
    and "has_bytes (dw_image dw) (sdata (lt_data t)) (encode_ops ops)"
    and "ssize (lt_data t) = length (encode_ops ops)" and "0 < sdata (lt_data t)"
  shows "\<exists>its. rbind (line_begin root dw t) (\<lambda>(it, t'). line_rows root dw t' it) = Inr (its, t)
    \<and> map li_current its = map with_file (program_rows (e_id (dw_elf dw)) t ops
         (line_entry_default\<lparr>le_is_stmt := lt_default_is_stmt t\<rparr>))"
  using line_rows_program [OF assms(1), of ops dw "\<lparr>li_current = line_entry_default,
      li_registers = line_entry_default\<lparr>le_is_stmt := lt_default_is_stmt t\<rparr>, li_pos = sdata (lt_data t)\<rparr>" root] assms
  by (simp add: line_begin_def send_def line_entry_default_def)

definition sample_ops :: "line_op list" where
  "sample_ops = [SetAddress 0x1000, Special 20, AdvancePc 4, SetFile 2, Copy, NegateStmt, Special 40, EndSequence]"

definition sample_line_dwarf :: dwarf where
  "sample_line_dwarf = \<lparr>dw_elf = blank_elf\<lparr>e_image := \<lparr>ibase = 4096, ibytes = encode_ops sample_ops\<rparr>\<rparr>, dw_units = []\<rparr>"

definition sample_line_table :: line_table where
  "sample_line_table = \<lparr>lt_data = \<lparr>sdata = 4096, ssize = length (encode_ops sample_ops)\<rparr>,
     lt_cu = \<lparr>cu_data = null_span, cu_abbrev_offset = 0\<rparr>, lt_default_is_stmt = True, lt_line_base = - 5,
     lt_line_range = 14, lt_opcode_base = 13, lt_dirs = [], lt_files = [\<lparr>lf_path = ascii ''/src/a.cpp'', lf_mtime = 0, lf_length = 0\<rparr>]\<rparr>"

lemma sample_line_bytes: "has_bytes (dw_image sample_line_dwarf) 4096 (encode_ops sample_ops)"
  using image_has_bytes [of 4096 "[]" "encode_ops sample_ops" "[]"] by (simp add: sample_line_dwarf_def)

lemma sample_line_ok: "wf_table sample_line_table" "\<forall>i\<in>set sample_ops. op_ok sample_line_table i"
    "sample_ops \<noteq> []" "emits (last sample_ops)"
  by (simp_all add: wf_table_def sample_line_table_def sample_ops_def)

lemma line_table_rows_witness:
  "\<exists>its. rbind (line_begin (\<lambda>cu. Inl Terminate) sample_line_dwarf sample_line_table)
       (\<lambda>(it, t'). line_rows (\<lambda>cu. Inl Terminate) sample_line_dwarf t' it) = Inr (its, sample_line_table)
    \<and> map li_current its = map with_file (program_rows (e_id (dw_elf sample_line_dwarf)) sample_line_table sample_ops
         (line_entry_default\<lparr>le_is_stmt := lt_default_is_stmt sample_line_table\<rparr>))"
  by (rule line_table_rows [OF sample_line_ok(1,3,4,2)])
     (use sample_line_bytes in \<open>simp_all add: sample_line_table_def\<close>)

text \<open>
  Whatever bytes the program consists of, every row it yields names the first file: the
  file register is never written, \<open>DW_LNS_set_file\<close> stores its operand in the column.
\<close>

theorem line_rows_name_first_file:
  assumes "line_begin root dw t = Inr (it, t')" and "line_rows root dw t' it = Inr (its, t'')"
  shows "\<forall>x\<in>set its. le_file_index (li_current x) = 1"
proof -
  have "first_file it" using assms(1) unfolding line_begin_def
    by (rule line_next_first_file) (simp add: first_file_def line_entry_default_def)
  with assms(2) have "\<forall>x\<in>set its. first_file x" by (rule line_rows_first_file)
  then show ?thesis unfolding first_file_def by blast
qed

lemma sample_line_run:
  "\<exists>it t' its. line_begin (\<lambda>cu. Inl Terminate) sample_line_dwarf sample_line_table = Inr (it, t')
     \<and> line_rows (\<lambda>cu. Inl Terminate) sample_line_dwarf t' it = Inr (its, sample_line_table)
     \<and> map li_current its = map with_file (program_rows 1 sample_line_table sample_ops
         (line_entry_default\<lparr>le_is_stmt := True\<rparr>))"
proof -
  let ?it = "\<lparr>li_current = line_entry_default, li_registers = line_entry_default\<lparr>le_is_stmt := True\<rparr>, li_pos = 4096\<rparr>"
  have "e_id (dw_elf sample_line_dwarf) = 1" by (simp add: sample_line_dwarf_def blank_elf_def)
  then show ?thesis
    using line_rows_program [OF sample_line_ok(1), of sample_ops sample_line_dwarf ?it "\<lambda>cu. Inl Terminate"]
      sample_line_ok sample_line_bytes
    by (auto simp: line_begin_def rbind_eq_Inr line_entry_default_def sample_line_table_def send_def)
qed

lemma line_rows_name_first_file_witness:
  "\<exists>it t' its. line_begin (\<lambda>cu. Inl Terminate) sample_line_dwarf sample_line_table = Inr (it, t')
     \<and> line_rows (\<lambda>cu. Inl Terminate) sample_line_dwarf t' it = Inr (its, sample_line_table)
     \<and> (\<forall>x\<in>set its. le_file_index (li_current x) = 1)"
  using sample_line_run line_rows_name_first_file by blast

text \<open>
  The lookup by address answers with the first row whose address range, up to the next row,
  holds the address and which does not end a sequence, and with the end iterator when there
  is none.
\<close>

theorem get_entry_by_address_first_row:
  assumes "line_begin root dw t = Inr (it, t')" and "line_rows root dw t' it = Inr (its, t'')"
    and "\<forall>x\<in>set its. fa_elf (le_address (li_current x)) = fa_elf a"
  shows "get_entry_by_address root dw t a = Inr (map_option (\<lambda>i. its ! i)
     (find_if (\<lambda>i. fa_addr (le_address (li_current (its ! i))) \<le> fa_addr a
          \<and> fa_addr a < fa_addr (le_address (li_current (its ! Suc i)))
          \<and> \<not> le_end_sequence (li_current (its ! i))) [0..<length its - 1]))"
proof (cases "line_at_end it")
  case True
  then show ?thesis using assms(1,2) by (simp add: get_entry_by_address_def line_rows.simps)
next
  case False
  then obtain it1 t1 rest where r: "line_next root dw t' it = Inr (it1, t1)"
      "line_rows root dw t1 it1 = Inr (rest, t'')" "its = it # rest"
    using assms(2) by (subst (asm) line_rows.simps) (auto simp: rbind_eq_Inr)
  have "get_entry_by_address root dw t a = scan_rows a it rest"
    using False assms(1) r(1) entry_scan_rows [OF r(2)] by (simp add: get_entry_by_address_def)
  also have "\<dots> = Inr (map_option (\<lambda>i. its ! i) (find_if (\<lambda>i. row_covers a (its ! i) (its ! Suc i)) [0..<length rest]))"
    using scan_rows_find [of it rest a] assms(3) r(3) by simp
  finally show ?thesis using r(3) by (simp add: row_covers_def)
qed

definition row_summary :: "line_entry \<Rightarrow> elf_id option \<times> u64 \<times> u64 \<times> bool" where
  "row_summary r = (fa_elf (le_address r), fa_addr (le_address r), le_line r, le_end_sequence r)"

lemma sample_program_rows:
  "map row_summary (program_rows 1 sample_line_table sample_ops (line_entry_default\<lparr>le_is_stmt := True\<rparr>))
     = [(Some 1, 0x1000, 3, False), (Some 1, 0x1004, 3, False), (Some 1, 0x1005, 11, False), (Some 1, 0x1005, 11, True)]"
  by (simp add: sample_ops_def sample_line_table_def row_summary_def Let_def advance_address_def row_reset_def
      fa_add_assign_def mk_file_addr_def line_entry_default_def)

lemma get_entry_by_address_first_row_witness:
  "\<exists>it. get_entry_by_address (\<lambda>cu. Inl Terminate) sample_line_dwarf sample_line_table (mk_file_addr 1 0x1002) = Inr (Some it)
     \<and> row_summary (li_current it) = (Some 1, 0x1000, 3, False)"
proof -
  obtain it t' its where r: "line_begin (\<lambda>cu. Inl Terminate) sample_line_dwarf sample_line_table = Inr (it, t')"
    "line_rows (\<lambda>cu. Inl Terminate) sample_line_dwarf t' it = Inr (its, sample_line_table)"
    "map li_current its = map with_file (program_rows 1 sample_line_table sample_ops
         (line_entry_default\<lparr>le_is_stmt := True\<rparr>))"
    using sample_line_run by blast
  have "map (\<lambda>x. row_summary (li_current x)) its = map row_summary (map li_current its)" by simp
  also have "\<dots> = [(Some 1, 0x1000, 3, False), (Some 1, 0x1004, 3, False), (Some 1, 0x1005, 11, False), (Some 1, 0x1005, 11, True)]"
    unfolding r(3) sample_program_rows [symmetric] by (simp add: row_summary_def with_file_def)
  finally obtain w x y z where its: "its = [w, x, y, z]" and rows: "row_summary (li_current w) = (Some 1, 0x1000, 3, False)"
      "row_summary (li_current x) = (Some 1, 0x1004, 3, False)" "row_summary (li_current y) = (Some 1, 0x1005, 11, False)"
      "row_summary (li_current z) = (Some 1, 0x1005, 11, True)"
    by (auto simp: map_eq_Cons_conv)
  have "[0..<3::nat] = [0, 1, 2]" by (simp add: upt_conv_Cons)
  then show ?thesis
    using get_entry_by_address_first_row [OF r(1,2), of "mk_file_addr 1 0x1002"] rows
    by (simp add: its row_summary_def mk_file_addr_def)
qed

text \<open>
  The relative-path test of the lookup by line holds exactly when the components of the
  one path are a suffix of the components of the other, so a partial file name never matches.
\<close>

theorem path_ends_in_suffix:
  "path_ends_in lhs rhs \<longleftrightarrow> (\<exists>pre. path_components lhs = pre @ path_components rhs)"
proof -
  have "path_ends_in lhs rhs \<longleftrightarrow> length (path_components rhs) \<le> length (path_components lhs)
      \<and> drop (length (path_components lhs) - length (path_components rhs)) (path_components lhs) = path_components rhs"
    by (auto simp: path_ends_in_def Let_def not_less)
  also have "\<dots> \<longleftrightarrow> (\<exists>pre. path_components lhs = pre @ path_components rhs)"
    by (metis append_eq_conv_conj append_take_drop_id diff_add_inverse2 le_add2 length_append)
  finally show ?thesis .
qed

end
