(* ===== verification/KD_Units.thy ===== *)
theory KD_Units
  imports KD_Line
begin

text \<open>
  The compile units of \<open>.debug_info\<close> (\<open>parse_compile_unit\<close>, \<open>parse_compile_units\<close> and the
  constructor of \<open>compile_unit\<close> in \<open>src/dwarf.cpp\<close>). The length of a unit is added up in 32
  bits; a length field that wraps to zero makes the loop stay where it is, so the loop is
  given fuel and \<open>None\<close> is a loop that did not end.
\<close>

subsection \<open>The parser\<close>

text \<open>A unit together with the line table its constructor parses.\<close>

type_synonym unit_entry = "compile_unit \<times> line_table option"

definition mk_compile_unit :: "(compile_unit \<Rightarrow> die result) \<Rightarrow> dwarf \<Rightarrow> span \<Rightarrow> nat \<Rightarrow> unit_entry result" where
  "mk_compile_unit root dw data abbrev_offset =
     (let cu = \<lparr>cu_data = data, cu_abbrev_offset = abbrev_offset\<rparr> in
      rbind (parse_line_table root dw cu) (\<lambda>lines. Inr (cu, lines)))"

definition parse_compile_unit :: "(compile_unit \<Rightarrow> die result) \<Rightarrow> dwarf \<Rightarrow> cursor \<Rightarrow> unit_entry result" where
  "parse_compile_unit root dw cur =
     (let img = dw_image dw in
      rbind (cu32 img cur) (\<lambda>(size, c1).
      rbind (cu16 img c1) (\<lambda>(version, c2).
      rbind (cu32 img c2) (\<lambda>(abbrev, c3).
      rbind (cu8 img c3) (\<lambda>(address_size, c4).
      if size = 0xffffffff then Inl (Send ''Only DWARF32 is supported at this moment.'')
      else if version \<noteq> 4 then Inl (Send ''Only DWARF version 4 is supported'')
      else if address_size \<noteq> 8 then Inl (Send ''Invalid address size for DWARF'')
      else mk_compile_unit root dw \<lparr>sdata = cpos cur, ssize = unat (size + 4)\<rparr> (unat abbrev))))))"

fun parse_units_loop :: "nat \<Rightarrow> (compile_unit \<Rightarrow> die result) \<Rightarrow> dwarf \<Rightarrow> cursor \<Rightarrow> unit_entry list result option" where
  "parse_units_loop 0 root dw cur = None"
| "parse_units_loop (Suc n) root dw cur =
     (if finished cur then Some (Inr [])
      else fbind (Some (parse_compile_unit root dw cur)) (\<lambda>u.
        fbind (parse_units_loop n root dw (cursor_advance (ssize (cu_data (fst u))) cur)) (\<lambda>us.
        Some (Inr (u # us)))))"

definition parse_compile_units :: "nat \<Rightarrow> (compile_unit \<Rightarrow> die result) \<Rightarrow> dwarf \<Rightarrow> unit_entry list result option" where
  "parse_compile_units n root dw =
     parse_units_loop n root dw (mk_cursor (get_section_contents (dw_elf dw) (ascii ''.debug_info'')))"

subsection \<open>Reference encoding\<close>

text \<open>A unit is the offset of its abbreviations and the bytes behind its header.\<close>

definition encode_unit :: "u32 \<times> u8 list \<Rightarrow> u8 list" where
  "encode_unit u = (case u of (abbrev, body) \<Rightarrow>
     as_bytes (of_nat (7 + length body) :: u32) @ as_bytes (4 :: u16) @ as_bytes abbrev @ [8] @ body)"

lemma length_encode_unit: "length (encode_unit (abbrev, body)) = 11 + length body"
  by (simp add: encode_unit_def)

fun units_at :: "ptr \<Rightarrow> (u32 \<times> u8 list) list \<Rightarrow> compile_unit list" where
  "units_at p [] = []"
| "units_at p (u # us) = \<lparr>cu_data = \<lparr>sdata = p, ssize = length (encode_unit u)\<rparr>, cu_abbrev_offset = unat (fst u)\<rparr>
     # units_at (p + length (encode_unit u)) us"

lemma parse_header_fields:
  assumes "has_bytes img (cpos c) (as_bytes (sz :: u32) @ as_bytes (version :: u16) @ as_bytes (abbrev :: u32) @ [asz])"
  shows "cu32 img c = Inr (sz, cursor_advance 4 c) \<and> cu16 img (cursor_advance 4 c) = Inr (version, cursor_advance 6 c)
    \<and> cu32 img (cursor_advance 6 c) = Inr (abbrev, cursor_advance 10 c)
    \<and> cu8 img (cursor_advance 10 c) = Inr (asz, cursor_advance 11 c)"
proof -
  have "cu32 img c = Inr (sz, cursor_advance 4 c)" using assms by (intro cu_reads) simp
  moreover have "cu16 img (cursor_advance 4 c) = Inr (version, cursor_advance 2 (cursor_advance 4 c))"
    using assms by (intro cu_reads) simp
  moreover have "cu32 img (cursor_advance 6 c) = Inr (abbrev, cursor_advance 4 (cursor_advance 6 c))"
    using assms by (intro cu_reads) (simp add: ac_simps)
  moreover have "cu8 img (cursor_advance 10 c) = Inr (asz, cursor_advance 1 (cursor_advance 10 c))"
    using assms by (simp add: cu8_Inr ac_simps)
  ultimately show ?thesis by simp
qed

lemma parse_compile_unit_encode:
  assumes "has_bytes (dw_image dw) (cpos c) (encode_unit (abbrev, body))" and "11 + length body < 2 ^ 32"
    and "parse_line_table root dw \<lparr>cu_data = \<lparr>sdata = cpos c, ssize = 11 + length body\<rparr>, cu_abbrev_offset = unat abbrev\<rparr> = Inr lines"
  shows "parse_compile_unit root dw c =
     Inr (\<lparr>cu_data = \<lparr>sdata = cpos c, ssize = 11 + length body\<rparr>, cu_abbrev_offset = unat abbrev\<rparr>, lines)"
proof -
  let ?size = "of_nat (7 + length body) :: u32"
  have n: "unat (of_nat (length body) :: u32) = length body" using assms(2) by (simp add: unat_of_nat)
  have "unat ?size = 7 + length body" using assms(2) n by (simp add: unat_word_ariths)
  then have s: "?size \<noteq> 0xffffffff" "unat (?size + 4) = 11 + length body"
    using assms(2) n by (auto simp: unat_word_ariths dest: arg_cong [where f = unat])
  note parse_header_fields [of "dw_image dw" c ?size 4 abbrev 8]
  with assms(1,3) s show ?thesis
    by (simp add: parse_compile_unit_def encode_unit_def mk_compile_unit_def del: of_nat_add)
qed

lemma parse_units_loop_encode:
  assumes "\<And>cu. parse_line_table root dw cu = Inr (lines cu)"
  shows "has_bytes (dw_image dw) (cpos c) (concat (map encode_unit us)) \<Longrightarrow>
     cpos c + length (concat (map encode_unit us)) = send (cdata c) \<Longrightarrow>
     \<forall>u\<in>set us. length (encode_unit u) < 2 ^ 32 \<Longrightarrow> length us < n \<Longrightarrow>
     parse_units_loop n root dw c = Some (Inr (map (\<lambda>cu. (cu, lines cu)) (units_at (cpos c) us)))"
proof (induction us arbitrary: c n)
  case Nil
  then show ?case by (cases n) (simp_all add: finished_def)
next
  case (Cons u us)
  obtain abbrev body where u: "u = (abbrev, body)" by (cases u)
  from Cons.prems(4) obtain m where m: "n = Suc m" "length us < m" by (cases n) auto
  have "\<not> finished c" using Cons.prems(2) by (simp add: finished_def u length_encode_unit)
  moreover have "parse_compile_unit root dw c =
     Inr (\<lparr>cu_data = \<lparr>sdata = cpos c, ssize = 11 + length body\<rparr>, cu_abbrev_offset = unat abbrev\<rparr>,
       lines \<lparr>cu_data = \<lparr>sdata = cpos c, ssize = 11 + length body\<rparr>, cu_abbrev_offset = unat abbrev\<rparr>)"
    using Cons.prems assms by (intro parse_compile_unit_encode) (simp_all add: u length_encode_unit)
  moreover have "parse_units_loop m root dw (cursor_advance (11 + length body) c) =
      Some (Inr (map (\<lambda>cu. (cu, lines cu)) (units_at (cpos c + (11 + length body)) us)))"
    using Cons.IH [of "cursor_advance (11 + length body) c" m] Cons.prems m
    by (simp add: u length_encode_unit add.assoc)
  ultimately show ?case using m by (simp add: u length_encode_unit)
qed

text \<open>A length field that wraps to zero: the loop finds the same unit again and again.\<close>

lemma parse_units_loop_stuck:
  assumes "has_bytes (dw_image dw) (cpos c) (as_bytes (0xfffffffc :: u32) @ as_bytes (4 :: u16) @ as_bytes (abbrev :: u32) @ [8])"
    and "cpos c < send (cdata c)"
    and "parse_line_table root dw \<lparr>cu_data = \<lparr>sdata = cpos c, ssize = 0\<rparr>, cu_abbrev_offset = unat abbrev\<rparr> = Inr lines"
  shows "parse_units_loop n root dw c = None"
proof (induction n)
  case (Suc n)
  have "parse_compile_unit root dw c =
      Inr (\<lparr>cu_data = \<lparr>sdata = cpos c, ssize = 0\<rparr>, cu_abbrev_offset = unat abbrev\<rparr>, lines)"
    using parse_header_fields [OF assms(1)] assms(3) by (simp add: parse_compile_unit_def mk_compile_unit_def)
  with Suc assms(2) show ?case by (simp add: finished_def)
qed simp

subsection \<open>Properties\<close>


definition info_dwarf :: "u8 list \<Rightarrow> dwarf" where
  "info_dwarf bs = \<lparr>dw_elf = blank_elf\<lparr>e_image := \<lparr>ibase = 4096, ibytes = bs\<rparr>,
     e_sections := [\<lparr>sh_name = 0, sh_addr = 0, sh_offset = 0, sh_size = of_nat (length bs), sh_entsize = 0\<rparr>],
     e_secmap := [ascii ''.debug_info'' \<mapsto> 0]\<rparr>, dw_units = []\<rparr>"

lemma info_dwarf_simps [simp]:
  "dw_image (info_dwarf bs) = \<lparr>ibase = 4096, ibytes = bs\<rparr>"
  "get_section (dw_elf (info_dwarf bs)) (ascii ''.debug_info'') =
     Some \<lparr>sh_name = 0, sh_addr = 0, sh_offset = 0, sh_size = of_nat (length bs), sh_entsize = 0\<rparr>"
  by (simp_all add: info_dwarf_def get_section_def)

text \<open>A root entry without \<open>DW_AT_stmt_list\<close>.\<close>

definition plain_root :: "compile_unit \<Rightarrow> die result" where
  "plain_root cu = Inr (die_at cu (sdata (cu_data cu) + 11)
     (DieTree \<lparr>ab_code = 1, ab_tag = 0x11, ab_has_children = False, ab_specs = []\<rparr> [] []))"

lemma plain_root_lines: "parse_line_table plain_root dw cu = Inr None"
  by (simp add: parse_line_table_def plain_root_def die_contains_def die_specs_def die_at_def)

definition two_units :: "(u32 \<times> u8 list) list" where
  "two_units = [(0, [1, 2, 3]), (7, [])]"


text \<open>
  C37: a unit whose length field is 0xfffffffc has the size zero after the addition in 32 bits,
  and the loop over the section never returns, however much fuel it is given.
\<close>

theorem parse_compile_units_diverges:
  assumes "get_section (dw_elf dw) (ascii ''.debug_info'') = Some s" and "0 < sh_size s"
    and "has_bytes (dw_image dw) (ibase (dw_image dw) + unat (sh_offset s))
           (as_bytes (0xfffffffc :: u32) @ as_bytes (4 :: u16) @ as_bytes (abbrev :: u32) @ [8])"
    and "parse_line_table root dw \<lparr>cu_data = \<lparr>sdata = ibase (dw_image dw) + unat (sh_offset s), ssize = 0\<rparr>,
           cu_abbrev_offset = unat abbrev\<rparr> = Inr lines"
  shows "parse_compile_units n root dw = None"
  unfolding parse_compile_units_def using assms
  by (intro parse_units_loop_stuck [of dw _ abbrev _ lines])
     (simp_all add: mk_cursor_def get_section_contents_def send_def word_less_nat_alt)

lemma parse_compile_units_diverges_witness:
  "parse_compile_units 1000 plain_root
     (info_dwarf (as_bytes (0xfffffffc :: u32) @ as_bytes (4 :: u16) @ as_bytes (0 :: u32) @ [8])) = None"
proof (rule parse_compile_units_diverges [OF info_dwarf_simps(2), of _ 0 _ None])
  let ?bs = "as_bytes (0xfffffffc :: u32) @ as_bytes (4 :: u16) @ as_bytes (0 :: u32) @ [8]"
  show "has_bytes (dw_image (info_dwarf ?bs)) (ibase (dw_image (info_dwarf ?bs))
      + unat (sh_offset \<lparr>sh_name = 0, sh_addr = 0, sh_offset = 0, sh_size = of_nat (length ?bs), sh_entsize = 0\<rparr>)) ?bs"
    using image_has_bytes [of 4096 "[]" ?bs "[]"] by simp
qed (simp_all add: plain_root_lines)

end
