(* ===== verification/KD_Index.thy ===== *)
theory KD_Index
  imports KD_Units
begin

text \<open>
  Lookups over all units (\<open>dwarf\<close> in \<open>src/dwarf.cpp\<close>): names of entries, the index of
  functions that is built on first use, the function and the unit containing an address, the
  stack of inlined calls, and the source location of an entry. Walks that a malformed file
  can make endless have fuel; \<open>None\<close> is a walk that did not end.
\<close>

subsection \<open>Names\<close>

definition die_tag :: "die \<Rightarrow> u64 result" where
  "die_tag d = (case d_abbrev d of None \<Rightarrow> Inl (UB ''null abbreviation'') | Some ab \<Rightarrow> Inr (ab_tag ab))"

fun die_name :: "nat \<Rightarrow> dwarf \<Rightarrow> die \<Rightarrow> u8 list option result option" where
  "die_name 0 dw d = None"
| "die_name (Suc n) dw d =
     fbind (Some (die_contains d DW_AT_name)) (\<lambda>has_name.
     if has_name then Some (rbind (die_attr d DW_AT_name) (\<lambda>a. rbind (as_string dw a) (\<lambda>s. Inr (Some s))))
     else fbind (Some (die_contains d DW_AT_specification)) (\<lambda>has_spec.
       if has_spec then fbind (Some (rbind (die_attr d DW_AT_specification) (as_reference dw))) (die_name n dw)
       else fbind (Some (die_contains d DW_AT_abstract_origin)) (\<lambda>has_origin.
         if has_origin then fbind (Some (rbind (die_attr d DW_AT_abstract_origin) (as_reference dw))) (die_name n dw)
         else Some (Inr None))))"

subsection \<open>The index of functions\<close>

record index_entry =
  ie_cu :: compile_unit
  ie_pos :: ptr

type_synonym function_index = "(u8 list \<times> index_entry) list"

definition indexed_die :: "die \<Rightarrow> bool result" where
  "indexed_die d =
     rbind (rbind (die_contains d DW_AT_low_pc) (\<lambda>b. if b then Inr True else die_contains d DW_AT_ranges)) (\<lambda>has_range.
     rbind (die_tag d) (\<lambda>tag.
     Inr (has_range \<and> (tag = DW_TAG_subprogram \<or> tag = DW_TAG_inlined_subroutine))))"

definition index_one :: "nat \<Rightarrow> dwarf \<Rightarrow> die \<Rightarrow> function_index \<Rightarrow> function_index result option" where
  "index_one n dw d idx =
     fbind (Some (indexed_die d)) (\<lambda>b.
     if b then fbind (die_name n dw d) (\<lambda>name.
       case name of None \<Rightarrow> Some (Inl (UB ''empty optional''))
       | Some s \<Rightarrow> Some (rbind (die_cu d) (\<lambda>cu. Inr (idx @ [(s, \<lparr>ie_cu = cu, ie_pos = d_pos d\<rparr>)]))))
     else Some (Inr idx))"

fun index_die :: "nat \<Rightarrow> dwarf \<Rightarrow> die \<Rightarrow> function_index \<Rightarrow> function_index result option"
and index_children :: "nat \<Rightarrow> dwarf \<Rightarrow> die option \<Rightarrow> function_index \<Rightarrow> function_index result option" where
  "index_die 0 dw d idx = None"
| "index_die (Suc n) dw d idx =
     fbind (index_one n dw d idx) (\<lambda>idx'.
     fbind (Some (children_begin dw d)) (\<lambda>it. index_children n dw it idx'))"
| "index_children 0 dw it idx = None"
| "index_children (Suc n) dw it idx =
     (if iter_eq it None then Some (Inr idx)
      else fbind (index_die n dw (the it) idx) (\<lambda>idx'.
        fbind (iter_next n dw (the it)) (\<lambda>next. index_children n dw (Some next) idx')))"

fun index_units :: "nat \<Rightarrow> (compile_unit \<Rightarrow> die result) \<Rightarrow> dwarf \<Rightarrow> compile_unit list \<Rightarrow> function_index \<Rightarrow>
    function_index result option" where
  "index_units n root dw [] idx = Some (Inr idx)"
| "index_units n root dw (cu # cus) idx =
     fbind (Some (root cu)) (\<lambda>d. fbind (index_die n dw d idx) (index_units n root dw cus))"

definition dwarf_index :: "nat \<Rightarrow> (compile_unit \<Rightarrow> die result) \<Rightarrow> dwarf \<Rightarrow> function_index \<Rightarrow> function_index result option" where
  "dwarf_index n root dw idx = (if idx \<noteq> [] then Some (Inr idx) else index_units n root dw (dw_units dw) idx)"

subsection \<open>Lookups\<close>

definition entry_die :: "dwarf \<Rightarrow> index_entry \<Rightarrow> die result" where
  "entry_die dw e = parse_die dw (ie_cu e) (cu_end_cursor (ie_cu e) (ie_pos e))"

definition is_function_at :: "(compile_unit \<Rightarrow> die result) \<Rightarrow> dwarf \<Rightarrow> file_addr \<Rightarrow> die \<Rightarrow> bool result" where
  "is_function_at root dw a d =
     rbind (contains_address root dw d a) (\<lambda>b.
     if b then rbind (die_tag d) (\<lambda>tag. Inr (tag = DW_TAG_subprogram)) else Inr False)"

fun find_function :: "(compile_unit \<Rightarrow> die result) \<Rightarrow> dwarf \<Rightarrow> file_addr \<Rightarrow> function_index \<Rightarrow> die option result" where
  "find_function root dw a [] = Inr None"
| "find_function root dw a ((name, e) # es) =
     rbind (entry_die dw e) (\<lambda>d.
     rbind (is_function_at root dw a d) (\<lambda>b.
     if b then Inr (Some d) else find_function root dw a es))"

text \<open>
  The index is an unordered container: the order in which it is walked is an argument, any
  permutation of the entries. The index is kept between calls.
\<close>

definition function_containing_address :: "(function_index \<Rightarrow> function_index) \<Rightarrow> nat \<Rightarrow> (compile_unit \<Rightarrow> die result) \<Rightarrow>
    dwarf \<Rightarrow> file_addr \<Rightarrow> function_index \<Rightarrow> (die option \<times> function_index) result option" where
  "function_containing_address order n root dw a idx =
     fbind (dwarf_index n root dw idx) (\<lambda>idx'.
     Some (rbind (find_function root dw a (order idx')) (\<lambda>d. Inr (d, idx'))))"

definition find_functions :: "nat \<Rightarrow> (compile_unit \<Rightarrow> die result) \<Rightarrow> dwarf \<Rightarrow> u8 list \<Rightarrow> function_index \<Rightarrow>
    (die list \<times> function_index) result option" where
  "find_functions n root dw name idx =
     fbind (dwarf_index n root dw idx) (\<lambda>idx'.
     Some (rbind (mapR (\<lambda>(s, e). entry_die dw e) (filter (\<lambda>(s, e). s = name) idx')) (\<lambda>ds. Inr (ds, idx'))))"

fun find_unit :: "(compile_unit \<Rightarrow> die result) \<Rightarrow> dwarf \<Rightarrow> file_addr \<Rightarrow> compile_unit list \<Rightarrow> compile_unit option result" where
  "find_unit root dw a [] = Inr None"
| "find_unit root dw a (cu # cus) =
     rbind (root cu) (\<lambda>d. rbind (contains_address root dw d a) (\<lambda>b.
     if b then Inr (Some cu) else find_unit root dw a cus))"

definition compile_unit_containing_address :: "(compile_unit \<Rightarrow> die result) \<Rightarrow> dwarf \<Rightarrow> file_addr \<Rightarrow> compile_unit option result" where
  "compile_unit_containing_address root dw a = find_unit root dw a (dw_units dw)"

text \<open>The line table of a unit: \<open>lines()\<close> dereferences the pointer, which a unit without one leaves null.\<close>

definition unit_lines :: "unit_entry list \<Rightarrow> compile_unit \<Rightarrow> line_table result" where
  "unit_lines us cu = (case map_of us cu of Some (Some t) \<Rightarrow> Inr t | _ \<Rightarrow> Inl (UB ''null line table''))"

definition line_entry_at_address :: "(compile_unit \<Rightarrow> die result) \<Rightarrow> dwarf \<Rightarrow> unit_entry list \<Rightarrow> file_addr \<Rightarrow> line_iter option result" where
  "line_entry_at_address root dw us a =
     rbind (compile_unit_containing_address root dw a) (\<lambda>cu.
     case cu of None \<Rightarrow> Inr None
     | Some cu \<Rightarrow> rbind (unit_lines us cu) (\<lambda>t. get_entry_by_address root dw t a))"

subsection \<open>Inlined calls\<close>

definition is_inlined_at :: "(compile_unit \<Rightarrow> die result) \<Rightarrow> dwarf \<Rightarrow> file_addr \<Rightarrow> die \<Rightarrow> bool result" where
  "is_inlined_at root dw a d =
     rbind (die_tag d) (\<lambda>tag. if tag = DW_TAG_inlined_subroutine then contains_address root dw d a else Inr False)"

fun find_inlined :: "nat \<Rightarrow> (compile_unit \<Rightarrow> die result) \<Rightarrow> dwarf \<Rightarrow> file_addr \<Rightarrow> die option \<Rightarrow> die option result option" where
  "find_inlined 0 root dw a it = None"
| "find_inlined (Suc n) root dw a it =
     (if iter_eq it None then Some (Inr None)
      else fbind (Some (is_inlined_at root dw a (the it))) (\<lambda>b.
        if b then Some (Inr it)
        else fbind (iter_next n dw (the it)) (\<lambda>next. find_inlined n root dw a (Some next))))"

text \<open>The loop that pushes one inlined call after the other; \<open>d\<close> is the top of the stack.\<close>

fun inline_chain :: "nat \<Rightarrow> (compile_unit \<Rightarrow> die result) \<Rightarrow> dwarf \<Rightarrow> file_addr \<Rightarrow> die \<Rightarrow> die list result option" where
  "inline_chain 0 root dw a d = None"
| "inline_chain (Suc n) root dw a d =
     fbind (Some (children_begin dw d)) (\<lambda>it.
     fbind (find_inlined n root dw a it) (\<lambda>found.
     case found of None \<Rightarrow> Some (Inr [d])
     | Some c \<Rightarrow> fbind (inline_chain n root dw a c) (\<lambda>ds. Some (Inr (d # ds)))))"

definition inline_stack_at_address :: "(function_index \<Rightarrow> function_index) \<Rightarrow> nat \<Rightarrow> (compile_unit \<Rightarrow> die result) \<Rightarrow>
    dwarf \<Rightarrow> file_addr \<Rightarrow> function_index \<Rightarrow> (die list \<times> function_index) result option" where
  "inline_stack_at_address order n root dw a idx =
     fbind (function_containing_address order n root dw a idx) (\<lambda>(func, idx').
     case func of None \<Rightarrow> Some (Inr ([], idx'))
     | Some d \<Rightarrow> fbind (inline_chain n root dw a d) (\<lambda>stack. Some (Inr (stack, idx'))))"

subsection \<open>Source locations\<close>

definition die_file :: "dwarf \<Rightarrow> unit_entry list \<Rightarrow> die \<Rightarrow> lt_file result" where
  "die_file dw us d =
     rbind (die_tag d) (\<lambda>tag.
     rbind (die_attr d (if tag = DW_TAG_inlined_subroutine then DW_AT_call_file else DW_AT_decl_file)) (\<lambda>a.
     rbind (as_int dw a) (\<lambda>i.
     rbind (die_cu d) (\<lambda>cu. rbind (unit_lines us cu) (\<lambda>t. vec_idx (lt_files t) (unat (i - 1)))))))"

definition die_line :: "dwarf \<Rightarrow> die \<Rightarrow> u64 result" where
  "die_line dw d =
     rbind (die_tag d) (\<lambda>tag.
     rbind (die_attr d (if tag = DW_TAG_inlined_subroutine then DW_AT_call_line else DW_AT_decl_line)) (as_int dw))"

definition die_location :: "dwarf \<Rightarrow> unit_entry list \<Rightarrow> die \<Rightarrow> (lt_file \<times> u64) result" where
  "die_location dw us d = rbind (die_file dw us d) (\<lambda>f. rbind (die_line dw d) (\<lambda>l. Inr (f, l)))"

subsection \<open>The index covers the tree\<close>

fun tree_entries :: "compile_unit \<Rightarrow> ptr \<Rightarrow> die_tree \<Rightarrow> die list"
and forest_entries :: "compile_unit \<Rightarrow> ptr \<Rightarrow> die_tree list \<Rightarrow> die list" where
  "tree_entries cu p (DieTree ab vals kids) = die_at cu p (DieTree ab vals kids)
     # forest_entries cu (p + length (tree_head (DieTree ab vals kids))) kids"
| "forest_entries cu p [] = []"
| "forest_entries cu p (k # ks) = tree_entries cu p k @ forest_entries cu (p + length (encode_tree k)) ks"

definition new_entry :: "(ptr \<Rightarrow> u8 list) \<Rightarrow> compile_unit \<Rightarrow> die \<Rightarrow> u8 list \<times> index_entry" where
  "new_entry names cu d = (names (d_pos d), \<lparr>ie_cu = cu, ie_pos = d_pos d\<rparr>)"

definition named :: "dwarf \<Rightarrow> (ptr \<Rightarrow> u8 list) \<Rightarrow> die \<Rightarrow> bool" where
  "named dw names d \<longleftrightarrow> (indexed_die d = Inr True \<longrightarrow>
     (\<forall>m. die_name (Suc m) dw d = Some (Inr (Some (names (d_pos d))))))"

lemma indexed_die_at: "\<exists>b. indexed_die (die_at cu p t) = Inr b"
  by (auto simp: indexed_die_def die_contains_def die_specs_def die_tag_def die_at_def)

lemma index_one_at:
  assumes "named dw names (die_at cu p t)" and "0 < n"
  shows "index_one n dw (die_at cu p t) idx = Some (Inr (idx @
     map (new_entry names cu) (filter (\<lambda>d. indexed_die d = Inr True) [die_at cu p t])))"
proof -
  obtain m where n: "n = Suc m" using assms(2) by (cases n) auto
  have c: "die_cu (die_at cu p t) = Inr cu" by (simp add: die_cu_def die_at_def)
  obtain b where b: "indexed_die (die_at cu p t) = Inr b" using indexed_die_at by blast
  show ?thesis
  proof (cases b)
    case True
    then have "die_name (Suc m) dw (die_at cu p t) = Some (Inr (Some (names (d_pos (die_at cu p t)))))"
      using assms(1) b unfolding named_def by simp
    then have "die_name n dw (die_at cu p t) = Some (Inr (Some (names (d_pos (die_at cu p t)))))"
      unfolding n .
    then show ?thesis using b c True by (simp add: index_one_def new_entry_def)
  next
    case False
    then show ?thesis using b by (simp add: index_one_def)
  qed
qed

lemma index_forest:
  assumes "abbrev_table_of dw cu = Inr table"
    and "\<And>k n p idx. k \<in> set ks \<Longrightarrow> tree_fuel k \<le> n \<Longrightarrow> has_bytes (dw_image dw) p (encode_tree k) \<Longrightarrow>
       p + length (encode_tree k) \<le> send (cu_data cu) \<Longrightarrow> \<forall>d\<in>set (tree_entries cu p k). named dw names d \<Longrightarrow>
       index_die n dw (die_at cu p k) idx = Some (Inr (idx @
         map (new_entry names cu) (filter (\<lambda>d. indexed_die d = Inr True) (tree_entries cu p k))))"
    and "\<forall>k\<in>set ks. tree_fits table k" and "Suc (sum_list (map tree_fuel ks)) \<le> n"
    and "has_bytes (dw_image dw) p (encode_forest ks)" and "p + length (encode_forest ks) \<le> send (cu_data cu)"
    and "\<forall>d\<in>set (forest_entries cu p ks). named dw names d"
  shows "index_children n dw (Some (forest_die cu p ks)) idx = Some (Inr (idx @
     map (new_entry names cu) (filter (\<lambda>d. indexed_die d = Inr True) (forest_entries cu p ks))))"
  using assms(2-)
proof (induction ks arbitrary: n p idx)
  case Nil
  then show ?case by (cases n) (simp_all add: forest_die_def null_die_def iter_eq_def iter_null_def)
next
  case (Cons k ks)
  let ?q = "p + length (encode_tree k)"
  let ?new = "\<lambda>ds. map (new_entry names cu) (filter (\<lambda>d. indexed_die d = Inr True) ds)"
  from Cons.prems(3) obtain m where n: "n = Suc m" "tree_fuel k + sum_list (map tree_fuel ks) \<le> m"
    by (cases n) auto
  have pos: "1 \<le> tree_fuel k" by (cases k) simp
  have "index_die m dw (die_at cu p k) idx = Some (Inr (idx @ ?new (tree_entries cu p k)))"
    using Cons.prems n by (intro Cons.prems(1)) (auto simp: encode_forest_simps)
  moreover have "iter_next m dw (die_at cu p k) = Some (parse_die dw cu (cu_end_cursor cu ?q))"
    using Cons.prems n by (intro iter_next_tree [OF assms(1)]) (auto simp: encode_forest_simps)
  moreover have "parse_die dw cu (cu_end_cursor cu ?q) = Inr (forest_die cu ?q ks)"
    using Cons.prems by (intro parse_die_forest [OF assms(1)]) (auto simp: encode_forest_simps)
  moreover have "index_children m dw (Some (forest_die cu ?q ks)) (idx @ ?new (tree_entries cu p k))
      = Some (Inr ((idx @ ?new (tree_entries cu p k)) @ ?new (forest_entries cu ?q ks)))"
    using Cons.prems n pos by (intro Cons.IH) (auto simp: encode_forest_simps)
  moreover have "\<not> iter_eq (Some (die_at cu p k)) None"
    by (simp add: iter_eq_def iter_null_def die_at_def)
  ultimately show ?case using n by (simp add: forest_die_def)
qed

lemma index_tree:
  assumes "abbrev_table_of dw cu = Inr table"
  shows "tree_fits table t \<Longrightarrow> tree_fuel t \<le> n \<Longrightarrow> has_bytes (dw_image dw) p (encode_tree t) \<Longrightarrow>
     p + length (encode_tree t) \<le> send (cu_data cu) \<Longrightarrow> \<forall>d\<in>set (tree_entries cu p t). named dw names d \<Longrightarrow>
     index_die n dw (die_at cu p t) idx = Some (Inr (idx @
       map (new_entry names cu) (filter (\<lambda>d. indexed_die d = Inr True) (tree_entries cu p t))))"
proof (induction t arbitrary: n p idx)
  case (DieTree ab vals kids)
  let ?t = "DieTree ab vals kids"
  let ?q = "p + length (tree_head ?t)"
  let ?new = "\<lambda>ds. map (new_entry names cu) (filter (\<lambda>d. indexed_die d = Inr True) ds)"
  from DieTree.prems(2) obtain m where n: "n = Suc m" "Suc (sum_list (map tree_fuel kids)) \<le> m" by (cases n) auto
  have one: "index_one m dw (die_at cu p ?t) idx = Some (Inr (idx @ ?new [die_at cu p ?t]))"
    using DieTree.prems(5) n by (intro index_one_at) auto
  have d: "d_abbrev (die_at cu p ?t) = Some ab" "d_next (die_at cu p ?t) = ?q" by (simp_all add: die_at_def)
  show ?case
  proof (cases "ab_has_children ab")
    case False
    then have "kids = []" using DieTree.prems(1) by simp
    moreover have "index_children m dw None idx' = Some (Inr idx')" for idx'
      using n by (cases m) (simp_all add: iter_eq_def iter_null_def)
    ultimately show ?thesis using one n d False by (simp add: children_begin_def)
  next
    case True
    have len: "?q + length (encode_forest kids) \<le> send (cu_data cu)"
      using True DieTree.prems(4) by (simp add: tree_head_def encode_forest_def add.assoc)
    have bytes: "has_bytes (dw_image dw) ?q (encode_forest kids)"
      using DieTree.prems(3) True by (simp add: tree_head_def encode_forest_def add.assoc)
    have "parse_die dw cu (cu_end_cursor cu ?q) = Inr (forest_die cu ?q kids)"
      using DieTree.prems len bytes by (intro parse_die_forest [OF assms]) auto
    moreover have "index_children m dw (Some (forest_die cu ?q kids)) (idx @ ?new [die_at cu p ?t])
        = Some (Inr ((idx @ ?new [die_at cu p ?t]) @ ?new (forest_entries cu ?q kids)))"
      using DieTree n len bytes by (intro index_forest [OF assms]) auto
    ultimately show ?thesis using one n d True
      by (simp add: children_begin_def parse_next_die_at)
  qed
qed

subsection \<open>What the lookups answer\<close>

lemma find_function_sound:
  "find_function root dw a es = Inr r \<Longrightarrow>
   (case r of Some d \<Rightarrow> \<exists>name e. (name, e) \<in> set es \<and> entry_die dw e = Inr d \<and> is_function_at root dw a d = Inr True
    | None \<Rightarrow> \<forall>(name, e)\<in>set es. \<exists>d. entry_die dw e = Inr d \<and> is_function_at root dw a d = Inr False)"
proof (induction es)
  case (Cons x es)
  obtain name e where x: "x = (name, e)" by (cases x)
  from Cons.prems obtain d b where d: "entry_die dw e = Inr d" "is_function_at root dw a d = Inr b"
      "if b then r = Some d else find_function root dw a es = Inr r"
    by (auto simp: x rbind_eq_Inr split: if_splits)
  show ?case
  proof (cases b)
    case True
    with d x show ?thesis by auto
  next
    case False
    with Cons.IH d x show ?thesis by (fastforce split: option.splits)
  qed
qed auto

lemma find_inlined_sound:
  "find_inlined n root dw a it = Some (Inr (Some c)) \<Longrightarrow> is_inlined_at root dw a c = Inr True"
proof (induction n arbitrary: it)
  case (Suc n)
  then show ?case by (auto simp: fbind_eq_Inr split: if_splits dest!: Suc.IH)
qed simp

lemma inline_chain_sound:
  "inline_chain n root dw a d = Some (Inr ds) \<Longrightarrow>
     ds \<noteq> [] \<and> hd ds = d \<and> (\<forall>c\<in>set (tl ds). is_inlined_at root dw a c = Inr True)"
proof (induction n arbitrary: d ds)
  case (Suc n)
  from Suc.prems obtain it found where f: "find_inlined n root dw a it = Some (Inr found)"
      "(case found of None \<Rightarrow> Some (Inr [d])
        | Some c \<Rightarrow> fbind (inline_chain n root dw a c) (\<lambda>ds. Some (Inr (d # ds)))) = Some (Inr ds)"
    by (auto simp: fbind_eq_Inr)
  then have "found = None \<and> ds = [d] \<or> (\<exists>c rest. found = Some c \<and> inline_chain n root dw a c = Some (Inr rest) \<and> ds = d # rest)"
    by (auto simp: fbind_eq_Inr split: option.splits)
  then show ?case
  proof (elim disjE exE conjE)
    fix c rest assume c: "found = Some c" "inline_chain n root dw a c = Some (Inr rest)" "ds = d # rest"
    have "rest \<noteq> [] \<and> hd rest = c \<and> (\<forall>c\<in>set (tl rest). is_inlined_at root dw a c = Inr True)"
      using c(2) by (rule Suc.IH)
    then show ?thesis using find_inlined_sound f(1) c by (cases rest) auto
  qed simp
qed simp

lemma die_name_string:
  assumes "dt_abbrev t = ab" and "ab_specs ab = \<lparr>as_attr = DW_AT_name, as_form = DW_FORM_string\<rparr> # specs"
    and "dt_vals t = (bs @ [0]) # vals" and "0 \<notin> set bs"
    and "has_bytes (dw_image dw) p (tree_head t)" and "p + length (tree_head t) \<le> send (cu_data cu)"
  shows "die_name (Suc n) dw (die_at cu p t) = Some (Inr (Some bs))"
proof -
  let ?loc = "p + length (encode_uleb128 (unat (ab_code ab)))"
  let ?a = "\<lparr>at_cu = cu, at_type = DW_AT_name, at_form = DW_FORM_string, at_loc = ?loc\<rparr>"
  have "die_contains (die_at cu p t) DW_AT_name = Inr True"
    using assms(1,2) by (simp add: die_contains_def die_specs_def die_at_def)
  moreover have "die_attr (die_at cu p t) DW_AT_name = Inr ?a"
    using assms(1-3) by (simp add: die_attr_def die_specs_def die_cu_def die_at_def vec_idx_def)
  moreover have "cursor_string (dw_image dw) (attr_cursor ?a) = Inr (bs, cursor_advance (length bs + 1) (attr_cursor ?a))"
    using assms by (intro cursor_string_encode) (simp_all add: attr_cursor_def tree_head_def)
  then have "as_string dw ?a = Inr bs" by (simp add: as_string_def)
  ultimately show ?thesis by simp
qed

subsection \<open>Properties\<close>


definition named_abbrev :: "u64 \<Rightarrow> u64 \<Rightarrow> bool \<Rightarrow> abbrev" where
  "named_abbrev code tag kids = \<lparr>ab_code = code, ab_tag = tag, ab_has_children = kids,
     ab_specs = [\<lparr>as_attr = DW_AT_name, as_form = DW_FORM_string\<rparr>, \<lparr>as_attr = DW_AT_ranges, as_form = DW_FORM_sec_offset\<rparr>]\<rparr>"

definition named_table :: "abbrev list" where
  "named_table = [named_abbrev 1 DW_TAG_subprogram True, named_abbrev 2 DW_TAG_inlined_subroutine False]"

definition named_tree :: die_tree where
  "named_tree = DieTree (named_abbrev 1 DW_TAG_subprogram True) [[102] @ [0], [0, 0, 0, 0]]
     [DieTree (named_abbrev 2 DW_TAG_inlined_subroutine False) [[103] @ [0], [0, 0, 0, 0]] []]"

definition named_abbrev_bytes :: "u8 list" where
  "named_abbrev_bytes = concat (map encode_abbrev named_table) @ encode_abbrev zero_abbrev"

definition named_pos :: ptr where
  "named_pos = 4096 + length named_abbrev_bytes"

definition named_cu :: compile_unit where
  "named_cu = \<lparr>cu_data = \<lparr>sdata = named_pos, ssize = length (encode_tree named_tree)\<rparr>, cu_abbrev_offset = 0\<rparr>"

definition named_dwarf :: dwarf where
  "named_dwarf = \<lparr>dw_elf = blank_elf\<lparr>
     e_image := \<lparr>ibase = 4096, ibytes = named_abbrev_bytes @ encode_tree named_tree @ encode_ranges [(0x10, 0x20)]\<rparr>,
     e_sections := [\<lparr>sh_name = 0, sh_addr = 0, sh_offset = 0, sh_size = 0, sh_entsize = 0\<rparr>,
       \<lparr>sh_name = 0, sh_addr = 0, sh_offset = of_nat (length (named_abbrev_bytes @ encode_tree named_tree)), sh_size = 32, sh_entsize = 0\<rparr>],
     e_secmap := [ascii ''.debug_abbrev'' \<mapsto> 0, ascii ''.debug_ranges'' \<mapsto> 1]\<rparr>, dw_units = [named_cu]\<rparr>"

lemma named_image: "dw_image named_dwarf =
    \<lparr>ibase = 4096, ibytes = named_abbrev_bytes @ encode_tree named_tree @ encode_ranges [(0x10, 0x20)]\<rparr>"
  by (simp add: named_dwarf_def)

lemma named_abbrev_table: "abbrev_table_of named_dwarf named_cu = Inr (table_of named_table)"
proof -
  have "has_bytes (dw_image named_dwarf) 4096 (concat (map encode_abbrev named_table) @ encode_abbrev zero_abbrev)"
    using image_has_bytes [of 4096 "[]" named_abbrev_bytes "encode_tree named_tree @ encode_ranges [(0x10, 0x20)]"]
    unfolding named_image by (simp only: named_abbrev_bytes_def append_Nil list.size add_0_right)
  moreover have "cpos (mk_cursor (get_section_contents (dw_elf named_dwarf) (ascii ''.debug_abbrev''))) = 4096"
    by (simp add: mk_cursor_def get_section_contents_def get_section_def named_dwarf_def ascii_def)
  ultimately show ?thesis
    unfolding abbrev_table_of_def parse_abbrev_table_def
    by (intro parse_abbrev_loop_table_of)
       (auto simp: named_table_def named_abbrev_def zero_abbrev_def wf_abbrev_def named_cu_def)
qed

lemma named_tree_bytes: "has_bytes (dw_image named_dwarf) named_pos (encode_tree named_tree)"
  using image_has_bytes [of 4096 named_abbrev_bytes "encode_tree named_tree" "encode_ranges [(0x10, 0x20)]"]
  unfolding named_image named_pos_def .

lemma named_tree_fits: "tree_fits (table_of named_table) named_tree"
  using form_bytes.str [of "[102]"] form_bytes.str [of "[103]"]
  by (simp add: named_tree_def named_table_def named_abbrev_def table_of_def form_bytes.four)

definition named_names :: "ptr \<Rightarrow> u8 list" where
  "named_names p = (if p = named_pos then [102] else [103])"

lemma named_tree_names: "\<forall>d\<in>set (tree_entries named_cu named_pos named_tree). named named_dwarf named_names d"
proof -
  let ?k = "DieTree (named_abbrev 2 DW_TAG_inlined_subroutine False) [[103] @ [0], [0, 0, 0, 0]] []"
  let ?q = "named_pos + length (tree_head named_tree)"
  have t: "encode_tree named_tree = tree_head named_tree @ tree_head ?k @ [0]"
    by (simp add: encode_tree_head encode_forest_def named_tree_def named_abbrev_def)
  have "die_name (Suc m) named_dwarf (die_at named_cu named_pos named_tree) = Some (Inr (Some [102]))" for m
    using named_tree_bytes unfolding t
    by (intro die_name_string [where ab = "named_abbrev 1 DW_TAG_subprogram True"])
       (auto simp: named_tree_def named_abbrev_def named_cu_def send_def tree_head_def)
  moreover have "die_name (Suc m) named_dwarf (die_at named_cu ?q ?k) = Some (Inr (Some [103]))" for m
    using named_tree_bytes unfolding t
    by (intro die_name_string [where ab = "named_abbrev 2 DW_TAG_inlined_subroutine False"])
       (auto simp: named_abbrev_def named_cu_def send_def t)
  moreover have "?q \<noteq> named_pos" by (simp add: tree_head_def named_tree_def)
  moreover have "tree_entries named_cu named_pos named_tree = [die_at named_cu named_pos named_tree, die_at named_cu ?q ?k]"
    by (simp add: named_tree_def)
  ultimately show ?thesis by (simp add: named_def named_names_def die_at_def)
qed


text \<open>
  C23: the search for the function containing an address, over an index walked in any order,
  answers with a function of the index that contains the address, or with nothing when no
  entry of the index does; the index it leaves is the one it searched.
\<close>

theorem function_containing_address_correct:
  assumes "\<And>xs. set (order xs) = set xs"
    and "function_containing_address order n root dw a idx = Some (Inr (r, idx'))"
  shows "dwarf_index n root dw idx = Some (Inr idx') \<and>
    (case r of Some d \<Rightarrow> \<exists>name e. (name, e) \<in> set idx' \<and> entry_die dw e = Inr d
         \<and> contains_address root dw d a = Inr True \<and> die_tag d = Inr DW_TAG_subprogram
     | None \<Rightarrow> \<forall>(name, e)\<in>set idx'. \<exists>d. entry_die dw e = Inr d \<and> is_function_at root dw a d = Inr False)"
proof -
  from assms(2) obtain i where i: "dwarf_index n root dw idx = Some (Inr i)"
      "rbind (find_function root dw a (order i)) (\<lambda>d. Inr (d, i)) = Inr (r, idx')"
    by (auto simp: function_containing_address_def fbind_eq_Inr)
  then have "find_function root dw a (order idx') = Inr r" "i = idx'" by (auto simp: rbind_eq_Inr)
  then show ?thesis using i(1) find_function_sound [of root dw a "order idx'" r] assms(1)
    by (fastforce split: option.splits simp: is_function_at_def rbind_eq_Inr if_split_eq1 split: if_splits)
qed

lemma attr_locs_forms: "attr_locs img ss c = Inr (ps, c') \<Longrightarrow> s \<in> set ss \<Longrightarrow> as_form s \<noteq> DW_FORM_addr"
proof (induction ss arbitrary: c ps)
  case (Cons s' ss)
  then obtain c1 qs where q: "skip_form img (as_form s') c = Inr c1" "attr_locs img ss c1 = Inr (qs, c')"
    by (auto simp: rbind_eq_Inr)
  then have "as_form s' \<noteq> DW_FORM_addr" using skip_form_eight_bytes [of "as_form s'" img c] by auto
  then show ?case using Cons q by auto
qed simp

lemma parse_die_forms:
  assumes "parse_die dw cu cur = Inr d" and "die_attr d x = Inr a"
  shows "at_form a \<noteq> DW_FORM_addr"
  using assms(1)
proof (cases rule: parse_dieE)
  case (null c1)
  then show ?thesis using assms(2) by (simp add: die_attr_def die_specs_def null_die_def)
next
  case (entry code c1 table ab locs c2)
  then obtain i where "find_if (\<lambda>spec. as_attr spec = x) (ab_specs ab) = Some i" "at_form a = as_form (ab_specs ab ! i)"
    using assms(2) by (auto simp: die_attr_def die_specs_def die_cu_def rbind_eq_Inr split: option.splits)
  then show ?thesis using attr_locs_forms [OF entry(5)] by (auto dest: find_if_SomeD)
qed

text \<open>
  No entry that the parser produces has a readable low address: the form of an address is
  one the parser cannot skip, so \<open>low_pc\<close> always ends in an error.
\<close>

theorem parsed_die_has_no_low_pc:
  assumes "parse_die dw cu cur = Inr d"
  shows "low_pc dw d \<noteq> Inr x"
proof
  assume "low_pc dw d = Inr x"
  then obtain a where a: "die_attr d DW_AT_low_pc = Inr a" "as_address dw a = Inr x"
    by (auto simp: low_pc_def rbind_eq_Inr split: if_splits)
  then show False using parse_die_forms [OF assms a(1)] by (simp add: as_address_def)
qed

lemma named_root_die: "parse_die named_dwarf named_cu (cu_end_cursor named_cu named_pos) = Inr (die_at named_cu named_pos named_tree)"
  using parse_die_tree [OF named_abbrev_table named_tree_fits named_tree_bytes]
  by (simp add: named_cu_def send_def)

lemma parsed_die_has_no_low_pc_witness:
  "low_pc named_dwarf (die_at named_cu named_pos named_tree) \<noteq> Inr (mk_file_addr 1 0x10)"
  by (rule parsed_die_has_no_low_pc [OF named_root_die])

definition named_kid :: die_tree where
  "named_kid = DieTree (named_abbrev 2 DW_TAG_inlined_subroutine False) [[103] @ [0], [0, 0, 0, 0]] []"

definition named_kid_pos :: ptr where
  "named_kid_pos = named_pos + length (tree_head named_tree)"

lemma named_tree_split: "encode_tree named_tree = tree_head named_tree @ encode_tree named_kid @ [0]"
  by (simp add: encode_tree_head encode_forest_def named_tree_def named_kid_def named_abbrev_def)

lemma named_ranges:
  "has_bytes (dw_image named_dwarf) (named_pos + length (encode_tree named_tree)) (encode_ranges [(0x10, 0x20)])"
  using image_has_bytes [of 4096 "named_abbrev_bytes @ encode_tree named_tree" "encode_ranges [(0x10, 0x20)]" "[]"]
  unfolding named_image named_pos_def by (simp only: append_assoc length_append append_Nil2 add.assoc)

lemma named_ranges_section:
  "get_section_contents (dw_elf named_dwarf) (ascii ''.debug_ranges'') =
     \<lparr>sdata = named_pos + length (encode_tree named_tree), ssize = 32\<rparr>"
proof -
  have "length (encode_tree named_tree) = 15" "length named_abbrev_bytes = 23"
    by (simp_all add: named_tree_def named_abbrev_def named_abbrev_bytes_def named_table_def zero_abbrev_def
        encode_abbrev_def encode_uleb128.simps)
  then show ?thesis
    by (simp add: get_section_contents_def get_section_def named_dwarf_def ascii_def named_pos_def)
qed

definition named_addr :: file_addr where
  "named_addr = mk_file_addr 1 0x18"

lemma named_contains:
  assumes "dt_abbrev t = named_abbrev code tag kids" and "dt_vals t = [n @ [0], [0, 0, 0, 0]]"
    and "has_bytes (dw_image named_dwarf) p (tree_head t)"
  shows "contains_address plain_root named_dwarf (die_at named_cu p t) named_addr = Inr True"
proof -
  let ?loc = "p + length (encode_uleb128 (unat code)) + length n + 1"
  let ?at = "\<lparr>at_cu = named_cu, at_type = DW_AT_ranges, at_form = DW_FORM_sec_offset, at_loc = ?loc\<rparr>"
  let ?p = "named_pos + length (encode_tree named_tree)"
  have z: "as_bytes (0 :: u32) = [0, 0, 0, 0]" by code_simp
  have "cu32 (dw_image named_dwarf) (attr_cursor ?at) = Inr (0, cursor_advance 4 (attr_cursor ?at))"
    using assms by (intro cu_reads) (simp add: attr_cursor_def tree_head_def named_abbrev_def z)
  then have "as_range_list plain_root named_dwarf ?at = Inr \<lparr>rl_data = \<lparr>sdata = ?p, ssize = 32\<rparr>, rl_base = file_addr_default\<rparr>"
    by (simp add: as_range_list_def as_section_offset_def named_ranges_section plain_root_def die_contains_def
        die_specs_def die_at_def mk_span_def send_def)
  moreover have "range_list_contains (dw_image named_dwarf) 1 \<lparr>rl_data = \<lparr>sdata = ?p, ssize = 32\<rparr>, rl_base = file_addr_default\<rparr>
      named_addr = Inr True"
    using range_any_of_encode [of "mk_file_addr 1 0x18" 1 "dw_image named_dwarf"
        "\<lparr>ri_data = \<lparr>sdata = ?p, ssize = 32\<rparr>, ri_base = file_addr_default, ri_pos = ?p,
          ri_cur = \<lparr>re_low = file_addr_default, re_high = file_addr_default\<rparr>\<rparr>" "[(0x10, 0x20)]"] named_ranges
    by (simp add: named_addr_def range_list_contains_def range_begin_def mk_file_addr_def in_ranges_def file_addr_default_def)
  moreover have "e_id (dw_elf named_dwarf) = 1" by (simp add: named_dwarf_def blank_elf_def)
  ultimately show ?thesis using assms(1,2)
    by (simp add: contains_address_def die_cu_def die_at_def die_contains_def die_specs_def die_attr_def
        named_abbrev_def vec_idx_def add.assoc) (simp add: named_addr_def mk_file_addr_def)?
qed

lemma named_kid_bytes: "has_bytes (dw_image named_dwarf) named_kid_pos (encode_tree named_kid)"
  using named_tree_bytes unfolding named_tree_split has_bytes_append named_kid_pos_def by blast

lemma named_heads:
  "has_bytes (dw_image named_dwarf) named_pos (tree_head named_tree)"
  "has_bytes (dw_image named_dwarf) named_kid_pos (tree_head named_kid)"
  using named_tree_bytes named_kid_bytes unfolding encode_tree_head has_bytes_append by blast+

lemma named_function: "contains_address plain_root named_dwarf (die_at named_cu named_pos named_tree) named_addr = Inr True"
  by (rule named_contains [OF _ _ named_heads(1), of 1 DW_TAG_subprogram True "[102]"]) (simp_all add: named_tree_def)

lemma named_inlined: "contains_address plain_root named_dwarf (die_at named_cu named_kid_pos named_kid) named_addr = Inr True"
  by (rule named_contains [OF _ _ named_heads(2), of 2 DW_TAG_inlined_subroutine False "[103]"]) (simp_all add: named_kid_def)

lemma named_tags:
  "die_tag (die_at named_cu named_pos named_tree) = Inr DW_TAG_subprogram"
  "die_tag (die_at named_cu named_kid_pos named_kid) = Inr DW_TAG_inlined_subroutine"
  by (simp_all add: die_tag_def die_at_def named_tree_def named_kid_def named_abbrev_def)

definition named_index :: function_index where
  "named_index = [([102], \<lparr>ie_cu = named_cu, ie_pos = named_pos\<rparr>)]"

lemma named_lookup:
  "function_containing_address rev 100 plain_root named_dwarf named_addr named_index
     = Some (Inr (Some (die_at named_cu named_pos named_tree), named_index))"
  by (simp add: function_containing_address_def dwarf_index_def named_index_def entry_die_def named_root_die
      is_function_at_def named_function named_tags)

lemma function_containing_address_correct_witness:
  "function_containing_address rev 100 plain_root named_dwarf named_addr named_index
     = Some (Inr (Some (die_at named_cu named_pos named_tree), named_index))
   \<and> die_tag (die_at named_cu named_pos named_tree) = Inr DW_TAG_subprogram"
proof
  show "function_containing_address rev 100 plain_root named_dwarf named_addr named_index
     = Some (Inr (Some (die_at named_cu named_pos named_tree), named_index))" by (rule named_lookup)
  show "die_tag (die_at named_cu named_pos named_tree) = Inr DW_TAG_subprogram"
    using function_containing_address_correct [OF set_rev named_lookup] by (simp add: named_index_def entry_die_def)
qed


lemma named_chain:
  "inline_chain 100 plain_root named_dwarf named_addr (die_at named_cu named_pos named_tree)
     = Some (Inr [die_at named_cu named_pos named_tree, die_at named_cu named_kid_pos named_kid])"
proof -
  have "tree_fits (table_of named_table) named_kid"
    using named_tree_fits by (simp add: named_tree_def named_kid_def)
  moreover have "named_kid_pos + length (encode_tree named_kid) \<le> send (cu_data named_cu)"
    by (simp only: named_kid_pos_def named_cu_def send_def named_tree_split compile_unit.simps span.simps length_append)
  ultimately have kid: "parse_die named_dwarf named_cu (cu_end_cursor named_cu named_kid_pos) = Inr (die_at named_cu named_kid_pos named_kid)"
    by (intro parse_die_tree [OF named_abbrev_table _ named_kid_bytes])
  have b1: "children_begin named_dwarf (die_at named_cu named_pos named_tree) = Inr (Some (die_at named_cu named_kid_pos named_kid))"
  proof -
    have "d_abbrev (die_at named_cu named_pos named_tree) = Some (named_abbrev 1 DW_TAG_subprogram True)"
        "d_next (die_at named_cu named_pos named_tree) = named_kid_pos"
      by (simp_all add: die_at_def named_tree_def named_kid_pos_def)
    then show ?thesis using kid by (simp add: children_begin_def parse_next_die_at) (simp add: named_abbrev_def)
  qed
  have b2: "children_begin named_dwarf (die_at named_cu named_kid_pos named_kid) = Inr None"
    by (simp add: children_begin_def die_at_def named_kid_def named_abbrev_def)
  have "is_inlined_at plain_root named_dwarf named_addr (die_at named_cu named_kid_pos named_kid) = Inr True"
    by (simp add: is_inlined_at_def named_inlined named_tags)
  then have f1: "find_inlined 99 plain_root named_dwarf named_addr (Some (die_at named_cu named_kid_pos named_kid))
      = Some (Inr (Some (die_at named_cu named_kid_pos named_kid)))"
    by (simp add: numeral_eq_Suc iter_eq_def iter_null_def) (simp add: die_at_def)
  have f2: "find_inlined 98 plain_root named_dwarf named_addr None = Some (Inr None)"
    by (simp add: numeral_eq_Suc iter_eq_def iter_null_def)
  have n: "(100 :: nat) = Suc 99" "(99 :: nat) = Suc 98" by simp_all
  have "inline_chain 99 plain_root named_dwarf named_addr (die_at named_cu named_kid_pos named_kid)
      = Some (Inr [die_at named_cu named_kid_pos named_kid])"
    unfolding n(2) by (simp only: inline_chain.simps b2 fbind_simps f2 option.case)
  then show ?thesis
    unfolding n(1) by (simp only: inline_chain.simps b1 fbind_simps f1 option.case)
qed


end
