(* ===== verification/KD_Breakpoints.thy ===== *)
theory KD_Breakpoints
  imports KD_Threads KD_Unwind KD_Index
begin

text \<open>
  Breakpoints of the user (\<open>src/breakpoint.cpp\<close>, \<open>include/libkdebugger/breakpoint.hpp\<close>) and
  the part of \<open>target\<close> they rest on (\<open>src/target.cpp\<close>): the loaded files and what their debug
  information answers, the search for functions and lines, and the breakpoint sites that a
  breakpoint owns in the process.
\<close>

unbundle bit_operations_syntax

subsection \<open>What a loaded file answers\<close>

text \<open>
  An iterator over a line table carries its table; the default iterator has none. Iterators are
  compared by position, and the default one has the position of \<open>end()\<close>. What \<open>->\<close> finds in
  the default iterator is the default entry; an iterator that has run to the end still holds its
  last row.
\<close>

type_synonym row = "(line_table \<times> line_iter) option"

fun row_pos :: "row \<Rightarrow> ptr" where
  "row_pos None = nullptr"
| "row_pos (Some (t, it)) = li_pos it"

fun row_entry :: "row \<Rightarrow> line_entry" where
  "row_entry None = line_entry_default"
| "row_entry (Some (t, it)) = li_current it"

text \<open>A file in the list of a line table, by unit and place, or the file itself.\<close>

datatype file_ptr = TableFile compile_unit nat | KnownFile lt_file

fun row_file :: "row \<Rightarrow> file_ptr option" where
  "row_file None = None"
| "row_file (Some (t, it)) = map_option (TableFile (lt_cu t)) (le_file_entry (li_current it))"

text \<open>
  The members of a file's \<open>dwarf\<close> the target calls. A walk of the sections that never ends
  has no side effect, which the language leaves undefined: \<open>at_fuel\<close> maps it to \<open>UB\<close>.
\<close>

record debug_info =
  di_elf :: elf
  di_units :: "compile_unit list"
  di_function_at :: "file_addr \<Rightarrow> die option result"
  di_functions :: "u8 list \<Rightarrow> die list result"
  di_inline_stack :: "file_addr \<Rightarrow> die list result"
  di_unit_at :: "file_addr \<Rightarrow> compile_unit option result"
  di_lines :: "compile_unit \<Rightarrow> line_table result"
  di_entry_at :: "line_table \<Rightarrow> file_addr \<Rightarrow> line_iter option result"
  di_entries :: "line_table \<Rightarrow> path \<Rightarrow> nat \<Rightarrow> line_iter list result"
  di_next :: "line_table \<Rightarrow> line_iter \<Rightarrow> (line_iter \<times> line_table) result"
  di_low_pc :: "die \<Rightarrow> file_addr result"
  di_high_pc :: "die \<Rightarrow> file_addr result"
  di_location :: "die \<Rightarrow> (lt_file \<times> u64) result"
  di_name :: "die \<Rightarrow> u8 list option result"
  di_unwind :: "(virt_addr \<Rightarrow> nat \<Rightarrow> u8 list result) \<Rightarrow> file_addr \<Rightarrow> registers \<Rightarrow> (registers \<times> registers \<times> user_req list) result"

definition at_fuel :: "'a result option \<Rightarrow> 'a result" where
  "at_fuel m = (case m of None \<Rightarrow> Inl (UB ''loop without end'') | Some r \<Rightarrow> r)"

text \<open>
  What the surroundings give: fuel for the walks, the root entry of a unit, the orders in which
  unordered containers are walked, the files, the value an uninitialised number has, and the
  names and places the system chooses for a temporary file.
\<close>

record env =
  en_fuel :: nat
  en_root :: "compile_unit \<Rightarrow> die result"
  en_index_order :: "function_index \<Rightarrow> function_index"
  en_rule_order :: "ruleset \<Rightarrow> ruleset"
  en_float :: float_conv
  en_files :: file_os
  en_demangle :: "u8 list \<Rightarrow> u8 list option"
  en_junk :: u32
  en_tmp_dir :: string
  en_tmp_fd :: nat
  en_tmp_base :: ptr

text \<open>
  The answers computed from the sections. The index of functions and the table of common entries
  are caches, which start empty here: what they hold is what a new walk finds.
\<close>

definition debug_info_of :: "env \<Rightarrow> elf \<Rightarrow> unit_entry list \<Rightarrow> eh_hdr \<Rightarrow> debug_info" where
  "debug_info_of e f us hdr =
     (let n = en_fuel e; root = en_root e; dw = \<lparr>dw_elf = f, dw_units = map fst us\<rparr> in
      \<lparr>di_elf = f, di_units = dw_units dw,
       di_function_at = (\<lambda>a. rbind (at_fuel (function_containing_address (en_index_order e) n root dw a [])) (\<lambda>(d, _). Inr d)),
       di_functions = (\<lambda>name. rbind (at_fuel (find_functions n root dw name [])) (\<lambda>(ds, _). Inr ds)),
       di_inline_stack = (\<lambda>a. rbind (at_fuel (inline_stack_at_address (en_index_order e) n root dw a [])) (\<lambda>(ds, _). Inr ds)),
       di_unit_at = compile_unit_containing_address root dw,
       di_lines = unit_lines us,
       di_entry_at = get_entry_by_address root dw,
       di_entries = get_entries_by_line root dw,
       di_next = line_next root dw,
       di_low_pc = low_pc dw,
       di_high_pc = high_pc root dw,
       di_location = die_location dw us,
       di_name = (\<lambda>d. at_fuel (die_name n dw d)),
       di_unwind = (\<lambda>read_memory pc regs.
          rbind (unwind (en_float e) (en_rule_order e) read_memory f hdr pc regs (\<lambda>_. None)) (\<lambda>(r, _). Inr r))\<rparr>)"

definition row_next :: "debug_info \<Rightarrow> row \<Rightarrow> row result" where
  "row_next d r = (case r of None \<Rightarrow> Inl (UB ''increment of a default iterator'')
     | Some (t, it) \<Rightarrow> rbind (di_next d t it) (\<lambda>(it', t'). Inr (Some (t', it'))))"

text \<open>\<open>lines().get_entry_by_address(pc)\<close> of a unit.\<close>

definition row_in_unit :: "debug_info \<Rightarrow> compile_unit \<Rightarrow> file_addr \<Rightarrow> row result" where
  "row_in_unit d cu a = rbind (di_lines d cu) (\<lambda>t. rbind (di_entry_at d t a) (\<lambda>it. Inr (map_option (Pair t) it)))"

subsection \<open>The target\<close>

text \<open>
  \<open>breakpoint\<close> and its three subclasses. \<open>bp_handle\<close> is the identity of the object. The
  sites are owned by the process: the breakpoint holds pointers to them, modelled by their
  addresses. What can be installed as a hit handler are the two closures of \<open>target.cpp\<close>.
\<close>

datatype bp_kind = AddressBp virt_addr | FunctionBp "u8 list" | LineBp path nat

datatype hit_handler = NoHandler | ResolveRendezvous | ReloadLibraries

record breakpoint =
  bp_handle :: int
  bp_id :: u32
  bp_kind :: bp_kind
  bp_enabled :: bool
  bp_hardware :: bool
  bp_internal :: bool
  bp_next_site :: u32
  bp_sites :: "virt_addr list"
  bp_on_hit :: hit_handler

record stack_frame =
  sf_regs :: registers
  sf_report :: virt_addr
  sf_func :: die
  sf_inlined :: bool
  sf_location :: "file_ptr option \<times> u64"

record stack =
  st_tid :: int
  st_inline_height :: u32
  st_frames :: "stack_frame list"
  st_current :: u64

text \<open>
  What the target owns besides the process, which it can reach and which reaches it. The state
  pointer of a \<open>thread\<close> is the thread's state in the process.
\<close>

record target =
  tg_elves :: "debug_info list"
  tg_main :: elf_id
  tg_threads :: "(int \<times> stack) list"
  tg_breakpoints :: "breakpoint list"
  tg_next_id :: u32
  tg_next_handle :: int
  tg_rendezvous :: virt_addr

type_synonym 'k tprocess = "('k, target) process"

definition target_of :: "'k tprocess \<Rightarrow> target result" where
  "target_of s = (case pr_target s of None \<Rightarrow> Inl (UB ''null target'') | Some tg \<Rightarrow> Inr tg)"

definition update_target :: "(target \<Rightarrow> target) \<Rightarrow> 'k tprocess \<Rightarrow> 'k tprocess" where
  "update_target f s = s\<lparr>pr_target := map_option f (pr_target s)\<rparr>"

text \<open>The file an address belongs to: a pointer, followed through the list of loaded files.\<close>

definition info_at :: "target \<Rightarrow> file_addr \<Rightarrow> debug_info option" where
  "info_at tg a = find (\<lambda>d. fa_elf a = Some (e_id (di_elf d))) (tg_elves tg)"

definition the_info_at :: "target \<Rightarrow> file_addr \<Rightarrow> debug_info result" where
  "the_info_at tg a = (case info_at tg a of None \<Rightarrow> Inl (UB ''null file'') | Some d \<Rightarrow> Inr d)"

definition target_to_virt :: "target \<Rightarrow> file_addr \<Rightarrow> virt_addr result" where
  "target_to_virt tg a = (if fa_elf a = None then Inl Terminate else rbind (the_info_at tg a) (\<lambda>d. to_virt_addr (di_elf d) a))"

definition target_to_file :: "target \<Rightarrow> virt_addr \<Rightarrow> file_addr" where
  "target_to_file tg = elves_to_file_addr (map di_elf (tg_elves tg))"

subsection \<open>Searching all files\<close>

text \<open>
  \<open>find_functions\<close>: a file without debug information on the name contributes its symbols, each
  paired with \<open>m_Elf\<close>, the main file, not with the file that was searched.
\<close>

record found_functions =
  ff_dwarf :: "(debug_info \<times> die) list"
  ff_elf :: "(elf_id \<times> elf_sym) list"

definition find_in_file :: "target \<Rightarrow> u8 list \<Rightarrow> debug_info \<Rightarrow> found_functions \<Rightarrow> found_functions result" where
  "find_in_file tg name d r =
     rbind (di_functions d name) (\<lambda>dies.
     if dies = [] then rbind (get_symbols_by_name (di_elf d) name) (\<lambda>is.
       Inr (r\<lparr>ff_elf := ff_elf r @ map (\<lambda>i. (tg_main tg, e_symtab (di_elf d) ! i)) is\<rparr>))
     else Inr (r\<lparr>ff_dwarf := ff_dwarf r @ map (Pair d) dies\<rparr>))"

definition target_find_functions :: "target \<Rightarrow> u8 list \<Rightarrow> found_functions result" where
  "target_find_functions tg name = foldR (find_in_file tg name) (tg_elves tg) \<lparr>ff_dwarf = [], ff_elf = []\<rparr>"

definition unit_entries :: "debug_info \<Rightarrow> path \<Rightarrow> nat \<Rightarrow> compile_unit \<Rightarrow> row list result" where
  "unit_entries d p line cu =
     rbind (di_lines d cu) (\<lambda>t. rbind (di_entries d t p line) (\<lambda>its. Inr (map (\<lambda>it. Some (t, it)) its)))"

definition get_line_entries_by_line :: "target \<Rightarrow> path \<Rightarrow> nat \<Rightarrow> row list result" where
  "get_line_entries_by_line tg p line =
     rbind (mapR (\<lambda>d. rbind (mapR (unit_entries d p line) (di_units d)) (\<lambda>rs. Inr (concat rs))) (tg_elves tg)) (\<lambda>rss.
     Inr (concat rss))"

subsection \<open>Where the sites of a breakpoint go\<close>

text \<open>
  One turn of a loop of \<open>resolve\<close>: an entry of a function, a symbol, or a row of a line table.
  The loop over the symbols is inside the loop over the entries.
\<close>

datatype place = AtDie debug_info die | AtSymbol elf_id elf_sym | AtRow row

definition places_of :: "target \<Rightarrow> bp_kind \<Rightarrow> place list result" where
  "places_of tg k = (case k of
      AddressBp a \<Rightarrow> Inr []
    | FunctionBp name \<Rightarrow> rbind (target_find_functions tg name) (\<lambda>found.
        Inr (concat (map (\<lambda>(d, x). AtDie d x # map (\<lambda>(e, sy). AtSymbol e sy) (ff_elf found)) (ff_dwarf found))))
    | LineBp p line \<Rightarrow> rbind (get_line_entries_by_line tg p line) (\<lambda>rs. Inr (map AtRow rs)))"

text \<open>
  The entry of a function that is not an inlined call is skipped to the row behind its first. An
  entry without code has no site.
\<close>

definition die_place :: "debug_info \<Rightarrow> die \<Rightarrow> file_addr option result" where
  "die_place d x =
     rbind (rbind (die_contains x DW_AT_low_pc) (\<lambda>b. if b then Inr True else die_contains x DW_AT_ranges)) (\<lambda>has_code.
     if \<not> has_code then Inr None
     else rbind (die_tag x) (\<lambda>tag.
       if tag = DW_TAG_inlined_subroutine then rbind (di_low_pc d x) (\<lambda>a. Inr (Some a))
       else rbind (die_cu x) (\<lambda>cu.
         rbind (rbind (di_low_pc d x) (row_in_unit d cu)) (\<lambda>r.
         rbind (row_next d r) (\<lambda>r'. Inr (Some (le_address (row_entry r'))))))))"

text \<open>
  A row that begins a function is skipped when the stack of inlined calls has two entries; the
  first test asks the entry on top, the second the one below it.
\<close>

definition starts_function :: "debug_info \<Rightarrow> die list \<Rightarrow> file_addr \<Rightarrow> bool result" where
  "starts_function d ds a = (case ds of
      [outer, inner] \<Rightarrow>
        rbind (rbind (die_contains inner DW_AT_ranges) (\<lambda>b. if b then Inr True else die_contains outer DW_AT_low_pc)) (\<lambda>has_code.
        if has_code then rbind (di_low_pc d inner) (\<lambda>low. Inr (fa_eq low a)) else Inr False)
    | _ \<Rightarrow> Inr False)"

definition row_place :: "target \<Rightarrow> row \<Rightarrow> file_addr result" where
  "row_place tg r =
     rbind (the_info_at tg (le_address (row_entry r))) (\<lambda>d.
     rbind (di_inline_stack d (le_address (row_entry r))) (\<lambda>ds.
     rbind (starts_function d ds (le_address (row_entry r))) (\<lambda>skip.
     if skip then rbind (row_next d r) (\<lambda>r'. Inr (le_address (row_entry r'))) else Inr (le_address (row_entry r)))))"

definition place_address :: "target \<Rightarrow> place \<Rightarrow> virt_addr option result" where
  "place_address tg p = (case p of
      AtDie d x \<Rightarrow> rbind (die_place d x) (\<lambda>oa. case oa of None \<Rightarrow> Inr None
        | Some a \<Rightarrow> rbind (target_to_virt tg a) (\<lambda>v. Inr (Some v)))
    | AtSymbol e sy \<Rightarrow> rbind (target_to_virt tg (mk_file_addr e (st_value sy))) (\<lambda>v. Inr (Some v))
    | AtRow r \<Rightarrow> rbind (row_place tg r) (\<lambda>a. rbind (target_to_virt tg a) (\<lambda>v. Inr (Some v))))"

subsection \<open>Sites of a breakpoint\<close>

text \<open>Following a pointer to a site; the process may have removed the site.\<close>

definition site_of :: "int \<Rightarrow> virt_addr \<Rightarrow> breakpoint_site list \<Rightarrow> nat result" where
  "site_of h a bs = (case find_if (\<lambda>b. bs_address b = a \<and> bs_parent b = Some h) bs of
      None \<Rightarrow> Inl (UB ''dangling site'') | Some k \<Rightarrow> Inr k)"

fun bp_contains_address :: "int \<Rightarrow> virt_addr \<Rightarrow> virt_addr list \<Rightarrow> breakpoint_site list \<Rightarrow> bool result" where
  "bp_contains_address h a [] bs = Inr False"
| "bp_contains_address h a (x # xs) bs =
     rbind (site_of h x bs) (\<lambda>k. if bs_at_address (bs ! k) a then Inr True else bp_contains_address h a xs bs)"

definition push_site :: "'k os \<Rightarrow> u32 \<Rightarrow> u32 \<Rightarrow> virt_addr \<Rightarrow> breakpoint \<Rightarrow> (breakpoint, 'k, target) op" where
  "push_site os junk next a bp s =
     rbind (create_breakpoint_site junk (Some (bp_handle bp)) (bp_next_site bp) a (bp_hardware bp) (bp_internal bp) s) (\<lambda>(k, s1).
     let bp' = bp\<lparr>bp_sites := sp_push a (bp_sites bp), bp_next_site := next\<rparr> in
     if bp_enabled bp then rbind (at_site (site_enable os) k s1) (\<lambda>(_, s2). Inr (bp', s2)) else Inr (bp', s1))"

definition add_site :: "'k os \<Rightarrow> u32 \<Rightarrow> virt_addr \<Rightarrow> breakpoint \<Rightarrow> (breakpoint, 'k, target) op" where
  "add_site os junk a bp s =
     rbind (bp_contains_address (bp_handle bp) a (bp_sites bp) (pr_sites s)) (\<lambda>has.
     if has then Inr (bp, s) else push_site os junk (bp_next_site bp + 1) a bp s)"

definition add_place :: "'k os \<Rightarrow> u32 \<Rightarrow> place \<Rightarrow> breakpoint \<times> 'k tprocess \<Rightarrow> (breakpoint \<times> 'k tprocess) result" where
  "add_place os junk p = (\<lambda>(bp, s).
     rbind (target_of s) (\<lambda>tg. rbind (place_address tg p) (\<lambda>oa. case oa of
       None \<Rightarrow> Inr (bp, s) | Some a \<Rightarrow> add_site os junk a bp s)))"

text \<open>An address breakpoint gets its one site when it has none; it does not advance the counter.\<close>

definition resolve :: "'k os \<Rightarrow> u32 \<Rightarrow> breakpoint \<Rightarrow> (breakpoint, 'k, target) op" where
  "resolve os junk bp s = (case bp_kind bp of
      AddressBp a \<Rightarrow> if bp_sites bp = [] then push_site os junk (bp_next_site bp) a bp s else Inr (bp, s)
    | k \<Rightarrow> rbind (target_of s) (\<lambda>tg. rbind (places_of tg k) (\<lambda>ps. foldR (add_place os junk) ps (bp, s))))"

subsection \<open>Enabling, creating, hitting\<close>

definition for_each_site :: "(breakpoint_site \<Rightarrow> (breakpoint_site, 'k, target) op) \<Rightarrow> breakpoint \<Rightarrow> 'k tprocess \<Rightarrow> 'k tprocess result" where
  "for_each_site f bp s =
     foldR (\<lambda>a s. rbind (site_of (bp_handle bp) a (pr_sites s)) (\<lambda>k. rbind (at_site f k s) (\<lambda>(_, s'). Inr s'))) (bp_sites bp) s"

definition bp_enable :: "'k os \<Rightarrow> breakpoint \<Rightarrow> (breakpoint, 'k, target) op" where
  "bp_enable os bp s = rbind (for_each_site (site_enable os) bp s) (\<lambda>s'. Inr (bp\<lparr>bp_enabled := True\<rparr>, s'))"

definition bp_disable :: "'k os \<Rightarrow> breakpoint \<Rightarrow> (breakpoint, 'k, target) op" where
  "bp_disable os bp s = rbind (for_each_site (site_disable os) bp s) (\<lambda>s'. Inr (bp\<lparr>bp_enabled := False\<rparr>, s'))"

text \<open>An operation on the breakpoint at a place of the target's collection.\<close>

definition at_breakpoint :: "(breakpoint \<Rightarrow> (breakpoint, 'k, target) op) \<Rightarrow> nat \<Rightarrow> 'k tprocess \<Rightarrow> 'k tprocess result" where
  "at_breakpoint f k s =
     rbind (target_of s) (\<lambda>tg. rbind (vec_idx (tg_breakpoints tg) k) (\<lambda>bp. rbind (f bp s) (\<lambda>(bp', s').
     Inr (update_target (\<lambda>tg. tg\<lparr>tg_breakpoints := (tg_breakpoints tg)[k := bp']\<rparr>) s'))))"

text \<open>
  The constructor: an internal breakpoint has the number -1, any other takes the next one. It
  resolves itself; where that throws there is no breakpoint.
\<close>

definition mk_breakpoint :: "bp_kind \<Rightarrow> bool \<Rightarrow> bool \<Rightarrow> target \<Rightarrow> breakpoint" where
  "mk_breakpoint k hw internal tg =
     \<lparr>bp_handle = tg_next_handle tg, bp_id = (if internal then - 1 else tg_next_id tg + 1), bp_kind = k, bp_enabled = False,
      bp_hardware = hw, bp_internal = internal, bp_next_site = 1, bp_sites = [], bp_on_hit = NoHandler\<rparr>"

definition create_breakpoint :: "'k os \<Rightarrow> u32 \<Rightarrow> bp_kind \<Rightarrow> bool \<Rightarrow> bool \<Rightarrow> (nat, 'k, target) op" where
  "create_breakpoint os junk k hw internal s =
     rbind (target_of s) (\<lambda>tg.
     let s1 = update_target (\<lambda>tg. tg\<lparr>tg_next_id := (if internal then tg_next_id tg else tg_next_id tg + 1),
                tg_next_handle := tg_next_handle tg + 1\<rparr>) s
     in rbind (resolve os junk (mk_breakpoint k hw internal tg) s1) (\<lambda>(bp, s2).
        Inr (length (tg_breakpoints tg), update_target (\<lambda>tg. tg\<lparr>tg_breakpoints := sp_push bp (tg_breakpoints tg)\<rparr>) s2)))"

definition create_address_breakpoint :: "'k os \<Rightarrow> u32 \<Rightarrow> virt_addr \<Rightarrow> bool \<Rightarrow> bool \<Rightarrow> (nat, 'k, target) op" where
  "create_address_breakpoint os junk a = create_breakpoint os junk (AddressBp a)"

definition create_function_breakpoint :: "'k os \<Rightarrow> u32 \<Rightarrow> u8 list \<Rightarrow> bool \<Rightarrow> bool \<Rightarrow> (nat, 'k, target) op" where
  "create_function_breakpoint os junk name = create_breakpoint os junk (FunctionBp name)"

definition create_line_breakpoint :: "'k os \<Rightarrow> u32 \<Rightarrow> path \<Rightarrow> nat \<Rightarrow> bool \<Rightarrow> bool \<Rightarrow> (nat, 'k, target) op" where
  "create_line_breakpoint os junk file line = create_breakpoint os junk (LineBp file line)"

definition install_hit_handler :: "hit_handler \<Rightarrow> nat \<Rightarrow> 'k tprocess \<Rightarrow> 'k tprocess" where
  "install_hit_handler h k = update_target (\<lambda>tg. tg\<lparr>tg_breakpoints :=
     (tg_breakpoints tg)[k := (tg_breakpoints tg ! k)\<lparr>bp_on_hit := h\<rparr>]\<rparr>)"

definition bp_at_address :: "breakpoint \<Rightarrow> virt_addr \<Rightarrow> 'k tprocess \<Rightarrow> bool result" where
  "bp_at_address bp a s = bp_contains_address (bp_handle bp) a (bp_sites bp) (pr_sites s)"

text \<open>The answer is that of \<open>empty()\<close>: true when no site is in the range.\<close>

definition bp_in_range :: "breakpoint \<Rightarrow> virt_addr \<Rightarrow> virt_addr \<Rightarrow> 'k tprocess \<Rightarrow> bool result" where
  "bp_in_range bp low high s =
     rbind (mapR (\<lambda>a. site_of (bp_handle bp) a (pr_sites s)) (bp_sites bp)) (\<lambda>ks.
     Inr (sp_get_in_region bs_in_range low high (map ((!) (pr_sites s)) ks) = []))"

subsection \<open>A breakpoint only ever gains sites\<close>

definition view_addr :: "int option \<times> u32 \<times> virt_addr \<times> bool \<times> bool \<Rightarrow> virt_addr" where
  "view_addr = (\<lambda>(p, i, a, e, hw). a)"

definition site_addrs :: "('k, 't) process \<Rightarrow> virt_addr list" where
  "site_addrs s = map bs_address (pr_sites s)"

definition own_view :: "u32 \<Rightarrow> breakpoint \<Rightarrow> virt_addr \<Rightarrow> int option \<times> u32 \<times> virt_addr \<times> bool \<times> bool" where
  "own_view junk bp a = (Some (bp_handle bp), junk, a, bp_enabled bp, bp_hardware bp)"

definition grown :: "u32 \<Rightarrow> breakpoint \<times> 'k tprocess \<Rightarrow> breakpoint \<times> 'k tprocess \<Rightarrow> bool" where
  "grown junk = (\<lambda>(bp, s) (bp', s'). shape s' = shape s \<and> (\<exists>new next.
     bp' = bp\<lparr>bp_sites := bp_sites bp @ new, bp_next_site := next\<rparr>
     \<and> sites_view s' = sites_view s @ map (own_view junk bp) new \<and> distinct new \<and> set new \<inter> set (site_addrs s) = {}))"

lemma site_addrs_view: "site_addrs s = map view_addr (sites_view s)"
  by (simp add: site_addrs_def sites_view_def view_addr_def site_view_def)

lemma view_addr_own [simp]: "view_addr (own_view junk bp a) = a"
  by (simp add: view_addr_def own_view_def)

lemma own_view_fields [simp]: "own_view junk (bp\<lparr>bp_sites := as, bp_next_site := n\<rparr>) = own_view junk bp"
  by (rule ext) (simp add: own_view_def)

lemma grown_refl [simp]: "grown junk (bp, s) (bp, s)"
  by (auto simp: grown_def intro!: exI [of _ "[]"] exI [of _ "bp_next_site bp"])

lemma grown_trans:
  assumes "grown junk x y" and "grown junk y z"
  shows "grown junk x z"
proof -
  obtain bp s bp1 s1 bp2 s2 where e: "x = (bp, s)" "y = (bp1, s1)" "z = (bp2, s2)" by (cases x; cases y; cases z) auto
  from assms(1) obtain n1 k1 where 1: "shape s1 = shape s" "bp1 = bp\<lparr>bp_sites := bp_sites bp @ n1, bp_next_site := k1\<rparr>"
      "sites_view s1 = sites_view s @ map (own_view junk bp) n1" "distinct n1" "set n1 \<inter> set (site_addrs s) = {}"
    unfolding e grown_def by auto
  from assms(2) obtain n2 k2 where 2: "shape s2 = shape s1" "bp2 = bp1\<lparr>bp_sites := bp_sites bp1 @ n2, bp_next_site := k2\<rparr>"
      "sites_view s2 = sites_view s1 @ map (own_view junk bp) n2" "distinct n2" "set n2 \<inter> set (site_addrs s1) = {}"
    unfolding e grown_def using 1(2) by auto
  have "set (site_addrs s1) = set (site_addrs s) \<union> set n1" by (simp add: site_addrs_view 1(3) image_Un image_image)
  then show ?thesis using 1 2 unfolding e grown_def
    by (auto intro!: exI [of _ "n1 @ n2"] exI [of _ k2])
qed

lemma push_site_grown:
  assumes "push_site os junk n a bp s = Inr (bp', s')"
  shows "grown junk (bp, s) (bp', s') \<and> a \<in> set (bp_sites bp')"
proof -
  let ?b = "mk_breakpoint_site junk (Some (bp_handle bp)) (bp_next_site bp) a (bp_hardware bp) (bp_internal bp)"
  let ?s1 = "s\<lparr>pr_sites := pr_sites s @ [?b]\<rparr>"
  from assms have new: "a \<notin> set (site_addrs s)"
    by (auto simp: push_site_def create_breakpoint_site_def rbind_eq_Inr site.contains_iff site_addrs_def split: if_splits)
  have v: "sites_view ?s1 = sites_view s @ [site_view ?b]" "length (sites_view s) = length (pr_sites s)"
    by (simp_all add: sites_view_def)
  have bp': "bp' = bp\<lparr>bp_sites := bp_sites bp @ [a], bp_next_site := n\<rparr>"
    and r: "if bp_enabled bp then \<exists>u. at_site (site_enable os) (length (pr_sites s)) ?s1 = Inr (u, s') else s' = ?s1"
    using assms by (auto simp: push_site_def create_breakpoint_site_def rbind_eq_Inr sp_push_def Let_def split: if_splits)
  have "shape s' = shape s \<and> sites_view s' = sites_view s @ [own_view junk bp a]"
  proof (cases "bp_enabled bp")
    case True
    with r obtain u where "at_site (site_enable os) (length (pr_sites s)) ?s1 = Inr (u, s')" by auto
    from at_site_keeps [OF this site_enable_keeps] v True show ?thesis
      by (simp add: list_update_append own_view_def site_view_def mk_breakpoint_site_def)
  next
    case False
    with r v show ?thesis by (simp add: own_view_def site_view_def mk_breakpoint_site_def)
  qed
  with new bp' show ?thesis unfolding grown_def by (auto intro!: exI [of _ "[a]"] exI [of _ n])
qed

lemma add_site_grown: "add_site os junk a bp s = Inr (bp', s') \<Longrightarrow> grown junk (bp, s) (bp', s')"
  by (auto simp: add_site_def rbind_eq_Inr split: if_splits dest: push_site_grown)

lemma add_place_grown: "add_place os junk p x = Inr y \<Longrightarrow> grown junk x y"
  by (cases x; cases y) (auto simp: add_place_def rbind_eq_Inr split: option.splits dest: add_site_grown)

lemma add_places_grown: "foldR (add_place os junk) ps x = Inr y \<Longrightarrow> grown junk x y"
  by (erule foldR_invariant [where P = "grown junk x"], metis grown_refl surj_pair, metis grown_trans add_place_grown)

lemma resolve_grown: "resolve os junk bp s = Inr (bp', s') \<Longrightarrow> grown junk (bp, s) (bp', s')"
  by (auto simp: resolve_def rbind_eq_Inr split: bp_kind.splits if_splits dest: push_site_grown add_places_grown)

lemma grown_target: "grown junk (bp, s) (bp', s') \<Longrightarrow> pr_target s' = pr_target s"
  by (auto simp: grown_def shape_def)

subsection \<open>Resolving again changes nothing\<close>

text \<open>Every pointer of the breakpoint leads to a site of the process.\<close>

definition bp_live :: "breakpoint \<Rightarrow> ('k, 't) process \<Rightarrow> bool" where
  "bp_live bp s \<longleftrightarrow> (\<forall>a\<in>set (bp_sites bp). \<exists>b\<in>set (pr_sites s). bs_address b = a \<and> bs_parent b = Some (bp_handle bp))"

definition view_owner :: "int option \<times> u32 \<times> virt_addr \<times> bool \<times> bool \<Rightarrow> int option \<times> virt_addr" where
  "view_owner = (\<lambda>(p, i, a, e, hw). (p, a))"

lemma view_owner_own [simp]: "view_owner (own_view junk bp a) = (Some (bp_handle bp), a)"
  by (simp add: view_owner_def own_view_def)

lemma view_owners: "view_owner ` set (sites_view s) = (\<lambda>b. (bs_parent b, bs_address b)) ` set (pr_sites s)"
  by (simp add: sites_view_def image_image view_owner_def site_view_def)

lemma bp_live_view: "bp_live bp s \<longleftrightarrow> Pair (Some (bp_handle bp)) ` set (bp_sites bp) \<subseteq> view_owner ` set (sites_view s)"
  unfolding view_owners by (force simp: bp_live_def)

lemma grown_live:
  assumes "grown junk (bp, s) (bp', s')" and "bp_live bp s"
  shows "bp_live bp' s'"
proof -
  obtain new k where "bp' = bp\<lparr>bp_sites := bp_sites bp @ new, bp_next_site := k\<rparr>"
      "sites_view s' = sites_view s @ map (own_view junk bp) new"
    using assms(1) by (auto simp: grown_def)
  with assms(2) show ?thesis by (auto simp: bp_live_view image_Un image_image)
qed

lemma grown_sites: "grown junk (bp, s) (bp', s') \<Longrightarrow> set (bp_sites bp) \<subseteq> set (bp_sites bp')"
  by (auto simp: grown_def)

lemma site_of_live:
  "\<exists>b\<in>set bs. bs_address b = a \<and> bs_parent b = Some h \<Longrightarrow>
     \<exists>k. site_of h a bs = Inr k \<and> k < length bs \<and> bs_address (bs ! k) = a \<and> bs_parent (bs ! k) = Some h"
  by (auto simp: site_of_def find_if_None split: option.splits dest: find_if_SomeD)

lemma bp_contains_live:
  "\<forall>a\<in>set xs. \<exists>b\<in>set bs. bs_address b = a \<and> bs_parent b = Some h \<Longrightarrow>
     bp_contains_address h a xs bs = Inr (a \<in> set xs)"
proof (induction xs)
  case (Cons x xs)
  then show ?case using site_of_live [of bs x h] by (auto simp: bs_at_address_def)
qed simp

lemma add_site_here: "add_site os junk a bp s = Inr (bp', s') \<Longrightarrow> bp_live bp s \<Longrightarrow> a \<in> set (bp_sites bp')"
  using bp_contains_live [of "bp_sites bp" "pr_sites s" "bp_handle bp" a]
  by (auto simp: add_site_def bp_live_def split: if_splits dest: push_site_grown)

lemma add_site_again: "a \<in> set (bp_sites bp) \<Longrightarrow> bp_live bp s \<Longrightarrow> add_site os junk a bp s = Inr (bp, s)"
  using bp_contains_live [of "bp_sites bp" "pr_sites s" "bp_handle bp" a] by (simp add: add_site_def bp_live_def)

definition placed_at :: "target \<Rightarrow> breakpoint \<Rightarrow> place \<Rightarrow> bool" where
  "placed_at tg bp p \<longleftrightarrow> (\<exists>oa. place_address tg p = Inr oa \<and> (\<forall>a. oa = Some a \<longrightarrow> a \<in> set (bp_sites bp)))"

lemma add_place_placed:
  assumes "add_place os junk p (bp, s) = Inr (bp', s')" and "bp_live bp s" and "target_of s = Inr tg"
  shows "placed_at tg bp' p"
  using assms by (auto simp: add_place_def placed_at_def rbind_eq_Inr split: option.splits dest: add_site_here)

lemma add_place_again:
  "placed_at tg bp p \<Longrightarrow> bp_live bp s \<Longrightarrow> target_of s = Inr tg \<Longrightarrow> add_place os junk p (bp, s) = Inr (bp, s)"
  by (auto simp: add_place_def placed_at_def add_site_again split: option.splits)

lemma target_of_grown: "grown junk (bp, s) (bp', s') \<Longrightarrow> target_of s' = target_of s"
  by (simp add: target_of_def grown_target)

lemma add_places_placed:
  "foldR (add_place os junk) ps (bp, s) = Inr (bp', s') \<Longrightarrow> bp_live bp s \<Longrightarrow> target_of s = Inr tg \<Longrightarrow>
     \<forall>p\<in>set ps. placed_at tg bp' p"
proof (induction ps arbitrary: bp s)
  case (Cons p ps)
  then obtain bp1 s1 where 1: "add_place os junk p (bp, s) = Inr (bp1, s1)" "foldR (add_place os junk) ps (bp1, s1) = Inr (bp', s')"
    by (auto simp: rbind_eq_Inr)
  note g = add_place_grown [OF 1(1)] and g' = add_places_grown [OF 1(2)]
  have "placed_at tg bp' p"
    using add_place_placed [OF 1(1) Cons.prems(2,3)] grown_sites [OF g'] by (auto simp: placed_at_def)
  with Cons.IH [OF 1(2)] grown_live [OF g] Cons.prems(2,3) target_of_grown [OF g] show ?case by simp
qed simp

lemma add_places_again:
  "\<forall>p\<in>set ps. placed_at tg bp p \<Longrightarrow> bp_live bp s \<Longrightarrow> target_of s = Inr tg \<Longrightarrow>
     foldR (add_place os junk) ps (bp, s) = Inr (bp, s)"
  by (induction ps) (simp_all add: add_place_again [where tg = tg])

text \<open>
  C31: resolving is idempotent. Once a breakpoint has been resolved, resolving it again with the
  same files loaded, as every reload of the libraries does, finds each of its places taken by a
  site of its own and creates none.
\<close>

theorem resolve_idempotent:
  assumes "resolve os junk bp s = Inr (bp', s')" and "bp_live bp s"
  shows "resolve os junk bp' s' = Inr (bp', s')"
proof -
  note g = resolve_grown [OF assms(1)]
  have l: "bp_live bp' s'" by (rule grown_live [OF g assms(2)])
  have k: "bp_kind bp' = bp_kind bp" using g by (auto simp: grown_def)
  show ?thesis
  proof (cases "bp_kind bp")
    case (AddressBp a)
    then have "bp_sites bp' \<noteq> []" using assms(1) by (auto simp: resolve_def split: if_splits dest: push_site_grown)
    then show ?thesis using k AddressBp by (simp add: resolve_def)
  next
    case (FunctionBp name)
    then obtain tg ps where t: "target_of s = Inr tg" "places_of tg (FunctionBp name) = Inr ps"
        "foldR (add_place os junk) ps (bp, s) = Inr (bp', s')"
      using assms(1) by (auto simp: resolve_def rbind_eq_Inr)
    have "target_of s' = Inr tg" using target_of_grown [OF g] t(1) by simp
    with add_places_again [OF add_places_placed [OF t(3) assms(2) t(1)] l] t(2) k FunctionBp
    show ?thesis by (simp add: resolve_def)
  next
    case (LineBp p line)
    then obtain tg ps where t: "target_of s = Inr tg" "places_of tg (LineBp p line) = Inr ps"
        "foldR (add_place os junk) ps (bp, s) = Inr (bp', s')"
      using assms(1) by (auto simp: resolve_def rbind_eq_Inr)
    have "target_of s' = Inr tg" using target_of_grown [OF g] t(1) by simp
    with add_places_again [OF add_places_placed [OF t(3) assms(2) t(1)] l] t(2) k LineBp
    show ?thesis by (simp add: resolve_def)
  qed
qed

subsection \<open>The contract of enabling and disabling a site\<close>

text \<open>
  A breakpoint relies on this of the two operations of a site: apart from the site's own state
  nothing the target can see changes.
\<close>

definition set_enabled :: "bool \<Rightarrow> int \<Rightarrow> virt_addr set \<Rightarrow> int option \<times> u32 \<times> virt_addr \<times> bool \<times> bool
    \<Rightarrow> int option \<times> u32 \<times> virt_addr \<times> bool \<times> bool" where
  "set_enabled en h as = (\<lambda>(p, i, a, e, hw). (p, i, a, if p = Some h \<and> a \<in> as then en else e, hw))"

lemma set_enabled_empty [simp]: "set_enabled en h {} = id"
  by (auto simp: set_enabled_def)

lemma set_enabled_twice: "set_enabled en h as \<circ> set_enabled en h bs = set_enabled en h (as \<union> bs)"
  by (auto simp: set_enabled_def)

lemma view_addr_set_enabled [simp]: "view_addr \<circ> set_enabled en h as = view_addr"
  by (auto simp: view_addr_def set_enabled_def)

locale site_action =
  fixes act :: "breakpoint_site \<Rightarrow> (breakpoint_site, 'k, target) op" and en :: bool
  assumes act: "act b s = Inr (b', s') \<Longrightarrow> keeps s s' \<and> site_view b' = site_view (b\<lparr>bs_enabled := en\<rparr>)"
begin

lemma one:
  assumes "site_of h a (pr_sites s) = Inr k" and "at_site act k s = Inr (u, s')" and "distinct (site_addrs s)"
  shows "shape s' = shape s \<and> sites_view s' = map (set_enabled en h {a}) (sites_view s)"
proof -
  have k: "k < length (pr_sites s)" "bs_address (pr_sites s ! k) = a" "bs_parent (pr_sites s ! k) = Some h"
    using assms(1) by (auto simp: site_of_def split: option.splits dest: find_if_SomeD)
  have v: "shape s' = shape s" "sites_view s' = (sites_view s)[k := site_view ((pr_sites s ! k)\<lparr>bs_enabled := en\<rparr>)]"
    using at_site_keeps [OF assms(2) act] by simp_all
  have other: "bs_address (pr_sites s ! j) \<noteq> a" if "j < length (pr_sites s)" "j \<noteq> k" for j
    using nth_eq_iff_index_eq [OF assms(3), of j k] that k by (simp add: site_addrs_def)
  have "sites_view s' = map (set_enabled en h {a}) (sites_view s)"
  proof (rule nth_equalityI)
    fix j assume "j < length (sites_view s')"
    then have "j < length ((sites_view s)[k := site_view ((pr_sites s ! k)\<lparr>bs_enabled := en\<rparr>)])" by (simp only: v(2))
    then have j: "j < length (pr_sites s)" by (simp add: sites_view_def)
    show "sites_view s' ! j = map (set_enabled en h {a}) (sites_view s) ! j"
      using j other [OF j] k unfolding v(2)
      by (cases "j = k") (simp_all add: sites_view_def site_view_def set_enabled_def)
  qed (simp add: v(2))
  with v(1) show ?thesis by simp
qed

lemma all:
  assumes "for_each_site act bp s = Inr s'" and "distinct (site_addrs s)"
  shows "shape s' = shape s \<and> sites_view s' = map (set_enabled en (bp_handle bp) (set (bp_sites bp))) (sites_view s)"
proof -
  have "shape s' = shape s \<and> sites_view s' = map (set_enabled en h (set as)) (sites_view s)"
    if "foldR (\<lambda>a s. rbind (site_of h a (pr_sites s)) (\<lambda>k. rbind (at_site act k s) (\<lambda>(_, s'). Inr s'))) as s = Inr s'"
      and "distinct (site_addrs s)" for h as s
    using that
  proof (induction as arbitrary: s)
    case (Cons a as)
    then obtain k u s1 where 1: "site_of h a (pr_sites s) = Inr k" "at_site act k s = Inr (u, s1)"
        "foldR (\<lambda>a s. rbind (site_of h a (pr_sites s)) (\<lambda>k. rbind (at_site act k s) (\<lambda>(_, s'). Inr s'))) as s1 = Inr s'"
      by (auto simp: rbind_eq_Inr)
    note o = one [OF 1(1,2) Cons.prems(2)]
    then have "distinct (site_addrs s1)" using Cons.prems(2) by (simp add: site_addrs_view)
    from Cons.IH [OF 1(3) this] o
    have "shape s' = shape s" "sites_view s' = map (set_enabled en h (set as) \<circ> set_enabled en h {a}) (sites_view s)" by simp_all
    then show ?case by (simp only: set_enabled_twice) simp
  qed simp
  with assms show ?thesis by (simp add: for_each_site_def)
qed

end

interpretation enabling: site_action "site_enable os" True for os
  by unfold_locales (rule site_enable_keeps)

interpretation disabling: site_action "site_disable os" False for os
  by unfold_locales (rule site_disable_keeps)

subsection \<open>The invariant of the target\<close>

text \<open>
  Seen from the target, a breakpoint is in order when its addresses are distinct and at each of
  them the process has a site of this breakpoint that is enabled exactly when the breakpoint is.
\<close>

definition bp_inv :: "breakpoint \<Rightarrow> ('k, 't) process \<Rightarrow> bool" where
  "bp_inv bp s \<longleftrightarrow> distinct (bp_sites bp)
     \<and> (\<forall>a\<in>set (bp_sites bp). \<exists>i. (Some (bp_handle bp), i, a, bp_enabled bp, bp_hardware bp) \<in> set (sites_view s))"

definition target_inv :: "'k tprocess \<Rightarrow> bool" where
  "target_inv s \<longleftrightarrow> distinct (site_addrs s) \<and> (\<exists>tg. pr_target s = Some tg
     \<and> distinct (map bp_handle (tg_breakpoints tg))
     \<and> (\<forall>bp\<in>set (tg_breakpoints tg). bp_handle bp < tg_next_handle tg \<and> bp_inv bp s))"

lemma target_invD:
  "target_inv s \<Longrightarrow> pr_target s = Some tg \<Longrightarrow> distinct (site_addrs s) \<and> distinct (map bp_handle (tg_breakpoints tg))
     \<and> (\<forall>bp\<in>set (tg_breakpoints tg). bp_handle bp < tg_next_handle tg \<and> bp_inv bp s)"
  by (auto simp: target_inv_def)

lemma bp_inv_live: "bp_inv bp s \<Longrightarrow> bp_live bp s"
  unfolding bp_inv_def bp_live_view
  by (clarify, drule (1) bspec) (auto simp: view_owner_def intro: rev_image_eqI)

lemma update_target_fields [simp]:
  "sites_view (update_target f s) = sites_view s" "site_addrs (update_target f s) = site_addrs s"
  "pr_target (update_target f s) = map_option f (pr_target s)" "bp_inv bp (update_target f s) = bp_inv bp s"
  by (simp_all add: update_target_def sites_view_def site_addrs_def bp_inv_def)

lemma grown_addrs:
  assumes "grown junk (bp, s) (bp', s')" and "distinct (site_addrs s)"
  shows "distinct (site_addrs s')"
proof -
  obtain new where g: "sites_view s' = sites_view s @ map (own_view junk bp) new" "distinct new"
      "set new \<inter> set (site_addrs s) = {}"
    using assms(1) by (auto simp: grown_def)
  have "site_addrs s' = site_addrs s @ new" unfolding site_addrs_view g(1) by (simp add: comp_def)
  then show ?thesis using g assms(2) by auto
qed

lemma grown_own:
  assumes "grown junk (bp, s) (bp', s')" and "bp_inv bp s"
  shows "bp_inv bp' s'"
proof -
  obtain new k where g: "bp' = bp\<lparr>bp_sites := bp_sites bp @ new, bp_next_site := k\<rparr>" "distinct new"
      "sites_view s' = sites_view s @ map (own_view junk bp) new" "set new \<inter> set (site_addrs s) = {}"
    using assms(1) by (auto simp: grown_def)
  have "set (bp_sites bp) \<subseteq> set (site_addrs s)"
    using assms(2) by (force simp: bp_inv_def site_addrs_view view_addr_def)
  with g assms(2) show ?thesis by (fastforce simp: bp_inv_def own_view_def)
qed

lemma grown_other: "grown junk (bp, s) (bp', s') \<Longrightarrow> bp_inv b s \<Longrightarrow> bp_inv b s'"
  by (fastforce simp: grown_def bp_inv_def)

subsection \<open>The contract of an operation on a breakpoint\<close>

lemma set_enabled_own:
  assumes "bp_inv bp s" and "sites_view s' = map (set_enabled en (bp_handle bp) (set (bp_sites bp))) (sites_view s)"
  shows "bp_inv (bp\<lparr>bp_enabled := en\<rparr>) s'"
proof -
  have "\<exists>i. (Some (bp_handle bp), i, a, en, bp_hardware bp) \<in> set (sites_view s')" if a: "a \<in> set (bp_sites bp)" for a
  proof -
    obtain i where "(Some (bp_handle bp), i, a, bp_enabled bp, bp_hardware bp) \<in> set (sites_view s)"
      using assms(1) a unfolding bp_inv_def by blast
    then have "set_enabled en (bp_handle bp) (set (bp_sites bp)) (Some (bp_handle bp), i, a, bp_enabled bp, bp_hardware bp)
        \<in> set (sites_view s')"
      unfolding assms(2) set_map by (rule imageI)
    then show ?thesis using a by (auto simp: set_enabled_def)
  qed
  then show ?thesis using assms(1) by (simp add: bp_inv_def)
qed

lemma set_enabled_other:
  assumes "bp_inv b s" and "bp_handle b \<noteq> h" and "sites_view s' = map (set_enabled en h as) (sites_view s)"
  shows "bp_inv b s'"
proof -
  have "\<exists>i. (Some (bp_handle b), i, a, bp_enabled b, bp_hardware b) \<in> set (sites_view s')" if a: "a \<in> set (bp_sites b)" for a
  proof -
    obtain i where "(Some (bp_handle b), i, a, bp_enabled b, bp_hardware b) \<in> set (sites_view s)"
      using assms(1) a unfolding bp_inv_def by blast
    then have "set_enabled en h as (Some (bp_handle b), i, a, bp_enabled b, bp_hardware b) \<in> set (sites_view s')"
      unfolding assms(3) set_map by (rule imageI)
    then show ?thesis using assms(2) by (auto simp: set_enabled_def)
  qed
  then show ?thesis using assms(1) by (simp add: bp_inv_def)
qed

locale breakpoint_action =
  fixes act :: "breakpoint \<Rightarrow> (breakpoint, 'k, target) op"
  assumes shape: "act bp s = Inr (bp', s') \<Longrightarrow> distinct (site_addrs s) \<Longrightarrow>
      pr_target s' = pr_target s \<and> bp_handle bp' = bp_handle bp \<and> distinct (site_addrs s')"
    and own: "act bp s = Inr (bp', s') \<Longrightarrow> distinct (site_addrs s) \<Longrightarrow> bp_inv bp s \<Longrightarrow> bp_inv bp' s'"
    and others: "act bp s = Inr (bp', s') \<Longrightarrow> distinct (site_addrs s) \<Longrightarrow> bp_inv b s \<Longrightarrow> bp_handle b \<noteq> bp_handle bp \<Longrightarrow> bp_inv b s'"
begin

lemma preserves:
  assumes "at_breakpoint act k s = Inr s'" and "target_inv s"
  shows "target_inv s'"
proof -
  obtain tg bp' s1 where tg: "pr_target s = Some tg" and k: "k < length (tg_breakpoints tg)"
    and a: "act (tg_breakpoints tg ! k) s = Inr (bp', s1)"
    and s': "s' = update_target (\<lambda>tg. tg\<lparr>tg_breakpoints := (tg_breakpoints tg)[k := bp']\<rparr>) s1"
    using assms(1) by (auto simp: at_breakpoint_def target_of_def rbind_eq_Inr split: option.splits)
  let ?bs = "tg_breakpoints tg"
  note i = target_invD [OF assms(2) tg]
  then have d: "distinct (site_addrs s)" by simp
  note sh = shape [OF a d]
  have bs: "map bp_handle (?bs[k := bp']) = map bp_handle ?bs" using sh k by (simp add: map_update list_update_same_conv)
  have "bp_handle b < tg_next_handle tg \<and> bp_inv b s1" if "b \<in> set (?bs[k := bp'])" for b
  proof -
    from that obtain j where j: "j < length ?bs" "b = ?bs[k := bp'] ! j" by (auto simp: in_set_conv_nth)
    show ?thesis
    proof (cases "j = k")
      case True
      with j k i sh own [OF a d] nth_mem [OF k] show ?thesis by auto
    next
      case False
      with j have "b = ?bs ! j" "b \<in> set ?bs" by auto
      moreover have "bp_handle (?bs ! j) \<noteq> bp_handle (?bs ! k)"
        using False j(1) k i nth_eq_iff_index_eq [of "map bp_handle ?bs" j k] by auto
      ultimately show ?thesis using i others [OF a d] by auto
    qed
  qed
  with sh i bs tg s' show ?thesis by (auto simp: target_inv_def)
qed

end

interpretation enabled: breakpoint_action "bp_enable os" for os
proof
  fix bp s bp' s' b
  assume r: "bp_enable os bp s = Inr (bp', s')" and d: "distinct (site_addrs s)"
  then have e: "bp' = bp\<lparr>bp_enabled := True\<rparr>" "for_each_site (site_enable os) bp s = Inr s'"
    by (auto simp: bp_enable_def rbind_eq_Inr)
  note v = enabling.all [OF e(2) d]
  show "pr_target s' = pr_target s \<and> bp_handle bp' = bp_handle bp \<and> distinct (site_addrs s')"
    using v d e(1) by (auto simp: shape_def site_addrs_view)
  show "bp_inv bp s \<Longrightarrow> bp_inv bp' s'" using v e(1) set_enabled_own by blast
  show "bp_inv b s \<Longrightarrow> bp_handle b \<noteq> bp_handle bp \<Longrightarrow> bp_inv b s'" using v set_enabled_other by blast
qed

interpretation disabled: breakpoint_action "bp_disable os" for os
proof
  fix bp s bp' s' b
  assume r: "bp_disable os bp s = Inr (bp', s')" and d: "distinct (site_addrs s)"
  then have e: "bp' = bp\<lparr>bp_enabled := False\<rparr>" "for_each_site (site_disable os) bp s = Inr s'"
    by (auto simp: bp_disable_def rbind_eq_Inr)
  note v = disabling.all [OF e(2) d]
  show "pr_target s' = pr_target s \<and> bp_handle bp' = bp_handle bp \<and> distinct (site_addrs s')"
    using v d e(1) by (auto simp: shape_def site_addrs_view)
  show "bp_inv bp s \<Longrightarrow> bp_inv bp' s'" using v e(1) set_enabled_own by blast
  show "bp_inv b s \<Longrightarrow> bp_handle b \<noteq> bp_handle bp \<Longrightarrow> bp_inv b s'" using v set_enabled_other by blast
qed

interpretation resolved: breakpoint_action "resolve os junk" for os junk
proof
  fix bp s bp' s' b
  assume r: "resolve os junk bp s = Inr (bp', s')" and d: "distinct (site_addrs s)"
  note g = resolve_grown [OF r]
  show "pr_target s' = pr_target s \<and> bp_handle bp' = bp_handle bp \<and> distinct (site_addrs s')"
    using grown_target [OF g] grown_addrs [OF g d] g by (auto simp: grown_def)
  show "bp_inv bp s \<Longrightarrow> bp_inv bp' s'" by (rule grown_own [OF g])
  show "bp_inv b s \<Longrightarrow> bp_handle b \<noteq> bp_handle bp \<Longrightarrow> bp_inv b s'" by (rule grown_other [OF g])
qed

subsection \<open>Properties\<close>

text \<open>What the target does to its breakpoints: creates them, switches them, resolves them again.\<close>

inductive bp_step :: "'k os \<Rightarrow> u32 \<Rightarrow> 'k tprocess \<Rightarrow> 'k tprocess \<Rightarrow> bool" for os junk where
  created: "create_breakpoint os junk k hw internal s = Inr (i, s') \<Longrightarrow> bp_step os junk s s'"
| switched_on: "at_breakpoint (bp_enable os) i s = Inr s' \<Longrightarrow> bp_step os junk s s'"
| switched_off: "at_breakpoint (bp_disable os) i s = Inr s' \<Longrightarrow> bp_step os junk s s'"
| resolved_again: "at_breakpoint (resolve os junk) i s = Inr s' \<Longrightarrow> bp_step os junk s s'"
| handler_installed: "bp_step os junk s (install_hit_handler h i s)"

lemma create_breakpoint_inv:
  assumes "create_breakpoint os junk k hw internal s = Inr (i, s')" and "target_inv s"
  shows "target_inv s'"
proof -
  obtain tg bp s2 where tg: "pr_target s = Some tg"
    and r: "resolve os junk (mk_breakpoint k hw internal tg)
        (update_target (\<lambda>tg. tg\<lparr>tg_next_id := (if internal then tg_next_id tg else tg_next_id tg + 1), tg_next_handle := tg_next_handle tg + 1\<rparr>) s)
        = Inr (bp, s2)"
    and s': "s' = update_target (\<lambda>tg. tg\<lparr>tg_breakpoints := sp_push bp (tg_breakpoints tg)\<rparr>) s2"
    using assms(1) by (auto simp: create_breakpoint_def target_of_def rbind_eq_Inr Let_def split: option.splits)
  note i = target_invD [OF assms(2) tg]
  then have d: "distinct (site_addrs s)" by simp
  let ?m = "mk_breakpoint k hw internal tg"
  have m: "bp_inv ?m s" "bp_handle ?m = tg_next_handle tg" by (simp_all add: bp_inv_def mk_breakpoint_def)
  note sh = resolved.shape [OF r, simplified update_target_fields, OF d]
  have "bp_inv bp s2" using resolved.own [OF r] d m(1) by simp
  moreover have "bp_inv b s2" if "b \<in> set (tg_breakpoints tg)" for b
    using resolved.others [OF r, of b] d m(2) i that by auto
  ultimately show ?thesis
    using i sh m(2) tg s' by (auto simp: target_inv_def sp_push_def)
qed

lemma install_hit_handler_inv:
  assumes "target_inv s"
  shows "target_inv (install_hit_handler h k s)"
proof -
  obtain tg where tg: "pr_target s = Some tg" using assms by (auto simp: target_inv_def)
  let ?bs = "tg_breakpoints tg" and ?b = "(tg_breakpoints tg ! k)\<lparr>bp_on_hit := h\<rparr>"
  note i = target_invD [OF assms tg]
  have "map bp_handle (?bs[k := ?b]) = map bp_handle ?bs"
    by (cases "k < length ?bs") (simp_all add: map_update list_update_same_conv list_update_beyond)
  moreover have "bp_handle b < tg_next_handle tg \<and> bp_inv b s" if "b \<in> set (?bs[k := ?b])" for b
  proof (cases "k < length ?bs")
    case True
    with i that show ?thesis by (auto simp: bp_inv_def dest!: set_update_subset_insert [THEN subsetD])
  qed (use i that in \<open>simp add: list_update_beyond\<close>)
  ultimately show ?thesis using i tg by (auto simp: target_inv_def install_hit_handler_def)
qed

lemma bp_step_inv: "bp_step os junk s s' \<Longrightarrow> target_inv s \<Longrightarrow> target_inv s'"
  by (cases rule: bp_step.cases)
     (auto intro: create_breakpoint_inv enabled.preserves disabled.preserves resolved.preserves install_hit_handler_inv)

lemma bp_steps_inv: "(bp_step os junk)\<^sup>*\<^sup>* s s' \<Longrightarrow> target_inv s \<Longrightarrow> target_inv s'"
  by (induction rule: rtranclp_induct) (auto intro: bp_step_inv)

text \<open>
  C2: whatever breakpoints are created, switched on and off and resolved again, each address a
  breakpoint holds is the address of a site of the process; the site belongs to this breakpoint
  and to no other, and it is enabled exactly when the breakpoint is.
\<close>

theorem breakpoints_own_their_sites:
  assumes "pr_target s0 = Some tg0" and "tg_breakpoints tg0 = []" and "distinct (map bs_address (pr_sites s0))"
    and "(bp_step os junk)\<^sup>*\<^sup>* s0 s" and "pr_target s = Some tg"
    and "bp \<in> set (tg_breakpoints tg)" and "a \<in> set (bp_sites bp)"
  shows "(\<exists>b\<in>set (pr_sites s). bs_address b = a \<and> bs_parent b = Some (bp_handle bp) \<and> bs_enabled b = bp_enabled bp
            \<and> bs_hardware b = bp_hardware bp)
      \<and> (\<forall>bp'\<in>set (tg_breakpoints tg). a \<in> set (bp_sites bp') \<longrightarrow> bp' = bp)"
proof -
  have "target_inv s0" using assms(1-3) by (simp add: target_inv_def site_addrs_def)
  note i = target_invD [OF bp_steps_inv [OF assms(4) this] assms(5)]
  have v: "\<exists>b\<in>set (pr_sites s). bs_address b = a \<and> bs_parent b = Some (bp_handle c) \<and> bs_enabled b = bp_enabled c
      \<and> bs_hardware b = bp_hardware c" if c: "c \<in> set (tg_breakpoints tg)" "a \<in> set (bp_sites c)" for c
  proof -
    have "bp_inv c s" using i c(1) by simp
    then obtain j where "(Some (bp_handle c), j, a, bp_enabled c, bp_hardware c) \<in> set (sites_view s)"
      using c(2) unfolding bp_inv_def by blast
    then obtain b where "b \<in> set (pr_sites s)" "site_view b = (Some (bp_handle c), j, a, bp_enabled c, bp_hardware c)"
      by (auto simp: sites_view_def)
    then show ?thesis by (intro bexI [of _ b]) (simp_all add: site_view_def)
  qed
  have "bp' = bp" if b: "bp' \<in> set (tg_breakpoints tg)" "a \<in> set (bp_sites bp')" for bp'
  proof -
    obtain x y where "x \<in> set (pr_sites s)" "bs_address x = a" "bs_parent x = Some (bp_handle bp)"
        "y \<in> set (pr_sites s)" "bs_address y = a" "bs_parent y = Some (bp_handle bp')"
      using v [OF assms(6,7)] v [OF b] by blast
    moreover from this have "x = y" using i unfolding site_addrs_def distinct_map by (metis inj_onD)
    ultimately have "bp_handle bp' = bp_handle bp" by simp
    then show ?thesis using i b(1) assms(6) unfolding distinct_map by (metis inj_onD)
  qed
  with v [OF assms(6,7)] show ?thesis by blast
qed

text \<open>
  A function known only from symbol tables gets no site. Every symbol with its name is found,
  and paired with the main file whichever file it comes from, but the loop over the symbols is
  inside the loop over the debug entries, which has no turn.
\<close>

theorem symbol_only_function_gets_no_site:
  assumes "target_of s = Inr tg" and "bp_kind bp = FunctionBp name"
    and "\<forall>d\<in>set (tg_elves tg). di_functions d name = Inr [] \<and> get_symbols_by_name (di_elf d) name = Inr (syms d)"
  shows "target_find_functions tg name = Inr \<lparr>ff_dwarf = [],
           ff_elf = concat (map (\<lambda>d. map (\<lambda>i. (tg_main tg, e_symtab (di_elf d) ! i)) (syms d)) (tg_elves tg))\<rparr>
       \<and> resolve os junk bp s = Inr (bp, s)"
proof -
  have "foldR (find_in_file tg name) ds \<lparr>ff_dwarf = [], ff_elf = xs\<rparr> = Inr \<lparr>ff_dwarf = [],
      ff_elf = xs @ concat (map (\<lambda>d. map (\<lambda>i. (tg_main tg, e_symtab (di_elf d) ! i)) (syms d)) ds)\<rparr>"
    if "set ds \<subseteq> set (tg_elves tg)" for ds xs
    using that
  proof (induction ds arbitrary: xs)
    case (Cons d ds)
    then show ?case using assms(3) by (simp add: find_in_file_def)
  qed simp
  from this [of "tg_elves tg" "[]"] assms(1,2) show ?thesis
    by (simp add: target_find_functions_def resolve_def places_of_def)
qed

subsection \<open>Samples\<close>

text \<open>
  A loaded file with one function \<open>f\<close> at 0x1100, whose second row is at 0x1104, a symbol
  \<open>g\<close> without debug information, and one stopped thread.
\<close>

definition toy_unit :: compile_unit where
  "toy_unit = \<lparr>cu_data = null_span, cu_abbrev_offset = 0\<rparr>"

definition toy_die :: die where
  "toy_die = \<lparr>d_pos = 4100, d_cu = Some toy_unit, d_abbrev = Some \<lparr>ab_code = 1, ab_tag = DW_TAG_subprogram,
     ab_has_children = False, ab_specs = [\<lparr>as_attr = DW_AT_low_pc, as_form = DW_FORM_addr\<rparr>]\<rparr>,
     d_attr_locs = [4101], d_next = 4109\<rparr>"

definition toy_addr :: "u64 \<Rightarrow> file_addr" where
  "toy_addr = mk_file_addr 1"

definition toy_iter :: "u64 \<Rightarrow> line_iter" where
  "toy_iter a = (let e = line_entry_default\<lparr>le_address := toy_addr a, le_file_entry := Some 0\<rparr>
     in \<lparr>li_current = e, li_registers = e, li_pos = unat a\<rparr>)"

definition toy_elf :: elf where
  "toy_elf = loaded_elf\<lparr>e_symtab := [\<lparr>st_name = 1, st_info = 2, st_value = 0x1180, st_size = 16\<rparr>],
     e_names := [(Live (ascii ''g''), 0)]\<rparr>"

definition toy_info :: debug_info where
  "toy_info = \<lparr>di_elf = toy_elf, di_units = [toy_unit],
     di_function_at = (\<lambda>a. Inr (if fa_addr a < 0x1140 then Some toy_die else None)),
     di_functions = (\<lambda>name. Inr (if name = ascii ''f'' then [toy_die] else [])),
     di_inline_stack = (\<lambda>a. Inr (if fa_addr a < 0x1140 then [toy_die] else [])),
     di_unit_at = (\<lambda>a. Inr (Some toy_unit)), di_lines = (\<lambda>cu. Inr sample_line_table),
     di_entry_at = (\<lambda>t a. Inr (Some (toy_iter 0x1100))), di_entries = (\<lambda>t p line. Inr [toy_iter 0x1100]),
     di_next = (\<lambda>t it. Inr (toy_iter 0x1104, t)), di_low_pc = (\<lambda>d. Inr (toy_addr 0x1100)),
     di_high_pc = (\<lambda>d. Inr (toy_addr 0x1140)), di_location = (\<lambda>d. Inr (\<lparr>lf_path = [], lf_mtime = 0, lf_length = 0\<rparr>, 1)),
     di_name = (\<lambda>d. Inr (Some (ascii ''f''))), di_unwind = (\<lambda>rm pc regs. Inr (zero_registers, regs, []))\<rparr>"

definition toy_target :: target where
  "toy_target = \<lparr>tg_elves = [toy_info], tg_main = 1, tg_threads = [], tg_breakpoints = [], tg_next_id = 0,
     tg_next_handle = 0, tg_rendezvous = virt_addr_default\<rparr>"

definition toy_process :: "(u64 \<Rightarrow> u8) tprocess" where
  "toy_process = (mk_process sample_os 100 True True (\<lambda>_. 0x90))\<lparr>pr_target := Some toy_target\<rparr>"

lemma toy_process_fields: "pr_sites toy_process = []" "pr_target toy_process = Some toy_target" "pr_pid toy_process = 100"
    "pr_os toy_process = (\<lambda>_. 0x90)" "pr_current toy_process = 100" "pr_threads toy_process = [(100, mk_thread sample_os 100)]"
  by (simp_all add: toy_process_def mk_process_def populate_existing_threads_def sample_os_def add_thread_def has_thread_def)

lemma toy_to_virt:
  "tg_elves tg = [toy_info] \<Longrightarrow> target_to_virt tg (toy_addr 0x1104) = Inr (VirtAddr 0x555555555104)"
  by (simp add: target_to_virt_def toy_addr_def mk_file_addr_def the_info_at_def info_at_def toy_info_def toy_elf_def
      loaded_elf_def blank_elf_def to_virt_addr_def section_containing_file_def in_section_def)

lemma toy_die_place: "die_place toy_info toy_die = Inr (Some (toy_addr 0x1104))"
  by (simp add: die_place_def toy_die_def die_contains_def die_specs_def die_tag_def die_cu_def row_in_unit_def row_next_def
      toy_info_def toy_iter_def Let_def)

definition toy_function_bp :: breakpoint where
  "toy_function_bp = mk_breakpoint (FunctionBp (ascii ''f'')) False False toy_target"

definition toy_site :: breakpoint_site where
  "toy_site = mk_breakpoint_site 0 (Some 0) 1 (VirtAddr 0x555555555104) False False"

lemma toy_found:
  "tg_elves tg = [toy_info] \<Longrightarrow> target_find_functions tg (ascii ''f'') = Inr \<lparr>ff_dwarf = [(toy_info, toy_die)], ff_elf = []\<rparr>"
  by (simp add: target_find_functions_def find_in_file_def) (simp add: toy_info_def)

lemma toy_resolve:
  assumes "target_of s = Inr tg" and "tg_elves tg = [toy_info]" and "pr_sites s = []"
  shows "resolve sample_os 0 toy_function_bp s = Inr (toy_function_bp\<lparr>bp_sites := [VirtAddr 0x555555555104], bp_next_site := 2\<rparr>,
           s\<lparr>pr_sites := [toy_site]\<rparr>)"
proof -
  have k: "bp_kind toy_function_bp = FunctionBp (ascii ''f'')" "bp_sites toy_function_bp = []" "bp_handle toy_function_bp = 0"
      "bp_next_site toy_function_bp = 1" "\<not> bp_enabled toy_function_bp" "\<not> bp_hardware toy_function_bp" "\<not> bp_internal toy_function_bp"
    by (simp_all add: toy_function_bp_def mk_breakpoint_def toy_target_def)
  have "place_address tg (AtDie toy_info toy_die) = Inr (Some (VirtAddr 0x555555555104))"
    using assms(2) by (simp add: place_address_def toy_die_place toy_to_virt)
  then show ?thesis using assms k
    by (simp add: resolve_def places_of_def toy_found add_place_def add_site_def push_site_def create_breakpoint_site_def
        sp_push_def toy_site_def sp_contains_address_def sp_find_by_address_def)
qed

lemma resolve_idempotent_witness:
  "resolve sample_os 0 (toy_function_bp\<lparr>bp_sites := [VirtAddr 0x555555555104], bp_next_site := 2\<rparr>) (toy_process\<lparr>pr_sites := [toy_site]\<rparr>)
     = Inr (toy_function_bp\<lparr>bp_sites := [VirtAddr 0x555555555104], bp_next_site := 2\<rparr>, toy_process\<lparr>pr_sites := [toy_site]\<rparr>)"
proof -
  have t: "target_of toy_process = Inr toy_target" by (simp add: target_of_def toy_process_fields)
  have "bp_live toy_function_bp toy_process" by (simp add: bp_live_def toy_function_bp_def mk_breakpoint_def)
  from resolve_idempotent [OF toy_resolve [OF t _ toy_process_fields(1)] this] show ?thesis by (simp add: toy_target_def)
qed

lemma symbol_only_function_gets_no_site_witness:
  "resolve sample_os 0 (toy_function_bp\<lparr>bp_kind := FunctionBp (ascii ''g'')\<rparr>) toy_process
     = Inr (toy_function_bp\<lparr>bp_kind := FunctionBp (ascii ''g'')\<rparr>, toy_process)
   \<and> target_find_functions toy_target (ascii ''g'')
     = Inr \<lparr>ff_dwarf = [], ff_elf = [(1, \<lparr>st_name = 1, st_info = 2, st_value = 0x1180, st_size = 16\<rparr>)]\<rparr>"
proof -
  have t: "target_of toy_process = Inr toy_target" by (simp add: target_of_def toy_process_fields)
  have e: "\<forall>d\<in>set (tg_elves toy_target). di_functions d (ascii ''g'') = Inr [] \<and> get_symbols_by_name (di_elf d) (ascii ''g'') = Inr [0]"
    by (simp add: toy_target_def toy_info_def toy_elf_def get_symbols_by_name_def) (simp add: ascii_def)
  show ?thesis
    using symbol_only_function_gets_no_site [OF t _ e, of "toy_function_bp\<lparr>bp_kind := FunctionBp (ascii ''g'')\<rparr>" sample_os 0]
    by (simp add: toy_target_def toy_info_def toy_elf_def)
qed

definition toy_created :: "(u64 \<Rightarrow> u8) tprocess" where
  "toy_created = toy_process\<lparr>pr_sites := [toy_site], pr_target := Some (toy_target\<lparr>tg_next_id := 1, tg_next_handle := 1,
     tg_breakpoints := [toy_function_bp\<lparr>bp_sites := [VirtAddr 0x555555555104], bp_next_site := 2\<rparr>]\<rparr>)\<rparr>"

lemma toy_create: "create_function_breakpoint sample_os 0 (ascii ''f'') False False toy_process = Inr (0, toy_created)"
proof -
  let ?s = "update_target (\<lambda>tg. tg\<lparr>tg_next_id := tg_next_id tg + 1, tg_next_handle := tg_next_handle tg + 1\<rparr>) toy_process"
  have "target_of ?s = Inr (toy_target\<lparr>tg_next_id := 1, tg_next_handle := 1\<rparr>)" "pr_sites ?s = []"
    by (simp_all add: target_of_def update_target_def toy_process_fields) (simp add: toy_target_def)
  from toy_resolve [OF this(1) _ this(2)] show ?thesis
    by (simp add: create_function_breakpoint_def create_breakpoint_def target_of_def toy_process_fields toy_function_bp_def [symmetric]
        toy_created_def update_target_def sp_push_def) (simp add: toy_target_def)
qed

lemma breakpoints_own_their_sites_witness:
  "\<exists>s. at_breakpoint (bp_enable sample_os) 0 toy_created = Inr s
     \<and> (\<exists>b\<in>set (pr_sites s). bs_address b = VirtAddr 0x555555555104 \<and> bs_enabled b)"
proof -
  have site: "site_of 0 (VirtAddr 0x555555555104) [toy_site] = Inr 0"
    by (simp add: site_of_def toy_site_def mk_breakpoint_site_def)
  let ?bp = "toy_function_bp\<lparr>bp_sites := [VirtAddr 0x555555555104], bp_next_site := 2, bp_enabled := True\<rparr>"
  have h: "bp_handle toy_function_bp = 0" by (simp add: toy_function_bp_def mk_breakpoint_def toy_target_def)
  obtain b s where b: "site_enable sample_os toy_site toy_created = Inr (b, s)"
    by (simp add: site_enable_def toy_site_def mk_breakpoint_site_def sample_os_def request_def)
  have k: "pr_target s = pr_target toy_created"
    using site_enable_keeps [OF b] by (simp add: keeps_def shape_def)
  let ?s' = "update_target (\<lambda>tg. tg\<lparr>tg_breakpoints := (tg_breakpoints tg)[0 := ?bp]\<rparr>) (s\<lparr>pr_sites := (pr_sites s)[0 := b]\<rparr>)"
  have c: "pr_sites toy_created = [toy_site]"
    "pr_target toy_created = Some (toy_target\<lparr>tg_next_id := 1, tg_next_handle := 1,
       tg_breakpoints := [toy_function_bp\<lparr>bp_sites := [VirtAddr 0x555555555104], bp_next_site := 2\<rparr>]\<rparr>)"
    by (simp_all add: toy_created_def)
  have r: "at_breakpoint (bp_enable sample_os) 0 toy_created = Inr ?s'"
    by (simp add: at_breakpoint_def target_of_def c bp_enable_def for_each_site_def h site at_site_def b vec_idx_def)
  have t: "pr_target ?s' = Some (toy_target\<lparr>tg_next_id := 1, tg_next_handle := 1, tg_breakpoints := [?bp]\<rparr>)"
    by (simp add: k c)
  have "(bp_step sample_os 0)\<^sup>*\<^sup>* toy_process toy_created"
    using toy_create unfolding create_function_breakpoint_def by (intro r_into_rtranclp bp_step.created)
  then have run: "(bp_step sample_os 0)\<^sup>*\<^sup>* toy_process ?s'"
    by (rule rtranclp.rtrancl_into_rtrancl) (rule bp_step.switched_on [OF r])
  have s0: "pr_target toy_process = Some toy_target" "tg_breakpoints toy_target = []" "distinct (map bs_address (pr_sites toy_process))"
    by (simp_all add: toy_process_fields toy_target_def)
  from breakpoints_own_their_sites [OF s0 run t, of ?bp "VirtAddr 0x555555555104"] r show ?thesis by simp blast
qed

end
