(* ===== verification/KD_Stack.thy ===== *)
theory KD_Stack
  imports KD_Breakpoints
begin

text \<open>
  The stack of a thread (\<open>src/stack.cpp\<close>, \<open>include/libkdebugger/stack.hpp\<close>): unwinding it
  frame by frame, with one frame for every inlined call, and hiding the frames of the inlined
  calls the thread has stopped in front of.
\<close>

unbundle bit_operations_syntax

subsection \<open>The program counter in a file\<close>

definition get_pc_file_address :: "int option \<Rightarrow> 'k tprocess \<Rightarrow> file_addr result" where
  "get_pc_file_address otid s =
     rbind (target_of s) (\<lambda>tg. rbind (get_pc otid s) (\<lambda>pc. Inr (target_to_file tg pc)))"

definition inline_stack_at_pc :: "int \<Rightarrow> 'k tprocess \<Rightarrow> die list result" where
  "inline_stack_at_pc tid s =
     rbind (target_of s) (\<lambda>tg. rbind (get_pc_file_address (Some tid) s) (\<lambda>a. case info_at tg a of
       None \<Rightarrow> Inr [] | Some d \<Rightarrow> di_inline_stack d a))"

text \<open>The row of an address: \<open>dwarf::line_entry_at_address\<close>, also written out in \<open>target::line_entry_at_pc\<close>.\<close>

definition row_at :: "debug_info \<Rightarrow> file_addr \<Rightarrow> row result" where
  "row_at d a = rbind (di_unit_at d a) (\<lambda>cu. case cu of None \<Rightarrow> Inr None | Some cu \<Rightarrow> row_in_unit d cu a)"

definition line_entry_at_pc :: "int option \<Rightarrow> 'k tprocess \<Rightarrow> row result" where
  "line_entry_at_pc otid s =
     rbind (target_of s) (\<lambda>tg. rbind (get_pc_file_address otid s) (\<lambda>a. case info_at tg a of
       None \<Rightarrow> Inr None | Some d \<Rightarrow> row_at d a))"

subsection \<open>Stacks\<close>

definition mk_stack :: "int \<Rightarrow> stack" where
  "mk_stack tid = \<lparr>st_tid = tid, st_inline_height = 0, st_frames = [], st_current = 0\<rparr>"

definition get_stack :: "int option \<Rightarrow> 'k tprocess \<Rightarrow> stack result" where
  "get_stack otid s = rbind (target_of s) (\<lambda>tg. map_at (map_of (tg_threads tg)) (tid_of otid s))"

definition update_stack :: "int \<Rightarrow> (stack \<Rightarrow> stack) \<Rightarrow> 'k tprocess \<Rightarrow> 'k tprocess" where
  "update_stack tid f = update_target (\<lambda>tg. tg\<lparr>tg_threads := map (\<lambda>(t, st). (t, if t = tid then f st else st)) (tg_threads tg)\<rparr>)"

text \<open>\<open>frames()\<close> skips the frames below the inline height; a height beyond the frames gives a wild span.\<close>

definition stack_frames :: "stack \<Rightarrow> stack_frame list result" where
  "stack_frames st = (if unat (st_inline_height st) \<le> length (st_frames st)
     then Inr (drop (unat (st_inline_height st)) (st_frames st)) else Inl (UB ''span beyond the vector''))"

definition has_frames :: "stack \<Rightarrow> bool" where
  "has_frames st \<longleftrightarrow> st_frames st \<noteq> []"

definition current_frame :: "stack \<Rightarrow> stack_frame result" where
  "current_frame st = vec_idx (st_frames st) (unat (st_current st))"

definition current_frame_index :: "stack \<Rightarrow> u64" where
  "current_frame_index st = st_current st - ucast (st_inline_height st)"

definition stack_regs :: "stack \<Rightarrow> registers result" where
  "stack_regs st = rbind (current_frame st) (\<lambda>f. Inr (sf_regs f))"

definition stack_get_pc :: "stack \<Rightarrow> virt_addr result" where
  "stack_get_pc st = rbind (stack_regs st) (\<lambda>regs. rbind (read_by_id_as_u64 rid_rip regs) (\<lambda>v. Inr (VirtAddr v)))"

definition simulate_inlined_step_in :: "stack \<Rightarrow> stack" where
  "simulate_inlined_step_in st = (let h = st_inline_height st - 1 in st\<lparr>st_inline_height := h, st_current := ucast h\<rparr>)"

definition stack_up :: "stack \<Rightarrow> stack" where
  "stack_up st = st\<lparr>st_current := st_current st + 1\<rparr>"

definition stack_down :: "stack \<Rightarrow> stack" where
  "stack_down st = st\<lparr>st_current := st_current st - 1\<rparr>"

subsection \<open>The inline height\<close>

text \<open>
  How many of the innermost calls begin at \<open>pc\<close>: the thread has not entered those yet. The
  stack is that of the thread, but the program counter compared is that of the current thread.
\<close>

fun count_starting :: "debug_info \<Rightarrow> file_addr \<Rightarrow> die list \<Rightarrow> nat result" where
  "count_starting d pc [] = Inr 0"
| "count_starting d pc (x # xs) =
     rbind (di_low_pc d x) (\<lambda>low. if fa_eq low pc then rbind (count_starting d pc xs) (\<lambda>n. Inr (Suc n)) else Inr 0)"

definition inline_height_at :: "int \<Rightarrow> 'k tprocess \<Rightarrow> nat result" where
  "inline_height_at tid s =
     rbind (target_of s) (\<lambda>tg.
     rbind (inline_stack_at_pc tid s) (\<lambda>ds.
     rbind (get_pc_file_address None s) (\<lambda>pc.
     rbind (get_pc_file_address (Some tid) s) (\<lambda>a. case info_at tg a of
       None \<Rightarrow> Inr 0 | Some d \<Rightarrow> count_starting d pc (rev ds)))))"

definition reset_inline_height :: "'k tprocess \<Rightarrow> stack \<Rightarrow> stack result" where
  "reset_inline_height s st = rbind (inline_height_at (st_tid st) s) (\<lambda>n. Inr (st\<lparr>st_inline_height := of_nat n\<rparr>))"

subsection \<open>Frames\<close>

definition row_report :: "target \<Rightarrow> file_addr \<Rightarrow> row \<Rightarrow> virt_addr result" where
  "row_report tg pc r =
     rbind (target_to_virt tg pc) (\<lambda>v. if row_pos r \<noteq> row_pos None then target_to_virt tg (le_address (row_entry r)) else Inr v)"

definition create_base_frame :: "target \<Rightarrow> debug_info \<Rightarrow> registers \<Rightarrow> die list \<Rightarrow> file_addr \<Rightarrow> bool \<Rightarrow> stack_frame result" where
  "create_base_frame tg d regs ds pc inlined =
     rbind (row_at d pc) (\<lambda>r.
     rbind (row_report tg pc r) (\<lambda>report.
     Inr \<lparr>sf_regs = regs, sf_report = report, sf_func = last ds, sf_inlined = inlined,
          sf_location = (row_file r, le_line (row_entry r))\<rparr>))"

text \<open>The calls around the innermost one, from the inside out: each is reported where the one inside it begins.\<close>

fun create_inline_stack_frames :: "target \<Rightarrow> debug_info \<Rightarrow> registers \<Rightarrow> die list \<Rightarrow> stack_frame list result" where
  "create_inline_stack_frames tg d regs (inner # outer # ds) =
     rbind (rbind (di_low_pc d inner) (target_to_virt tg)) (\<lambda>report.
     rbind (di_location d inner) (\<lambda>(file, line).
     rbind (create_inline_stack_frames tg d regs (outer # ds)) (\<lambda>fs.
     Inr (\<lparr>sf_regs = regs, sf_report = report, sf_func = outer, sf_inlined = (ds \<noteq> []),
           sf_location = (Some (KnownFile file), line)\<rparr> # fs))))"
| "create_inline_stack_frames tg d regs ds = Inr []"

definition create_frames :: "target \<Rightarrow> debug_info \<Rightarrow> registers \<Rightarrow> die list \<Rightarrow> file_addr \<Rightarrow> stack_frame list result" where
  "create_frames tg d regs ds pc =
     (if length ds > 1 then
        rbind (create_base_frame tg d regs ds pc True) (\<lambda>f.
        rbind (create_inline_stack_frames tg d regs (rev ds)) (\<lambda>fs. Inr (f # fs)))
      else rbind (create_base_frame tg d regs ds pc False) (\<lambda>f. Inr [f]))"

text \<open>
  The loop of \<open>unwind\<close>. The registers are those of the frame above; unwinding notes the frame's
  own address in the frame it starts from and sends what it writes to the process. A walk that
  never leaves the program has no fuel that is enough.
\<close>

fun unwind_frames :: "'k os \<Rightarrow> nat \<Rightarrow> registers \<Rightarrow> virt_addr \<Rightarrow> file_addr \<Rightarrow> stack_frame list \<Rightarrow> 'k tprocess
    \<Rightarrow> (stack_frame list \<times> 'k tprocess) result" where
  "unwind_frames os 0 regs virt_pc file_pc frames s = Inl (UB ''loop without end'')"
| "unwind_frames os (Suc n) regs virt_pc file_pc frames s =
     rbind (target_of s) (\<lambda>tg.
     if addr virt_pc = 0 \<or> fa_elf file_pc \<noteq> Some (tg_main tg) then Inr (frames, s)
     else rbind (the_info_at tg file_pc) (\<lambda>d.
       rbind (di_inline_stack d file_pc) (\<lambda>ds.
       if ds = [] then Inr (frames, s)
       else rbind (create_frames tg d regs ds file_pc) (\<lambda>fs.
         rbind (di_unwind d (\<lambda>a k. read_memory os a k s) file_pc (sf_regs (last fs))) (\<lambda>(regs', old, reqs).
         rbind (foldR (send_user_req os) reqs s) (\<lambda>s'.
         rbind (read_by_id_as_u64 rid_rip regs') (\<lambda>rip.
         let virt_pc' = VirtAddr (rip - 1) in
         unwind_frames os n regs' virt_pc' (target_to_file tg virt_pc')
           (frames @ butlast fs @ [(last fs)\<lparr>sf_regs := old\<rparr>]) s')))))))"

definition stack_unwind :: "'k os \<Rightarrow> nat \<Rightarrow> stack \<Rightarrow> (stack, 'k, target) op" where
  "stack_unwind os n st s =
     rbind (reset_inline_height s st) (\<lambda>st1.
     rbind (get_pc (Some (st_tid st)) s) (\<lambda>virt_pc.
     rbind (get_pc_file_address (Some (st_tid st)) s) (\<lambda>file_pc.
     rbind (get_registers (Some (st_tid st)) s) (\<lambda>regs.
     let st2 = st1\<lparr>st_current := ucast (st_inline_height st1), st_frames := []\<rparr> in
     if fa_elf file_pc = None then Inr (st2, s)
     else rbind (unwind_frames os n regs virt_pc file_pc [] s) (\<lambda>(frames, s'). Inr (st2\<lparr>st_frames := frames\<rparr>, s'))))))"

text \<open>\<open>target::notify_stop\<close>, of the two definitions the one in \<open>src/target.cpp\<close>.\<close>

definition notify_stop :: "'k os \<Rightarrow> nat \<Rightarrow> stop_reason \<Rightarrow> 'k tprocess \<Rightarrow> 'k tprocess result" where
  "notify_stop os n r s =
     rbind (get_stack (Some (sr_tid r)) s) (\<lambda>st. rbind (stack_unwind os n st s) (\<lambda>(st', s').
     Inr (update_stack (sr_tid r) (\<lambda>_. st') s')))"

subsection \<open>What unwinding yields\<close>

lemma inline_frames_shape:
  "create_inline_stack_frames tg d regs ds = Inr fs \<Longrightarrow> map sf_func fs = tl ds
     \<and> map sf_inlined fs = (if length ds \<le> 1 then [] else replicate (length ds - 2) True @ [False])"
proof (induction tg d regs ds arbitrary: fs rule: create_inline_stack_frames.induct)
  case (1 tg d regs inner outer ds)
  then obtain report src line fs' where r: "rbind (di_low_pc d inner) (target_to_virt tg) = Inr report"
      "di_location d inner = Inr (src, line)" "create_inline_stack_frames tg d regs (outer # ds) = Inr fs'"
      "fs = \<lparr>sf_regs = regs, sf_report = report, sf_func = outer, sf_inlined = (ds \<noteq> []), sf_location = (Some (KnownFile src), line)\<rparr> # fs'"
    by (auto simp: rbind_eq_Inr)
  from "1.IH" [OF r(1) r(2) refl r(3)] r(4) show ?case by (cases ds) simp_all
qed simp_all

lemma create_frames_shape:
  assumes "create_frames tg d regs ds pc = Inr fs" and "ds \<noteq> []"
  shows "map sf_func fs = rev ds \<and> map sf_inlined fs = replicate (length ds - 1) True @ [False]"
proof -
  have l: "rev ds = last ds # tl (rev ds)" using assms(2) by (metis hd_Cons_tl hd_rev rev_is_Nil_conv)
  show ?thesis
  proof (cases "length ds > 1")
    case True
    then obtain f fs' where "fs = f # fs'" "sf_func f = last ds" "sf_inlined f"
        "create_inline_stack_frames tg d regs (rev ds) = Inr fs'"
      using assms(1) by (auto simp: create_frames_def create_base_frame_def rbind_eq_Inr)
    with inline_frames_shape [of tg d regs "rev ds" fs'] True
    have "map sf_func fs = last ds # tl (rev ds)" "map sf_inlined fs = True # replicate (length ds - 2) True @ [False]" by simp_all
    moreover have "length ds - 1 = Suc (length ds - 2)" using True by simp
    ultimately show ?thesis using l by simp
  next
    case False
    with assms obtain a where "ds = [a]" by (cases ds) auto
    with assms(1) show ?thesis by (auto simp: create_frames_def create_base_frame_def rbind_eq_Inr)
  qed
qed

text \<open>
  The frames of one call of the machine: one for each entry of its stack of inlined calls, from
  the inside out, all marked as inlined except the last, which is the function itself.
\<close>

definition frame_group :: "target \<Rightarrow> die list \<Rightarrow> stack_frame list \<Rightarrow> bool" where
  "frame_group tg ds g \<longleftrightarrow> ds \<noteq> [] \<and> map sf_func g = rev ds \<and> map sf_inlined g = replicate (length ds - 1) True @ [False]
     \<and> (\<exists>d pc. d \<in> set (tg_elves tg) \<and> fa_elf pc = Some (tg_main tg) \<and> di_inline_stack d pc = Inr ds)"

lemma map_butlast_update:
  "fs \<noteq> [] \<Longrightarrow> h (u (last fs)) = h (last fs) \<Longrightarrow> map h (butlast fs @ [u (last fs)]) = map h fs"
  by (cases fs rule: rev_cases) simp_all

lemma target_of_keeps: "keeps s s' \<Longrightarrow> target_of s' = target_of s"
  by (simp add: keeps_def shape_def target_of_def)

lemma info_at_in: "the_info_at tg a = Inr d \<Longrightarrow> d \<in> set (tg_elves tg)"
  by (auto simp: the_info_at_def info_at_def find_Some_iff split: option.splits)

lemma unwind_frames_groups:
  assumes "unwind_frames os n regs virt_pc file_pc frames s = Inr (frames', s')" and "target_of s = Inr tg"
  shows "keeps s s' \<and> (\<exists>dss gs. frames' = frames @ concat gs \<and> list_all2 (frame_group tg) dss gs
     \<and> (addr virt_pc \<noteq> 0 \<and> fa_elf file_pc = Some (tg_main tg) \<longrightarrow>
        (\<exists>d ds. the_info_at tg file_pc = Inr d \<and> di_inline_stack d file_pc = Inr ds \<and> (ds \<noteq> [] \<longrightarrow> dss \<noteq> [] \<and> hd dss = ds))))"
  using assms
proof (induction os n regs virt_pc file_pc frames s rule: unwind_frames.induct)
  case (2 os n regs virt_pc file_pc frames s)
  show ?case
  proof (cases "addr virt_pc = 0 \<or> fa_elf file_pc \<noteq> Some (tg_main tg)")
    case True
    with "2.prems" show ?thesis by (auto intro!: exI [of _ "[]"])
  next
    case run: False
    then obtain d ds where d: "the_info_at tg file_pc = Inr d" "di_inline_stack d file_pc = Inr ds"
      using "2.prems" by (auto simp: rbind_eq_Inr)
    show ?thesis
    proof (cases "ds = []")
      case True
      with run d "2.prems" show ?thesis by (auto intro!: exI [of _ "[]"])
    next
      case False
      obtain fs regs' old reqs s1 rip where r: "create_frames tg d regs ds file_pc = Inr fs"
          "di_unwind d (\<lambda>a k. read_memory os a k s) file_pc (sf_regs (last fs)) = Inr (regs', old, reqs)"
          "foldR (send_user_req os) reqs s = Inr s1" "read_by_id_as_u64 rid_rip regs' = Inr rip"
          "unwind_frames os n regs' (VirtAddr (rip - 1)) (target_to_file tg (VirtAddr (rip - 1)))
             (frames @ butlast fs @ [(last fs)\<lparr>sf_regs := old\<rparr>]) s1 = Inr (frames', s')"
        using "2.prems" run d False by (auto simp: rbind_eq_Inr Let_def)
      have k: "keeps s s1" by (rule foldR_keeps [OF r(3) send_user_req_keeps])
      then have t: "target_of s1 = Inr tg" using target_of_keeps [OF k] "2.prems"(2) by simp
      from "2.IH" [OF "2.prems"(2) run d False r(1,2) refl refl r(3,4) refl r(5) t]
      obtain dss gs where g: "keeps s1 s'" "frames' = (frames @ butlast fs @ [(last fs)\<lparr>sf_regs := old\<rparr>]) @ concat gs"
          "list_all2 (frame_group tg) dss gs" by blast
      let ?g = "butlast fs @ [(last fs)\<lparr>sf_regs := old\<rparr>]"
      note sh = create_frames_shape [OF r(1) False]
      then have "fs \<noteq> []" using False by auto
      then have "map sf_func ?g = map sf_func fs" "map sf_inlined ?g = map sf_inlined fs"
        by (intro map_butlast_update [where u = "\<lambda>f. f\<lparr>sf_regs := old\<rparr>"]; simp)+
      then have "frame_group tg ds ?g"
        using sh False d info_at_in run unfolding frame_group_def by metis
      then have "list_all2 (frame_group tg) (ds # dss) (?g # gs)" using g(3) by simp
      moreover have "frames' = frames @ concat (?g # gs)" using g(2) by simp
      ultimately show ?thesis using d keeps_trans [OF k g(1)] by (metis list.sel(1) list.distinct(1))
    qed
  qed
qed simp

lemma count_starting_spec:
  "count_starting d pc xs = Inr n \<Longrightarrow> n \<le> length xs \<and> (\<forall>i<n. di_low_pc d (xs ! i) = Inr pc)
     \<and> (n < length xs \<longrightarrow> di_low_pc d (xs ! n) \<noteq> Inr pc)"
proof (induction xs arbitrary: n)
  case (Cons x xs)
  then obtain low where low: "di_low_pc d x = Inr low"
      "if fa_eq low pc then \<exists>m. count_starting d pc xs = Inr m \<and> n = Suc m else n = 0"
    by (auto simp: rbind_eq_Inr split: if_splits)
  show ?case
  proof (cases "fa_eq low pc")
    case True
    then obtain m where m: "count_starting d pc xs = Inr m" "n = Suc m" using low(2) by auto
    have "di_low_pc d ((x # xs) ! i) = Inr pc" if "i < n" for i
      using that m Cons.IH [OF m(1)] low(1) True by (cases i) (auto simp: fa_eq_iff)
    with m Cons.IH [OF m(1)] show ?thesis by simp
  next
    case False
    with low show ?thesis by (simp add: fa_eq_iff)
  qed
qed simp

lemma pc_of_current: "get_pc_file_address None s = get_pc_file_address (Some (pr_current s)) s"
  by (simp add: get_pc_file_address_def get_pc_def read_reg_def get_registers_def tid_of_def)


subsection \<open>A concrete stack\<close>

definition toy_at :: "u64 \<Rightarrow> (u64 \<Rightarrow> u8) tprocess" where
  "toy_at a = toy_process\<lparr>pr_threads := [(100, (mk_thread sample_os 100)\<lparr>th_regs := rip_registers a\<rparr>)]\<rparr>"

lemma toy_at_fields: "target_of (toy_at a) = Inr toy_target" "pr_current (toy_at a) = 100" "pr_sites (toy_at a) = []"
    "get_registers (Some 100) (toy_at a) = Inr (rip_registers a)"
  by (simp_all add: toy_at_def target_of_def toy_process_fields get_registers_def tid_of_def thread_at_def map_at_def)

lemma toy_at_pc: "get_pc (Some 100) (toy_at a) = Inr (VirtAddr a)"
  by (rule pc_of_registers [OF toy_at_fields(4) rip_registers_pc(2)])

lemma toy_to_file: "target_to_file toy_target (VirtAddr 0x555555555100) = toy_addr 0x1100"
  by (simp add: target_to_file_def toy_target_def toy_info_def toy_elf_def loaded_elf_def blank_elf_def elves_to_file_addr_def
      get_elf_containing_address_def section_containing_virt_def virt_addr_order to_file_addr_def toy_addr_def)

lemma toy_to_file_none: "target_to_file toy_target (VirtAddr (- 1)) = file_addr_default"
  by (simp add: target_to_file_def toy_target_def toy_info_def toy_elf_def loaded_elf_def blank_elf_def elves_to_file_addr_def
      get_elf_containing_address_def section_containing_virt_def virt_addr_order)

lemma toy_info_at: "info_at toy_target (toy_addr a) = Some toy_info"
  by (simp add: info_at_def toy_target_def toy_addr_def mk_file_addr_def toy_info_def toy_elf_def loaded_elf_def blank_elf_def)

lemma zero_rip: "read_by_id_as_u64 rid_rip zero_registers = Inr 0"
  using zero_rip_read by (simp add: read_by_id_as_u64_def register_info_by_id_nth rid_rip_def get_u64_def)

lemma toy_row: "row_at toy_info a = Inr (Some (sample_line_table, toy_iter 0x1100))"
  by (simp add: row_at_def row_in_unit_def toy_info_def)

lemma toy_to_virt_entry: "target_to_virt toy_target (toy_addr 0x1100) = Inr (VirtAddr 0x555555555100)"
  by (simp add: target_to_virt_def toy_addr_def mk_file_addr_def the_info_at_def info_at_def toy_target_def toy_info_def
      toy_elf_def loaded_elf_def blank_elf_def to_virt_addr_def section_containing_file_def in_section_def)

lemma toy_frames: "\<exists>f. create_frames toy_target toy_info regs [toy_die] (toy_addr 0x1100) = Inr [f]"
  by (simp add: create_frames_def create_base_frame_def toy_row row_report_def toy_to_virt_entry)
     (simp add: toy_iter_def Let_def toy_to_virt_entry)


end
