(* ===== verification/KD_Parse.thy ===== *)
theory KD_Parse
  imports KD_Prelude
begin

text \<open>
  Reading numbers, byte lists and command words from text (\<open>include/libkdebugger/parse.hpp\<close>
  and the helpers of \<open>tools/kdebugger.cpp\<close>).
\<close>

subsection \<open>\<open>std::from_chars\<close>\<close>

text \<open>The standard library's pattern: digits of the base in either case, a sign for signed types only, no prefix.\<close>

definition digit_of :: "nat \<Rightarrow> char \<Rightarrow> nat option" where
  "digit_of base c =
     (let n = of_char c :: nat;
          d = (if 48 \<le> n \<and> n \<le> 57 then n - 48 else if 97 \<le> n \<and> n \<le> 122 then n - 87
               else if 65 \<le> n \<and> n \<le> 90 then n - 55 else 36)
      in if d < base then Some d else None)"

fun digits_value :: "nat \<Rightarrow> int \<Rightarrow> string \<Rightarrow> int" where
  "digits_value base acc [] = acc"
| "digits_value base acc (c # cs) =
     digits_value base (acc * int base + (case digit_of base c of Some d \<Rightarrow> int d | None \<Rightarrow> 0)) cs"

text \<open>An integer type by its sign and width.\<close>

definition in_type :: "bool \<Rightarrow> nat \<Rightarrow> int \<Rightarrow> bool" where
  "in_type sg w v \<longleftrightarrow> (if sg then - (2 ^ (w - 1)) \<le> v \<and> v < 2 ^ (w - 1) else 0 \<le> v \<and> v < 2 ^ w)"

text \<open>
  The number of characters that match and the value stored, \<open>None\<close> where the function leaves
  its argument unmodified: nothing matches, or the number is out of range.
\<close>

definition from_chars :: "bool \<Rightarrow> nat \<Rightarrow> nat \<Rightarrow> string \<Rightarrow> nat \<times> int option" where
  "from_chars sg w base s =
     (let neg = (sg \<and> s \<noteq> [] \<and> hd s = CHR ''-'');
          ds = takeWhile (\<lambda>c. digit_of base c \<noteq> None) (if neg then tl s else s);
          v = (if neg then - digits_value base 0 ds else digits_value base 0 ds)
      in if ds = [] then (0, None)
         else (length ds + (if neg then 1 else 0), if in_type sg w v then Some v else None))"

subsection \<open>Numbers\<close>

text \<open>
  \<open>to_integral\<close> looks only at where the match ends, not at the error: where it ends at the end of
  the text but stored nothing, the variable that is returned was never initialised.
\<close>

definition to_integral :: "bool \<Rightarrow> nat \<Rightarrow> nat \<Rightarrow> string \<Rightarrow> int option result" where
  "to_integral sg w base sv =
     (let s = (if base = 16 \<and> length sv > 1 \<and> sv ! 0 = CHR ''0'' \<and> sv ! 1 = CHR ''x'' then drop 2 sv else sv);
          (p, v) = from_chars sg w base s
      in if p \<noteq> length s then Inr None
         else (case v of None \<Rightarrow> Inl (UB ''uninitialised number'') | Some x \<Rightarrow> Inr (Some x)))"

definition to_byte :: "nat \<Rightarrow> string \<Rightarrow> u8 option result" where
  "to_byte base sv = rbind (to_integral False 8 base sv) (\<lambda>v. Inr (map_option of_int v))"

text \<open>Floating point numbers: the conversion is the library's, its match and value an argument.\<close>

definition to_float :: "(string \<Rightarrow> nat \<times> 'f option) \<Rightarrow> string \<Rightarrow> 'f option result" where
  "to_float conv sv =
     (case conv sv of (p, v) \<Rightarrow>
        if p \<noteq> length sv then Inr None
        else (case v of None \<Rightarrow> Inl (UB ''uninitialised number'') | Some x \<Rightarrow> Inr (Some x)))"

subsection \<open>Byte lists\<close>

text \<open>The text is that of a \<open>std::string\<close>, whose characters are followed by a zero.\<close>

abbreviation NUL :: char where "NUL \<equiv> char_of (0 :: nat)"

definition char_at :: "string \<Rightarrow> nat \<Rightarrow> char result" where
  "char_at text i = (if i < length text then Inr (text ! i) else if i = length text then Inr NUL else Inl (UB ''read past a string''))"

definition invalid :: "'a result" where
  "invalid = Inl (Send ''Invalid format!'')"

definition byte_at :: "string \<Rightarrow> nat \<Rightarrow> u8 result" where
  "byte_at text i = rbind (to_byte 16 (take 4 (drop i (text @ replicate 4 NUL)))) (\<lambda>b.
     case b of None \<Rightarrow> Inl BadOptionalAccess | Some x \<Rightarrow> Inr x)"

definition expect :: "string \<Rightarrow> nat \<Rightarrow> char \<Rightarrow> unit result" where
  "expect text i c = rbind (char_at text i) (\<lambda>x. if x = c then Inr () else invalid)"

fun fixed_bytes :: "nat \<Rightarrow> string \<Rightarrow> nat \<Rightarrow> u8 list result" where
  "fixed_bytes 0 text ch = rbind (byte_at text ch) (\<lambda>b. rbind (expect text (ch + 4) (CHR '']'')) (\<lambda>_.
     if ch + 5 = length text then Inr [b] else invalid))"
| "fixed_bytes (Suc n) text ch = rbind (byte_at text ch) (\<lambda>b. rbind (expect text (ch + 4) (CHR '','')) (\<lambda>_.
     rbind (fixed_bytes n text (ch + 5)) (\<lambda>bs. Inr (b # bs))))"

definition parse_vector_fixed :: "nat \<Rightarrow> string \<Rightarrow> u8 list result" where
  "parse_vector_fixed n text = rbind (expect text 0 (CHR ''['')) (\<lambda>_. fixed_bytes (n - 1) text 1)"

lemma char_at_bound: "char_at text i = Inr c \<Longrightarrow> i \<le> length text"
  by (auto simp: char_at_def split: if_splits)

function vector_bytes :: "string \<Rightarrow> nat \<Rightarrow> u8 list result" where
  "vector_bytes text ch =
     rbind (char_at text ch) (\<lambda>c.
     if c = CHR '']'' then (if ch + 1 = length text then Inr [] else invalid)
     else rbind (byte_at text ch) (\<lambda>b.
          rbind (char_at text (ch + 4)) (\<lambda>d.
          rbind (if d = CHR '','' then vector_bytes text (ch + 5)
                 else if d = CHR '']'' then vector_bytes text (ch + 4) else invalid) (\<lambda>bs. Inr (b # bs)))))"
  by pat_completeness auto
termination
  by (relation "measure (\<lambda>(text, ch). length text + 1 - ch)") (auto dest!: char_at_bound)

declare vector_bytes.simps [simp del]

definition parse_vector :: "string \<Rightarrow> u8 list result" where
  "parse_vector text = rbind (expect text 0 (CHR ''['')) (\<lambda>_. vector_bytes text 1)"

subsection \<open>Command words\<close>

definition is_prefix :: "string \<Rightarrow> string \<Rightarrow> bool" where
  "is_prefix str str_of \<longleftrightarrow> length str \<le> length str_of \<and> str = take (length str) str_of"

text \<open>\<open>std::getline\<close> until the stream is exhausted: a delimiter at the end opens no further item.\<close>

function split :: "string \<Rightarrow> char \<Rightarrow> string list" where
  "split str del = (if str = [] then []
     else takeWhile (\<lambda>c. c \<noteq> del) str # split (drop 1 (dropWhile (\<lambda>c. c \<noteq> del) str)) del)"
  by pat_completeness auto
termination
proof (relation "measure (\<lambda>(str, del). length str)")
  fix str :: string and del
  assume "str \<noteq> []"
  moreover have "length (dropWhile (\<lambda>c. c \<noteq> del) str) \<le> length str" by (rule length_dropWhile_le)
  ultimately show "((drop 1 (dropWhile (\<lambda>c. c \<noteq> del) str), del), (str, del)) \<in> measure (\<lambda>(str, del). length str)"
    by (cases str) auto
qed simp

declare split.simps [simp del]

subsection \<open>Printing\<close>

definition digit_char :: "nat \<Rightarrow> char" where
  "digit_char d = (if d < 10 then char_of (48 + d) else char_of (87 + d))"

function show_nat :: "nat \<Rightarrow> nat \<Rightarrow> string" where
  "show_nat base n = (if base < 2 \<or> n < base then [digit_char n] else show_nat base (n div base) @ [digit_char (n mod base)])"
  by pat_completeness auto
termination
  by (relation "measure snd") auto

declare show_nat.simps [simp del]

definition show_byte :: "u8 \<Rightarrow> string" where
  "show_byte b = ''0x'' @ [digit_char (unat b div 16), digit_char (unat b mod 16)]"

fun show_bytes :: "u8 list \<Rightarrow> string" where
  "show_bytes [] = []"
| "show_bytes [b] = show_byte b"
| "show_bytes (b # bs) = show_byte b @ '','' @ show_bytes bs"

definition show_vector :: "u8 list \<Rightarrow> string" where
  "show_vector bs = ''['' @ show_bytes bs @ '']''"

lemma digit_of_char: "d < base \<Longrightarrow> base \<le> 16 \<Longrightarrow> digit_of base (digit_char d) = Some d"
proof -
  assume "d < base" "base \<le> 16"
  then show ?thesis by (auto simp: digit_of_def digit_char_def Let_def)
qed

lemma digits_value_append: "digits_value base acc (xs @ ys) = digits_value base (digits_value base acc xs) ys"
  by (induction xs arbitrary: acc) simp_all

lemma show_nat_digits:
  assumes "2 \<le> base" and "base \<le> 16"
  shows "show_nat base n \<noteq> [] \<and> (\<forall>c\<in>set (show_nat base n). digit_of base c \<noteq> None) \<and> digits_value base 0 (show_nat base n) = int n"
proof (induction n rule: less_induct)
  case (less n)
  show ?case
  proof (cases "n < base")
    case True
    then show ?thesis using assms by (simp add: show_nat.simps digit_of_char)
  next
    case False
    then have "n div base < n" using assms by (intro div_less_dividend) auto
    note ih = less.IH [OF this]
    have "int (n div base) * int base + int (n mod base) = int n"
      by (simp flip: of_nat_mult of_nat_add)
    then show ?thesis using ih False assms
      by (subst (1 2 3) show_nat.simps) (auto simp: digits_value_append digit_of_char)
  qed
qed

subsection \<open>Properties\<close>

lemma from_chars_digits:
  assumes "ds \<noteq> []" and "\<forall>c\<in>set ds. digit_of base c \<noteq> None" and "hd ds \<noteq> CHR ''-''"
  shows "from_chars sg w base ds = (length ds, if in_type sg w (digits_value base 0 ds) then Some (digits_value base 0 ds) else None)"
proof -
  have "takeWhile (\<lambda>c. \<exists>d. digit_of base c = Some d) ds = ds" using assms(2) by (simp add: takeWhile_eq_all_conv)
  then show ?thesis using assms(1,3) by (simp add: from_chars_def Let_def del: takeWhile_eq_all_conv)
qed

lemma digit_not_sign: "base \<le> 16 \<Longrightarrow> digit_of base c \<noteq> None \<Longrightarrow> c \<noteq> CHR ''-'' \<and> c \<noteq> CHR ''x''"
  by (auto simp: digit_of_def Let_def split: if_splits)

lemma to_integral_digits:
  assumes "ds \<noteq> []" and "\<forall>c\<in>set ds. digit_of base c \<noteq> None" and "base \<le> 16" and "pre = [] \<or> base = 16 \<and> pre = ''0x''"
  shows "to_integral sg w base (pre @ ds) = (if in_type sg w (digits_value base 0 ds)
    then Inr (Some (digits_value base 0 ds)) else Inl (UB ''uninitialised number''))"
proof -
  have hd: "hd ds \<noteq> CHR ''-''" using digit_not_sign [OF assms(3)] assms(1,2) by auto
  have "\<not> (length ds > 1 \<and> ds ! 1 = CHR ''x'')" using digit_not_sign [OF assms(3)] assms(2) nth_mem by blast
  then show ?thesis
    using assms(4) from_chars_digits [OF assms(1,2) hd] by (auto simp: to_integral_def Let_def)
qed

lemma to_integral_shown:
  assumes "base = 10 \<and> pre = [] \<or> base = 16 \<and> pre \<in> {[], ''0x''}"
  shows "to_integral False w base (pre @ show_nat base n) =
    (if n < 2 ^ w then Inr (Some (int n)) else Inl (UB ''uninitialised number''))"
proof -
  have b: "2 \<le> base" "base \<le> 16" "pre = [] \<or> base = 16 \<and> pre = ''0x''" using assms by auto
  note d = show_nat_digits [OF b(1,2), of n]
  have "in_type False w (int n) \<longleftrightarrow> n < 2 ^ w" by (simp add: in_type_def)
  then show ?thesis using to_integral_digits [of "show_nat base n" base pre False w] d b by simp
qed

text \<open>
  C36: reading back a number printed in decimal or hexadecimal, with or without the prefix, gives
  the number when it fits the type; when it does not, the variable returned was never written.
\<close>

theorem to_integral_round_trip:
  assumes "base = 10 \<and> pre = [] \<or> base = 16 \<and> pre \<in> {[], ''0x''}"
  shows "to_integral False w base (pre @ show_nat base n) =
    (if n < 2 ^ w then Inr (Some (int n)) else Inl (UB ''uninitialised number''))"
  using assms by (rule to_integral_shown)

lemma to_integral_round_trip_witness:
  "to_integral False 64 16 (''0x'' @ show_nat 16 0x401136) = Inr (Some 0x401136)
   \<and> to_integral False 8 16 (''0x'' @ show_nat 16 0x401136) = Inl (UB ''uninitialised number'')"
  using to_integral_round_trip [of 16 "''0x''" 64 "0x401136"] to_integral_round_trip [of 16 "''0x''" 8 "0x401136"] by simp

lemma byte_at_shown: "byte_at (pre @ show_byte b @ post) (length pre) = Inr b"
proof -
  let ?ds = "[digit_char (unat b div 16), digit_char (unat b mod 16)]"
  have b: "unat b < 256" using unsigned_less [of b] by simp
  have lt: "unat b div 16 < 16" using b by (simp add: less_mult_imp_div_less)
  have v: "digits_value 16 0 ?ds = int (unat b)"
  proof -
    have "int (unat b div 16) * 16 + int (unat b mod 16) = int (unat b)"
      by (metis div_mult_mod_eq of_nat_add of_nat_mult of_nat_numeral)
    then show ?thesis using lt by (simp add: digit_of_char)
  qed
  have "to_integral False 8 16 (''0x'' @ ?ds) = Inr (Some (int (unat b)))"
    using to_integral_digits [of ?ds 16 "''0x''" False 8] lt v b by (simp add: digit_of_char in_type_def)
  moreover have "take 4 (drop (length pre) ((pre @ show_byte b @ post) @ replicate 4 NUL)) = show_byte b" by (simp add: show_byte_def)
  ultimately show ?thesis by (simp add: byte_at_def to_byte_def show_byte_def)
qed

lemma char_at_append: "char_at (pre @ c # post) (length pre) = Inr c"
  by (simp add: char_at_def)

lemma vector_bytes_shown:
  "vector_bytes (pre @ show_bytes bs @ '']'') (length pre) = Inr bs"
proof (induction bs arbitrary: pre rule: show_bytes.induct)
  case 1
  show ?case using char_at_append [of pre "CHR '']''" "[]"] by (simp add: vector_bytes.simps)
next
  case (2 b)
  have len: "length (show_byte b) = 4" by (simp add: show_byte_def)
  have first: "char_at (pre @ show_byte b @ '']'') (length pre) = Inr (CHR ''0'')"
    using char_at_append [of pre "CHR ''0''" "drop 1 (show_byte b) @ '']''"] by (simp add: show_byte_def)
  have close: "char_at (pre @ show_byte b @ '']'') (length pre + 4) = Inr (CHR '']'')"
    using char_at_append [of "pre @ show_byte b" "CHR '']''" "[]"] len by simp
  have rest: "vector_bytes (pre @ show_byte b @ '']'') (length pre + 4) = Inr []"
    using close len by (simp add: vector_bytes.simps)
  show ?case using first close rest byte_at_shown [of pre b "'']''"] by (subst vector_bytes.simps) simp
next
  case (3 b c bs)
  let ?rest = "show_bytes (c # bs) @ '']''"
  have len: "length (show_byte b) = 4" by (simp add: show_byte_def)
  have first: "char_at (pre @ show_byte b @ '','' @ ?rest) (length pre) = Inr (CHR ''0'')"
    using char_at_append [of pre "CHR ''0''" "drop 1 (show_byte b) @ '','' @ ?rest"] by (simp add: show_byte_def)
  have comma: "char_at (pre @ show_byte b @ '','' @ ?rest) (length pre + 4) = Inr (CHR '','')"
    using char_at_append [of "pre @ show_byte b" "CHR '',''" ?rest] len by simp
  have "vector_bytes (pre @ show_byte b @ '','' @ ?rest) (length pre + 5) = Inr (c # bs)"
    using "3.IH" [of "pre @ show_byte b @ '',''"] len by (simp add: add.assoc)
  then show ?case using first comma byte_at_shown [of pre b "'','' @ ?rest"] by (subst vector_bytes.simps) simp
qed

lemma fixed_bytes_shown:
  "bs \<noteq> [] \<Longrightarrow> fixed_bytes (length bs - 1) (pre @ show_bytes bs @ '']'') (length pre) = Inr bs"
proof (induction bs arbitrary: pre rule: show_bytes.induct)
  case (2 b)
  have len: "length (show_byte b) = 4" by (simp add: show_byte_def)
  have close: "char_at (pre @ show_byte b @ '']'') (length pre + 4) = Inr (CHR '']'')"
    using char_at_append [of "pre @ show_byte b" "CHR '']''" "[]"] len by simp
  then show ?case using byte_at_shown [of pre b "'']''"] len by (simp add: expect_def)
next
  case (3 b c bs)
  let ?rest = "show_bytes (c # bs) @ '']''"
  have len: "length (show_byte b) = 4" by (simp add: show_byte_def)
  have comma: "char_at (pre @ show_byte b @ '','' @ ?rest) (length pre + 4) = Inr (CHR '','')"
    using char_at_append [of "pre @ show_byte b" "CHR '',''" ?rest] len by simp
  have "fixed_bytes (length bs) (pre @ show_byte b @ '','' @ ?rest) (length pre + 5) = Inr (c # bs)"
    using "3.IH" [of "pre @ show_byte b @ '',''"] len by (simp add: add.assoc)
  then show ?case using comma byte_at_shown [of pre b "'','' @ ?rest"] by (simp add: expect_def)
qed simp

text \<open>
  A byte list printed in the form the parsers document, \<open>[0x01,0x02]\<close>, is read back by the
  parser of any length and by the parser of its own length.
\<close>

theorem parse_vector_round_trip:
  "parse_vector (show_vector bs) = Inr bs \<and> (bs = [] \<or> parse_vector_fixed (length bs) (show_vector bs) = Inr bs)"
proof -
  have open_: "char_at (show_vector bs) 0 = Inr (CHR ''['')" by (simp add: show_vector_def char_at_def)
  then show ?thesis
    using vector_bytes_shown [of "''[''" bs] fixed_bytes_shown [of bs "''[''"]
    by (auto simp: parse_vector_def parse_vector_fixed_def expect_def show_vector_def)
qed

fun join_items :: "char \<Rightarrow> string list \<Rightarrow> string" where
  "join_items del [] = []"
| "join_items del [x] = x"
| "join_items del (x # y # xs) = x @ del # join_items del (y # xs)"

lemma split_item: "del \<notin> set x \<Longrightarrow> split (x @ del # s) del = x # split s del"
proof -
  assume "del \<notin> set x"
  then have "takeWhile (\<lambda>c. c \<noteq> del) (x @ del # s) = x" "dropWhile (\<lambda>c. c \<noteq> del) (x @ del # s) = del # s"
    by (induction x) auto
  then show ?thesis by (subst split.simps) simp
qed

lemma split_last: "del \<notin> set x \<Longrightarrow> x \<noteq> [] \<Longrightarrow> split x del = [x]"
proof -
  assume "del \<notin> set x" "x \<noteq> []"
  then have "takeWhile (\<lambda>c. c \<noteq> del) x = x" "dropWhile (\<lambda>c. c \<noteq> del) x = []"
    by (induction x) auto
  then show ?thesis using \<open>x \<noteq> []\<close> by (subst split.simps) (simp add: split.simps del: dropWhile_eq_Nil_conv takeWhile_eq_all_conv)
qed

text \<open>
  Splitting the items of a command joined by the delimiter gives the items back, empty ones in
  the middle included, as long as none contains the delimiter and the last is not empty.
\<close>

theorem split_join:
  assumes "\<forall>x\<in>set xs. del \<notin> set x" and "xs = [] \<or> last xs \<noteq> []"
  shows "split (join_items del xs) del = xs"
  using assms
proof (induction del xs rule: join_items.induct)
  case (1 del)
  show ?case by (simp add: split.simps)
next
  case (2 del x)
  then show ?case by (simp add: split_last)
next
  case (3 del x y xs)
  then show ?case by (simp add: split_item)
qed

lemma split_join_witness: "split (join_items (CHR '' '') [''memory'', ''write'', ''0x10'', ''[0x90]'']) (CHR '' '') = [''memory'', ''write'', ''0x10'', ''[0x90]'']"
  using split_join [of "[''memory'', ''write'', ''0x10'', ''[0x90]'']" "CHR '' ''"] by simp

end
