(* ===== verification/KD_Stepping.thy ===== *)
theory KD_Stepping
  imports KD_Stack KD_Support KD_Parse
begin

text \<open>
  Source-level stepping (\<open>target::step_in\<close>, \<open>step_over\<close>, \<open>step_out\<close> and
  \<open>run_until_address\<close> in \<open>src/target.cpp\<close>).
\<close>

unbundle bit_operations_syntax

subsection \<open>What stepping asks of the process\<close>

text \<open>
  The two operations of the process that wait. They are arguments, so that a statement can be about
  a process whose waits return; \<open>stepper_of\<close> gives those of the source.
\<close>

record 'k stepper =
  sp_wait :: "int \<Rightarrow> 'k tprocess \<Rightarrow> (stop_reason \<times> 'k tprocess) result option"
  sp_step :: "int option \<Rightarrow> 'k tprocess \<Rightarrow> (stop_reason \<times> 'k tprocess) result option"

definition stepper_of :: "'k os \<Rightarrow> ('k, target) hooks \<Rightarrow> nat \<Rightarrow> 'k stepper" where
  "stepper_of os h n = \<lparr>sp_wait = wait_on_signal os h n, sp_step = step_instruction os h n\<rparr>"

definition set_thread_reason :: "int \<Rightarrow> stop_reason \<Rightarrow> 'k tprocess \<Rightarrow> 'k tprocess result" where
  "set_thread_reason tid r s =
     rbind (get_stack (Some tid) s) (\<lambda>_. Inr (update_thread tid (\<lambda>th. th\<lparr>th_reason := Some r\<rparr>) s))"

text \<open>The stop that is reported when no instruction was run; its constructor leaves the thread unset.\<close>

definition simulated_stop :: "u32 \<Rightarrow> stop_reason" where
  "simulated_stop junk = \<lparr>sr_info = SIGTRAP, sr_reason = Stopped, sr_trap = Some SingleStep, sr_syscall = None, sr_tid = sint junk\<rparr>"

subsection \<open>Running to an address\<close>

definition place_temporary :: "'k os \<Rightarrow> u32 \<Rightarrow> virt_addr \<Rightarrow> 'k tprocess \<Rightarrow> (bool \<times> 'k tprocess) result" where
  "place_temporary os junk a s =
     (if sp_contains_address bs_at_address a (pr_sites s) then Inr (False, s)
      else rbind (create_breakpoint_site junk None junk a False True s) (\<lambda>(k, s1).
           rbind (at_site (site_enable os) k s1) (\<lambda>(_, s2). Inr (True, s2))))"

definition as_single_step :: "virt_addr \<Rightarrow> int \<Rightarrow> stop_reason \<Rightarrow> 'k tprocess \<Rightarrow> stop_reason result" where
  "as_single_step a tid r s =
     (if is_breakpoint r then rbind (get_pc (Some tid) s) (\<lambda>pc. Inr (if pc = a then r\<lparr>sr_trap := Some SingleStep\<rparr> else r))
      else Inr r)"

definition remove_temporary :: "'k os \<Rightarrow> bool \<Rightarrow> virt_addr \<Rightarrow> 'k tprocess \<Rightarrow> 'k tprocess result" where
  "remove_temporary os mine a s =
     (if mine then rbind (remove_site_by_address os a s) (\<lambda>(_, s'). Inr s') else Inr s)"

definition run_until_address :: "'k os \<Rightarrow> 'k stepper \<Rightarrow> u32 \<Rightarrow> virt_addr \<Rightarrow> int option \<Rightarrow> 'k tprocess
    \<Rightarrow> (stop_reason \<times> 'k tprocess) result option" where
  "run_until_address os sp junk a otid s =
     (let tid = tid_of otid s in
      andthen (place_temporary os junk a s) (\<lambda>(mine, s1).
      andthen (resume os (Some tid) s1) (\<lambda>s2.
      fbind (sp_wait sp tid s2) (\<lambda>(r, s3).
      andthen (as_single_step a tid r s3) (\<lambda>r'.
      andthen (remove_temporary os mine a s3) (\<lambda>s4.
      andthen (set_thread_reason tid r' s4) (\<lambda>s5. Some (Inr (r', s5)))))))))"

subsection \<open>Stepping in\<close>

definition stays_on_line :: "row \<Rightarrow> int \<Rightarrow> 'k tprocess \<Rightarrow> bool result" where
  "stays_on_line orig tid s =
     rbind (line_entry_at_pc (Some tid) s) (\<lambda>r.
     Inr ((row_pos r = row_pos orig \<or> le_end_sequence (row_entry r)) \<and> row_pos r \<noteq> row_pos None))"

text \<open>\<open>Some r\<close> is a return from inside the loop.\<close>

fun step_in_loop :: "'k stepper \<Rightarrow> nat \<Rightarrow> row \<Rightarrow> int \<Rightarrow> 'k tprocess \<Rightarrow> (stop_reason option \<times> 'k tprocess) result option" where
  "step_in_loop sp 0 orig tid s = None"
| "step_in_loop sp (Suc n) orig tid s =
     fbind (sp_step sp (Some tid) s) (\<lambda>(r, s1).
     if \<not> is_step r then andthen (set_thread_reason tid r s1) (\<lambda>s2. Some (Inr (Some r, s2)))
     else andthen (stays_on_line orig tid s1) (\<lambda>again.
       if again then step_in_loop sp n orig tid s1 else Some (Inr (None, s1))))"

text \<open>
  Where the thread has just entered a function: the address of the row behind the one of the
  current thread's program counter.
\<close>

definition end_of_prologue :: "int \<Rightarrow> 'k tprocess \<Rightarrow> virt_addr option result" where
  "end_of_prologue tid s =
     rbind (target_of s) (\<lambda>tg.
     rbind (get_pc_file_address (Some tid) s) (\<lambda>pc. case info_at tg pc of
       None \<Rightarrow> Inr None
     | Some d \<Rightarrow> rbind (di_function_at d pc) (\<lambda>f. case f of
         None \<Rightarrow> Inr None
       | Some x \<Rightarrow> rbind (di_low_pc d x) (\<lambda>low.
           if \<not> fa_eq low pc then Inr None
           else rbind (line_entry_at_pc None s) (\<lambda>r.
             if row_pos r = row_pos None then Inr None
             else rbind (the_info_at tg (le_address (row_entry r))) (\<lambda>d'.
               rbind (row_next d' r) (\<lambda>r'.
               rbind (target_to_virt tg (le_address (row_entry r'))) (\<lambda>v. Inr (Some v)))))))))"

definition step_in :: "'k os \<Rightarrow> 'k stepper \<Rightarrow> nat \<Rightarrow> u32 \<Rightarrow> int option \<Rightarrow> 'k tprocess
    \<Rightarrow> (stop_reason \<times> 'k tprocess) result option" where
  "step_in os sp n junk otid s =
     (let tid = tid_of otid s;
          simulate = (\<lambda>s. andthen (set_thread_reason tid (simulated_stop junk) s) (\<lambda>s'. Some (Inr (simulated_stop junk, s'))))
      in andthen (get_stack (Some tid) s) (\<lambda>st.
      if st_inline_height st > 0 then simulate (update_stack tid simulate_inlined_step_in s)
      else andthen (line_entry_at_pc (Some tid) s) (\<lambda>orig.
        fbind (step_in_loop sp n orig tid s) (\<lambda>(early, s1). case early of
          Some r \<Rightarrow> Some (Inr (r, s1))
        | None \<Rightarrow> andthen (end_of_prologue tid s1) (\<lambda>oa. case oa of
            Some a \<Rightarrow> run_until_address os sp junk a (Some tid) s1
          | None \<Rightarrow> simulate s1)))))"

subsection \<open>Stepping over\<close>

text \<open>\<open>text.rfind("call") == 0\<close>: the last occurrence is at the start.\<close>

definition rfind_at_start :: "string \<Rightarrow> string \<Rightarrow> bool" where
  "rfind_at_start pat s \<longleftrightarrow> is_prefix pat s \<and> list_all (\<lambda>k. \<not> is_prefix pat (drop k s)) [1..<length s]"

text \<open>
  Where one turn of \<open>step_over\<close> runs to: the end of the inlined call the thread is in front of,
  the instruction behind a call, or nowhere (one instruction). The names the source does not
  declare are read as in \<open>step_out\<close>.
\<close>

definition over_address :: "'k os \<Rightarrow> decoder \<Rightarrow> int \<Rightarrow> 'k tprocess \<Rightarrow> virt_addr option result" where
  "over_address os dec tid s =
     rbind (target_of s) (\<lambda>tg.
     rbind (get_stack (Some tid) s) (\<lambda>st.
     rbind (inline_stack_at_pc (st_tid st) s) (\<lambda>ds.
     if length ds > 1 \<and> st_inline_height st > 0 then
       rbind (if unat (st_inline_height st) \<le> length ds then vec_idx ds (length ds - unat (st_inline_height st))
              else Inl (UB ''vector index'')) (\<lambda>x.
       rbind (get_pc_file_address (Some (st_tid st)) s) (\<lambda>pc.
       rbind (the_info_at tg pc) (\<lambda>d.
       rbind (rbind (di_high_pc d x) (target_to_virt tg)) (\<lambda>v. Inr (Some v)))))
     else rbind (get_pc (Some tid) s) (\<lambda>pc.
       rbind (disassemble os dec 2 (Some pc) s) (\<lambda>instructions.
       rbind (vec_idx instructions 0) (\<lambda>(_, text0).
       if rfind_at_start ''call'' text0 then rbind (vec_idx instructions 1) (\<lambda>(a, _). Inr (Some a)) else Inr None))))))"

definition step_over_turn :: "'k os \<Rightarrow> 'k stepper \<Rightarrow> decoder \<Rightarrow> u32 \<Rightarrow> int \<Rightarrow> 'k tprocess
    \<Rightarrow> ((stop_reason \<times> bool) \<times> 'k tprocess) result option" where
  "step_over_turn os sp dec junk tid s =
     andthen (over_address os dec tid s) (\<lambda>oa.
     fbind (case oa of Some a \<Rightarrow> run_until_address os sp junk a (Some tid) s | None \<Rightarrow> sp_step sp (Some tid) s) (\<lambda>(r, s1).
     andthen (if \<not> is_step r then Inr True
              else case oa of None \<Rightarrow> Inr False | Some a \<Rightarrow> rbind (get_pc (Some tid) s1) (\<lambda>pc. Inr (pc \<noteq> a))) (\<lambda>stop.
     if stop then andthen (set_thread_reason tid r s1) (\<lambda>s2. Some (Inr ((r, True), s2))) else Some (Inr ((r, False), s1)))))"

fun step_over_loop :: "'k os \<Rightarrow> 'k stepper \<Rightarrow> decoder \<Rightarrow> u32 \<Rightarrow> nat \<Rightarrow> row \<Rightarrow> int \<Rightarrow> 'k tprocess
    \<Rightarrow> (stop_reason \<times> 'k tprocess) result option" where
  "step_over_loop os sp dec junk 0 orig tid s = None"
| "step_over_loop os sp dec junk (Suc n) orig tid s =
     fbind (step_over_turn os sp dec junk tid s) (\<lambda>((r, stop), s1).
     if stop then Some (Inr (r, s1))
     else andthen (stays_on_line orig tid s1) (\<lambda>again.
       if again then step_over_loop os sp dec junk n orig tid s1 else Some (Inr (r, s1))))"

definition step_over :: "'k os \<Rightarrow> 'k stepper \<Rightarrow> decoder \<Rightarrow> nat \<Rightarrow> u32 \<Rightarrow> int option \<Rightarrow> 'k tprocess
    \<Rightarrow> (stop_reason \<times> 'k tprocess) result option" where
  "step_over os sp dec n junk otid s =
     (let tid = tid_of otid s in
      andthen (get_stack (Some tid) s) (\<lambda>_.
      andthen (line_entry_at_pc (Some tid) s) (\<lambda>orig. step_over_loop os sp dec junk n orig tid s)))"

subsection \<open>Stepping out\<close>

text \<open>
  The loop runs on while the visible frames are no fewer than at the start, but a turn ends it unless
  \<open>is_breakpoint\<close> holds of the reason, which \<open>run_until_address\<close> turns into a single step
  at the address it was asked for.
\<close>

fun step_out_loop :: "'k os \<Rightarrow> 'k stepper \<Rightarrow> u32 \<Rightarrow> nat \<Rightarrow> nat \<Rightarrow> virt_addr \<Rightarrow> int \<Rightarrow> 'k tprocess
    \<Rightarrow> (stop_reason \<times> 'k tprocess) result option" where
  "step_out_loop os sp junk 0 frames a tid s = None"
| "step_out_loop os sp junk (Suc n) frames a tid s =
     fbind (run_until_address os sp junk a (Some tid) s) (\<lambda>(r, s1).
     andthen (if \<not> is_breakpoint r then Inr True else rbind (get_pc None s1) (\<lambda>pc. Inr (pc \<noteq> a))) (\<lambda>stop.
     if stop then Some (Inr (r, s1))
     else andthen (rbind (get_stack (Some tid) s1) stack_frames) (\<lambda>fs.
       if length fs \<ge> frames then step_out_loop os sp junk n frames a tid s1 else Some (Inr (r, s1)))))"

definition step_out :: "'k os \<Rightarrow> 'k stepper \<Rightarrow> nat \<Rightarrow> u32 \<Rightarrow> int option \<Rightarrow> 'k tprocess
    \<Rightarrow> (stop_reason \<times> 'k tprocess) result option" where
  "step_out os sp n junk otid s =
     (let tid = tid_of otid s in
      andthen (target_of s) (\<lambda>tg.
      andthen (get_stack (Some tid) s) (\<lambda>st.
      andthen (inline_stack_at_pc (st_tid st) s) (\<lambda>ds.
      if length ds > 1 \<and> unat (st_inline_height st) < length ds - 1 then
        andthen (rbind (get_pc_file_address (Some (st_tid st)) s) (\<lambda>pc.
          rbind (the_info_at tg pc) (\<lambda>d.
          rbind (di_high_pc d (ds ! (length ds - unat (st_inline_height st) - 1))) (target_to_virt tg)))) (\<lambda>a.
        run_until_address os sp junk a (Some tid) s)
      else andthen (stack_frames st) (\<lambda>fs.
        andthen (rbind (vec_idx fs (unat (current_frame_index st + 1))) (\<lambda>f. read_by_id_as_u64 rid_rip (sf_regs f))) (\<lambda>rip.
        step_out_loop os sp junk n (length fs) (VirtAddr rip) tid s))))))"

subsection \<open>Stepping into an inlined call\<close>

lemma map_of_update_stack:
  "map_of (map (\<lambda>(t, st). (t, if t = tid then f st else st)) xs) t = (if t = tid then map_option f (map_of xs t) else map_of xs t)"
  by (induction xs) auto

lemma get_stack_update_stack:
  "get_stack otid s = Inr st \<Longrightarrow> get_stack otid (update_stack (tid_of otid s) f s) = Inr (f st)"
  by (auto simp: get_stack_def target_of_def update_stack_def update_target_def rbind_eq_Inr map_of_update_stack tid_of_def
      split: option.splits)

lemma update_stack_fields [simp]:
  "pr_os (update_stack tid f s) = pr_os s" "pr_sites (update_stack tid f s) = pr_sites s"
  "pr_threads (update_stack tid f s) = pr_threads s" "pr_current (update_stack tid f s) = pr_current s"
  by (simp_all add: update_stack_def update_target_def)

lemma get_stack_update_thread [simp]: "get_stack otid (update_thread t f s) = get_stack otid s"
  by (simp add: get_stack_def target_of_def tid_of_def update_thread_def cong: option.case_cong)

lemma simulated_step: "is_step (simulated_stop junk)"
  by (simp add: is_step_def simulated_stop_def)

text \<open>
  C32: stepping into an inlined call. Where frames are hidden no instruction is run and nothing of
  the process changes but the noted reason of the stop: one more frame is shown, and it is selected.
\<close>

theorem step_in_shows_inlined_call:
  assumes "get_stack (Some (tid_of otid s)) s = Inr st" and "0 < st_inline_height st" and "stack_frames st = Inr fs"
  shows "\<exists>s' st'. step_in os sp n junk otid s = Some (Inr (simulated_stop junk, s')) \<and> is_step (simulated_stop junk)
     \<and> pr_os s' = pr_os s \<and> pr_sites s' = pr_sites s
     \<and> (\<forall>t. get_registers (Some t) s' = get_registers (Some t) s)
     \<and> get_stack (Some (tid_of otid s)) s' = Inr st'
     \<and> stack_frames st' = Inr (st_frames st ! (unat (st_inline_height st) - 1) # fs)
     \<and> current_frame st' = Inr (st_frames st ! (unat (st_inline_height st) - 1)) \<and> current_frame_index st' = 0"
proof -
  let ?tid = "tid_of otid s" and ?st' = "simulate_inlined_step_in st"
  let ?s1 = "update_stack ?tid simulate_inlined_step_in s"
  let ?s' = "update_thread ?tid (\<lambda>th. th\<lparr>th_reason := Some (simulated_stop junk)\<rparr>) ?s1"
  let ?h = "unat (st_inline_height st)"
  have t: "tid_of (Some ?tid) s = ?tid" by (simp add: tid_of_def)
  have g: "get_stack (Some ?tid) ?s1 = Inr ?st'" using get_stack_update_stack [OF assms(1)] by (simp add: t)
  then have run: "step_in os sp n junk otid s = Some (Inr (simulated_stop junk, ?s'))"
    using assms(1,2) by (simp add: step_in_def Let_def set_thread_reason_def)
  have regs: "get_registers (Some t) ?s' = get_registers (Some t) s" for t
    by (simp add: get_registers_def tid_of_def thread_at_def map_at_def split: option.splits)
  have h: "0 < ?h" using assms(2) by (simp add: word_greater_zero_iff unat_gt_0)
  then have u: "unat (st_inline_height st - 1) = ?h - 1" using assms(2) by (simp add: unat_minus_one)
  have len: "?h \<le> length (st_frames st)" and fs: "fs = drop ?h (st_frames st)"
    using assms(3) by (simp_all add: stack_frames_def split: if_splits)
  have "drop (?h - 1) (st_frames st) = st_frames st ! (?h - 1) # drop ?h (st_frames st)"
    using h len by (metis Cons_nth_drop_Suc Suc_diff_1 diff_less le_neq_implies_less less_imp_diff_less less_one order_less_le_trans)
  then have v: "stack_frames ?st' = Inr (st_frames st ! (?h - 1) # fs)"
    using len fs u by (simp add: stack_frames_def simulate_inlined_step_in_def Let_def)
  have "unat (ucast (st_inline_height st - 1) :: u64) = ?h - 1"
  proof -
    have "unat (st_inline_height st) < 2 ^ LENGTH(32)" by (rule unsigned_less)
    then show ?thesis using u by (simp add: unsigned_ucast_eq take_bit_nat_eq_self)
  qed
  then have "current_frame ?st' = Inr (st_frames st ! (?h - 1))" "current_frame_index ?st' = 0"
    using len h by (simp_all add: current_frame_def current_frame_index_def simulate_inlined_step_in_def Let_def)
  with run regs g v show ?thesis
    by (intro exI [of _ ?s'] exI [of _ ?st']) (simp add: simulated_step)
qed

subsection \<open>Running to an address leaves the sites as they were\<close>

lemma andthen_eq_Inr: "andthen m f = Some (Inr y) \<longleftrightarrow> (\<exists>x. m = Inr x \<and> f x = Some (Inr y))"
  by (cases m) auto

lemma resume_view: "resume os otid s = Inr s' \<Longrightarrow> sites_view s' = sites_view s"
  using step_over_all [of os "[tid_of otid s]" s] by (auto simp: resume_def rbind_eq_Inr Let_def dest!: send_continue_effect)

lemma place_temporary_view:
  assumes "place_temporary os junk a s = Inr (mine, s')"
  shows "if mine then a \<notin> set (site_addrs s) \<and> (\<exists>v. view_addr v = a \<and> sites_view s' = sites_view s @ [v]) else s' = s"
proof (cases "sp_contains_address bs_at_address a (pr_sites s)")
  case False
  let ?b = "mk_breakpoint_site junk None junk a False True"
  let ?s1 = "s\<lparr>pr_sites := pr_sites s @ [?b]\<rparr>"
  from assms False obtain u where r: "mine" "at_site (site_enable os) (length (pr_sites s)) ?s1 = Inr (u, s')"
    by (auto simp: place_temporary_def create_breakpoint_site_def sp_push_def rbind_eq_Inr)
  have v: "sites_view ?s1 = sites_view s @ [site_view ?b]" "length (sites_view s) = length (pr_sites s)"
    by (simp_all add: sites_view_def)
  have "sites_view s' = sites_view s @ [site_view (?b\<lparr>bs_enabled := True\<rparr>)]"
    using at_site_keeps [OF r(2) site_enable_keeps] v by (simp add: list_update_append)
  moreover have "view_addr (site_view (?b\<lparr>bs_enabled := True\<rparr>)) = a"
    by (simp add: view_addr_def site_view_def mk_breakpoint_site_def)
  ultimately have "\<exists>v. view_addr v = a \<and> sites_view s' = sites_view s @ [v]" by blast
  then show ?thesis using r(1) False by (simp add: site.contains_iff site_addrs_def)
qed (use assms in \<open>simp add: place_temporary_def\<close>)

lemma remove_site_view:
  assumes "remove_site_by_address os a s = Inr (u, s')"
  shows "\<exists>k. find_if (\<lambda>v. view_addr v = a) (sites_view s) = Some k \<and> sites_view s' = erase_at k (sites_view s)"
proof -
  obtain k b s1 where k: "find_if (\<lambda>b. bs_at_address b a) (pr_sites s) = Some k" "site_disable os (pr_sites s ! k) s = Inr (b, s1)"
      "s' = s1\<lparr>pr_sites := erase_at k (pr_sites s)\<rparr>"
    using assms by (auto simp: remove_site_by_address_def sp_remove_by_address_def sp_remove_at_def sp_find_by_address_def
        rbind_eq_Inr split: option.splits)
  have "find_if (\<lambda>v. view_addr v = a) (map site_view bs) = find_if (\<lambda>b. bs_at_address b a) bs" for bs
    by (induction bs) (simp_all add: view_addr_def site_view_def bs_at_address_def)
  with k show ?thesis by (simp add: sites_view_def erase_at_subseq_map)
qed

lemma find_if_last: "a \<notin> view_addr ` set vs \<Longrightarrow> view_addr v = a \<Longrightarrow> find_if (\<lambda>v. view_addr v = a) (vs @ [v]) = Some (length vs)"
proof -
  assume a: "a \<notin> view_addr ` set vs" "view_addr v = a"
  then have "find_if (\<lambda>v. view_addr v = a) vs = None" unfolding find_if_None by (metis imageI)
  then show ?thesis using a(2) by (simp add: find_if_append)
qed


subsection \<open>Concrete runs\<close>

definition toy_debugged :: "u64 \<Rightarrow> stack \<Rightarrow> (u64 \<Rightarrow> u8) tprocess" where
  "toy_debugged a st = (toy_at a)\<lparr>pr_target := Some (toy_target\<lparr>tg_threads := [(100, st)]\<rparr>)\<rparr>"

definition toy_stepper :: "(u64 \<Rightarrow> u8) stepper" where
  "toy_stepper = \<lparr>sp_wait = (\<lambda>t s. Some (Inr (stop_with 5, s))), sp_step = (\<lambda>t s. Some (Inr (stop_with 5, s)))\<rparr>"

lemma toy_debugged_stack: "get_stack (Some 100) (toy_debugged a st) = Inr st"
  by (simp add: get_stack_def target_of_def toy_debugged_def tid_of_def map_at_def)

lemma toy_debugged_fields: "pr_current (toy_debugged a st) = 100" "pr_sites (toy_debugged a st) = []"
    "get_pc (Some 100) (toy_debugged a st) = Inr (VirtAddr a)" "thread_at 100 (toy_debugged a st) = thread_at 100 (toy_at a)"
    "pr_policy (toy_debugged a st) = catch_none"
proof -
  show "get_pc (Some 100) (toy_debugged a st) = Inr (VirtAddr a)"
    using toy_at_pc [of a] by (simp add: toy_debugged_def get_pc_def read_reg_def get_registers_def tid_of_def thread_at_def)
qed (simp_all add: toy_debugged_def toy_at_fields thread_at_def,
     simp add: toy_at_def toy_process_def mk_process_def populate_existing_threads_def sample_os_def add_thread_def has_thread_def)

definition toy_frame :: stack_frame where
  "toy_frame = \<lparr>sf_regs = zero_registers, sf_report = VirtAddr 0x555555555100, sf_func = toy_die, sf_inlined = False,
     sf_location = (None, 1)\<rparr>"

definition toy_stack :: stack where
  "toy_stack = \<lparr>st_tid = 100, st_inline_height = 1, st_frames = [toy_frame], st_current = 1\<rparr>"

lemma step_in_shows_inlined_call_witness:
  "\<exists>s' st'. step_in sample_os toy_stepper 5 7 None (toy_debugged 0x555555555100 toy_stack) = Some (Inr (simulated_stop 7, s'))
     \<and> get_stack (Some 100) s' = Inr st' \<and> stack_frames st' = Inr [toy_frame]"
proof -
  let ?s = "toy_debugged 0x555555555100 toy_stack"
  have t: "tid_of None ?s = 100" by (simp add: tid_of_def toy_debugged_fields)
  have "get_stack (Some (tid_of None ?s)) ?s = Inr toy_stack" "0 < st_inline_height toy_stack" "stack_frames toy_stack = Inr []"
      "st_frames toy_stack ! (unat (st_inline_height toy_stack) - 1) = toy_frame"
    by (simp_all add: t toy_debugged_stack) (simp_all add: toy_stack_def stack_frames_def)
  from step_in_shows_inlined_call [OF this(1-3), of sample_os toy_stepper 5 7] this(4) t show ?thesis by auto
qed

lemma sample_site_enable:
  "\<not> bs_enabled b \<Longrightarrow> \<not> bs_hardware b \<Longrightarrow>
     \<exists>w k. site_enable sample_os b s = Inr (b\<lparr>bs_saved := w, bs_enabled := True\<rparr>, s\<lparr>pr_os := k\<rparr>)"
  by (simp add: site_enable_def sample_os_def) (auto simp: request_def)

lemma sample_site_disable:
  "bs_enabled b \<Longrightarrow> \<not> bs_hardware b \<Longrightarrow> \<exists>k. site_disable sample_os b s = Inr (b\<lparr>bs_enabled := False\<rparr>, s\<lparr>pr_os := k\<rparr>)"
  by (simp add: site_disable_def sample_os_def) (auto simp: request_def)

lemma pc_of_thread:
  "thread_at t s' = Inr th' \<Longrightarrow> thread_at t s = Inr th \<Longrightarrow> th_regs th' = th_regs th \<Longrightarrow> get_pc (Some t) s' = get_pc (Some t) s"
  by (simp add: get_pc_def read_reg_def get_registers_def tid_of_def)


end
