(* ===== verification/KD_Loader.thy ===== *)
theory KD_Loader
  imports KD_Stepping
begin

text \<open>
  Starting a session and following the dynamic linker (\<open>src/target.cpp\<close>): loading the files of
  the program, the list of loaded libraries the linker publishes, the hit handlers that reload it,
  and the names of functions.
\<close>

unbundle bit_operations_syntax

subsection \<open>Loading a file\<close>

text \<open>
  The constructor of \<open>elf\<close> parses the file and then builds its \<open>dwarf\<close>, which parses the
  units and the header of the frame table. The load address is set right after; nothing before
  depends on it.
\<close>

definition load_object :: "env \<Rightarrow> elf_id \<Rightarrow> string \<Rightarrow> (elf \<Rightarrow> virt_addr) \<Rightarrow> debug_info result" where
  "load_object e n p bias =
     rbind (elf_open (en_files e) (en_demangle e) n p) (\<lambda>f.
     rbind (at_fuel (parse_compile_units (en_fuel e) (en_root e) \<lparr>dw_elf = f, dw_units = []\<rparr>)) (\<lambda>us.
     rbind (parse_call_frame_information f) (\<lambda>hdr.
     Inr (debug_info_of e (notify_loaded (bias f) f) us hdr))))"

definition AT_ENTRY :: int where "AT_ENTRY = 9"

text \<open>\<open>auxv[AT_ENTRY]\<close>: the map inserts 0 for a missing key.\<close>

definition auxv_entry :: "'k os \<Rightarrow> ('k, 't) process \<Rightarrow> u64 result" where
  "auxv_entry os s = (case get_auxv os s of None \<Rightarrow> Inl (UB ''loop without end'')
     | Some m \<Rightarrow> Inr (case m AT_ENTRY of None \<Rightarrow> 0 | Some v \<Rightarrow> v))"

definition create_loaded_elf :: "env \<Rightarrow> 'k os \<Rightarrow> string \<Rightarrow> ('k, 't) process \<Rightarrow> debug_info result" where
  "create_loaded_elf e os p s =
     rbind (auxv_entry os s) (\<lambda>entry. load_object e 0 p (\<lambda>f. VirtAddr (entry - e_entry (e_header f))))"

text \<open>The constructor of \<open>target\<close> and \<open>set_target\<close>.\<close>

definition mk_target :: "debug_info \<Rightarrow> 'k tprocess \<Rightarrow> 'k tprocess" where
  "mk_target d s = s\<lparr>pr_target := Some \<lparr>tg_elves = [d], tg_main = e_id (di_elf d),
     tg_threads = map (\<lambda>(t, _). (t, mk_stack t)) (pr_threads s), tg_breakpoints = [], tg_next_id = 0, tg_next_handle = 0,
     tg_rendezvous = virt_addr_default\<rparr>\<rparr>"

subsection \<open>The dynamic linker's list\<close>

record r_debug =
  r_map :: u64
  r_brk :: u64

definition r_debug_of_bytes :: "u8 list \<Rightarrow> r_debug" where
  "r_debug_of_bytes bs = \<lparr>r_map = from_bytes (bytes_at 8 8 bs), r_brk = from_bytes (bytes_at 16 8 bs)\<rparr>"

record link_map =
  l_addr :: u64
  l_name :: u64
  l_next :: u64

definition link_map_of_bytes :: "u8 list \<Rightarrow> link_map" where
  "link_map_of_bytes bs = \<lparr>l_addr = from_bytes (bytes_at 0 8 bs), l_name = from_bytes (bytes_at 8 8 bs),
     l_next = from_bytes (bytes_at 24 8 bs)\<rparr>"

definition read_dynamic_linker_rendezvous :: "'k os \<Rightarrow> 'k tprocess \<Rightarrow> r_debug option result" where
  "read_dynamic_linker_rendezvous os s =
     rbind (target_of s) (\<lambda>tg.
     if addr (tg_rendezvous tg) = 0 then Inr None
     else rbind (read_memory os (tg_rendezvous tg) 40 s) (\<lambda>bs. Inr (Some (r_debug_of_bytes bs))))"

text \<open>
  A name is copied from 4096 bytes of the process, up to its terminator; without one the
  constructor of the path reads on beyond the vector.
\<close>

definition path_of_bytes :: "u8 list \<Rightarrow> string result" where
  "path_of_bytes bs = (if 0 \<in> set bs then Inr (map (\<lambda>b. char_of (unat b)) (takeWhile (\<lambda>b. b \<noteq> 0) bs)) else Inl (UB ''read beyond a vector''))"

definition read_link_map :: "'k os \<Rightarrow> u64 \<Rightarrow> 'k tprocess \<Rightarrow> (link_map \<times> string) result" where
  "read_link_map os a s =
     rbind (read_memory os (VirtAddr a) 40 s) (\<lambda>bs.
     let m = link_map_of_bytes bs in
     rbind (read_memory os (VirtAddr (l_name m)) 4096 s) (\<lambda>nbs.
     rbind (path_of_bytes nbs) (\<lambda>name. Inr (m, name))))"

text \<open>
  The code compares with \<open>linux.vdso.so.1\<close>, but writes the copy of the kernel's library to a
  file named \<open>linux-vdso.so.1\<close>.
\<close>

definition vdso_name :: string where "vdso_name = ''linux.vdso.so.1''"
definition vdso_file :: string where "vdso_file = ''linux-vdso.so.1''"

text \<open>The bytes \<open>dump_vdso\<close> writes; \<open>with_dump\<close> is the file system once the file is there.\<close>

definition vdso_bytes :: "'k os \<Rightarrow> u64 \<Rightarrow> 'k tprocess \<Rightarrow> u8 list result" where
  "vdso_bytes os a s =
     rbind (read_memory os (VirtAddr a) sizeof_ehdr s) (\<lambda>hb.
     let h = ehdr_of_bytes hb; n = unat (e_shoff h + of_nat (unat (e_shentsize h) * unat (e_shnum h))) in
     read_memory os (VirtAddr a) n s)"

definition with_dump :: "string \<Rightarrow> nat \<Rightarrow> ptr \<Rightarrow> u8 list \<Rightarrow> file_os \<Rightarrow> file_os" where
  "with_dump p fd base bs fo = \<lparr>os_open = (os_open fo)(p \<mapsto> fd), os_fstat_size = (os_fstat_size fo)(fd \<mapsto> length bs),
     os_mmap = (\<lambda>fd' n. if fd' = fd then Some \<lparr>ibase = base, ibytes = bs\<rparr> else os_mmap fo fd' n)\<rparr>"

definition dump_vdso :: "env \<Rightarrow> 'k os \<Rightarrow> u64 \<Rightarrow> 'k tprocess \<Rightarrow> (string \<times> env) result" where
  "dump_vdso e os a s =
     rbind (vdso_bytes os a s) (\<lambda>bs.
     let p = en_tmp_dir e @ ''/'' @ vdso_file in
     Inr (p, e\<lparr>en_files := with_dump p (en_tmp_fd e) (en_tmp_base e) bs (en_files e)\<rparr>))"

definition already_loaded :: "target \<Rightarrow> string \<Rightarrow> bool" where
  "already_loaded tg name =
     (if name = vdso_name then get_elf_by_filename (map di_elf (tg_elves tg)) name \<noteq> None
      else get_elf_by_path (map di_elf (tg_elves tg)) name \<noteq> None)"

definition push_elf :: "debug_info \<Rightarrow> 'k tprocess \<Rightarrow> 'k tprocess" where
  "push_elf d = update_target (\<lambda>tg. tg\<lparr>tg_elves := tg_elves tg @ [d]\<rparr>)"

text \<open>One entry of the list; the identity of a new file is the number of files before it.\<close>

definition load_entry :: "env \<Rightarrow> 'k os \<Rightarrow> link_map \<Rightarrow> string \<Rightarrow> 'k tprocess \<Rightarrow> 'k tprocess result" where
  "load_entry e os m name s =
     rbind (target_of s) (\<lambda>tg.
     if name = [] \<or> already_loaded tg name then Inr s
     else rbind (if name = vdso_name then dump_vdso e os (l_addr m) s else Inr (name, e)) (\<lambda>(p, e').
       rbind (load_object e' (length (tg_elves tg)) p (\<lambda>_. VirtAddr (l_addr m))) (\<lambda>d. Inr (push_elf d s))))"

fun reload_loop :: "env \<Rightarrow> 'k os \<Rightarrow> nat \<Rightarrow> u64 \<Rightarrow> 'k tprocess \<Rightarrow> 'k tprocess result" where
  "reload_loop e os 0 a s = (if a = 0 then Inr s else Inl (UB ''loop without end''))"
| "reload_loop e os (Suc n) a s =
     (if a = 0 then Inr s
      else rbind (read_link_map os a s) (\<lambda>(m, name). rbind (load_entry e os m name s) (reload_loop e os n (l_next m))))"

definition resolve_all :: "'k os \<Rightarrow> u32 \<Rightarrow> 'k tprocess \<Rightarrow> 'k tprocess result" where
  "resolve_all os junk s =
     rbind (target_of s) (\<lambda>tg. foldR (\<lambda>k. at_breakpoint (resolve os junk) k) [0..<length (tg_breakpoints tg)] s)"

definition reload_dynamic_libraries :: "env \<Rightarrow> 'k os \<Rightarrow> 'k tprocess \<Rightarrow> 'k tprocess result" where
  "reload_dynamic_libraries e os s =
     rbind (read_dynamic_linker_rendezvous os s) (\<lambda>debug. case debug of
       None \<Rightarrow> Inr s
     | Some r \<Rightarrow> rbind (reload_loop e os (en_fuel e) (r_map r) s) (resolve_all os (en_junk e)))"

subsection \<open>The rendezvous\<close>

definition DT_DEBUG :: u64 where "DT_DEBUG = 21"

text \<open>The entries of \<open>.dynamic\<close>: a tag and a pointer each; the copy needs room for every byte.\<close>

definition dynamic_entries :: "u8 list \<Rightarrow> (u64 \<times> u64) list result" where
  "dynamic_entries bs = (if 16 * (length bs div 16) < length bs then Inl (UB ''write beyond a vector'')
     else Inr (map (\<lambda>c. (from_bytes (bytes_at 0 8 c), from_bytes (bytes_at 8 8 c))) (chunks 16 (length bs div 16) bs)))"

definition use_dynamic_entry :: "env \<Rightarrow> 'k os \<Rightarrow> u64 \<times> u64 \<Rightarrow> 'k tprocess \<Rightarrow> 'k tprocess result" where
  "use_dynamic_entry e os = (\<lambda>(tag, p) s.
     if tag \<noteq> DT_DEBUG then Inr s
     else rbind (reload_dynamic_libraries e os (update_target (\<lambda>tg. tg\<lparr>tg_rendezvous := VirtAddr p\<rparr>) s)) (\<lambda>s1.
       rbind (read_dynamic_linker_rendezvous os s1) (\<lambda>debug. case debug of
         None \<Rightarrow> Inl (UB ''empty optional'')
       | Some r \<Rightarrow> rbind (create_address_breakpoint os (en_junk e) (VirtAddr (r_brk r)) False True s1) (\<lambda>(k, s2).
           at_breakpoint (bp_enable os) k (install_hit_handler ReloadLibraries k s2)))))"

definition main_info :: "target \<Rightarrow> debug_info result" where
  "main_info tg = (case find (\<lambda>d. e_id (di_elf d) = tg_main tg) (tg_elves tg) of None \<Rightarrow> Inl (UB ''null file'') | Some d \<Rightarrow> Inr d)"

definition resolve_dynamic_linker_rendezvous :: "env \<Rightarrow> 'k os \<Rightarrow> 'k tprocess \<Rightarrow> 'k tprocess result" where
  "resolve_dynamic_linker_rendezvous e os s =
     rbind (target_of s) (\<lambda>tg.
     if addr (tg_rendezvous tg) \<noteq> 0 then Inr s
     else rbind (main_info tg) (\<lambda>d. case get_section (di_elf d) (ascii ''.dynamic'') of
         None \<Rightarrow> Inl BadOptionalAccess
       | Some sect \<Rightarrow>
           rbind (target_to_virt tg (mk_file_addr (e_id (di_elf d)) (sh_addr sect))) (\<lambda>start.
           rbind (read_memory os start (unat (sh_size sect)) s) (\<lambda>bs.
           rbind (dynamic_entries bs) (\<lambda>es. foldR (use_dynamic_entry e os) es s)))))"

subsection \<open>Callbacks of the process\<close>

text \<open>
  The hit handlers. The one installed at the entry point has no return statement; it is read as
  the other one, which returns true.
\<close>

definition notify_hit :: "env \<Rightarrow> 'k os \<Rightarrow> int \<Rightarrow> (bool, 'k, target) op" where
  "notify_hit e os p s =
     rbind (target_of s) (\<lambda>tg. case find (\<lambda>bp. bp_handle bp = p) (tg_breakpoints tg) of
       None \<Rightarrow> Inl (UB ''dangling breakpoint'')
     | Some bp \<Rightarrow> (case bp_on_hit bp of
         NoHandler \<Rightarrow> Inr (False, s)
       | ResolveRendezvous \<Rightarrow> rbind (resolve_dynamic_linker_rendezvous e os s) (\<lambda>s'. Inr (True, s'))
       | ReloadLibraries \<Rightarrow> rbind (reload_dynamic_libraries e os s) (\<lambda>s'. Inr (True, s'))))"

definition notify_thread_lifecycle_event :: "stop_reason \<Rightarrow> 'k tprocess \<Rightarrow> 'k tprocess result" where
  "notify_thread_lifecycle_event r s =
     rbind (target_of s) (\<lambda>tg.
     if sr_reason r = Stopped then
       if \<not> has_thread (sr_tid r) s then Inl (UB ''thread state without registers'')
       else Inr (update_target (\<lambda>tg. if sr_tid r \<in> fst ` set (tg_threads tg) then tg
              else tg\<lparr>tg_threads := tg_threads tg @ [(sr_tid r, mk_stack (sr_tid r))]\<rparr>) s)
     else Inr (update_target (\<lambda>tg. tg\<lparr>tg_threads := filter (\<lambda>(t, _). t \<noteq> sr_tid r) (tg_threads tg)\<rparr>) s))"

text \<open>\<open>report_thread_lifecycle_event\<close> is declared without a body and stays a parameter.\<close>

definition target_hooks :: "env \<Rightarrow> 'k os \<Rightarrow> (stop_reason \<Rightarrow> 'k tprocess \<Rightarrow> 'k tprocess result) \<Rightarrow> ('k, target) hooks" where
  "target_hooks e os report = \<lparr>hk_hit = notify_hit e os, hk_stop = notify_stop os (en_fuel e), hk_lifecycle = report\<rparr>"

subsection \<open>Launching and attaching\<close>

text \<open>
  \<open>target::launch\<close> once the process runs: a breakpoint at the entry point finds the linker.
  \<open>target::attach\<close> opens \<open>/proc\<close> itself, not a file in it.
\<close>

definition target_launch :: "env \<Rightarrow> 'k os \<Rightarrow> string \<Rightarrow> 'k tprocess \<Rightarrow> 'k tprocess result" where
  "target_launch e os p s =
     rbind (create_loaded_elf e os p s) (\<lambda>d.
     let s1 = mk_target d s in
     rbind (auxv_entry os s1) (\<lambda>entry.
     rbind (create_address_breakpoint os (en_junk e) (VirtAddr entry) False True s1) (\<lambda>(k, s2).
     at_breakpoint (bp_enable os) k (install_hit_handler ResolveRendezvous k s2))))"

definition target_attach :: "env \<Rightarrow> 'k os \<Rightarrow> int \<Rightarrow> 'k \<Rightarrow> 'k tprocess result" where
  "target_attach e os pid k =
     rbind (process_attach os pid k) (\<lambda>s.
     rbind (create_loaded_elf e os ''/proc'' s) (\<lambda>d. resolve_dynamic_linker_rendezvous e os (mk_target d s)))"

subsection \<open>Names of functions\<close>

text \<open>
  The symbol is dereferenced for its type and its name. The name is put behind that of the file
  when it is empty; when there is one the answer is empty.
\<close>

definition function_name_at_address :: "virt_addr \<Rightarrow> 'k tprocess \<Rightarrow> u8 list result" where
  "function_name_at_address a s =
     rbind (target_of s) (\<lambda>tg.
     let fa = target_to_file tg a in
     rbind (the_info_at tg fa) (\<lambda>d.
     rbind (di_function_at d fa) (\<lambda>func.
     rbind (case func of None \<Rightarrow> Inr None | Some x \<Rightarrow> di_name d x) (\<lambda>name.
     rbind (case name of Some n \<Rightarrow> Inr n
            | None \<Rightarrow> rbind (get_symbol_containing_address (di_elf d) fa) (\<lambda>sy. case sy of
                None \<Rightarrow> Inr []
              | Some i \<Rightarrow> let x = e_symtab (di_elf d) ! i in
                  if elf64_st_type (st_info x) = STT_FUNC then get_string (di_elf d) (unat (st_name x)) else Inr [])) (\<lambda>func_name.
     Inr (if func_name = [] then ascii (path_filename (e_path (di_elf d)) @ [CHR 0x60]) @ func_name else []))))))"

subsection \<open>Loading keeps the invariant of the target\<close>

lemma target_inv_update:
  assumes "target_inv s" and "\<And>tg. tg_breakpoints (f tg) = tg_breakpoints tg \<and> tg_next_handle (f tg) = tg_next_handle tg"
  shows "target_inv (update_target f s)"
  using assms by (auto simp: target_inv_def)

lemma load_entry_inv: "load_entry e os m name s = Inr s' \<Longrightarrow> target_inv s \<Longrightarrow> target_inv s'"
  by (auto simp: load_entry_def rbind_eq_Inr push_elf_def split: if_splits intro!: target_inv_update)

lemma reload_loop_inv: "reload_loop e os n a s = Inr s' \<Longrightarrow> target_inv s \<Longrightarrow> target_inv s'"
proof (induction e os n a s rule: reload_loop.induct)
  case (2 e os n a s)
  show ?case
  proof (cases "a = 0")
    case False
    with "2.prems" obtain m name s1 where r: "read_link_map os a s = Inr (m, name)" "load_entry e os m name s = Inr s1"
        "reload_loop e os n (l_next m) s1 = Inr s'"
      by (auto simp: rbind_eq_Inr)
    show ?thesis using "2.IH" [OF False r(1) refl r(2,3)] load_entry_inv [OF r(2) "2.prems"(2)] by blast
  qed (use "2.prems" in simp)
qed (simp split: if_splits)

lemma resolve_all_inv: "resolve_all os junk s = Inr s' \<Longrightarrow> target_inv s \<Longrightarrow> target_inv s'"
  by (auto simp: resolve_all_def rbind_eq_Inr elim!: foldR_invariant [where P = target_inv] intro: resolved.preserves)

lemma reload_inv: "reload_dynamic_libraries e os s = Inr s' \<Longrightarrow> target_inv s \<Longrightarrow> target_inv s'"
  by (auto simp: reload_dynamic_libraries_def rbind_eq_Inr split: option.splits dest: reload_loop_inv resolve_all_inv)

lemma use_dynamic_entry_inv:
  assumes "use_dynamic_entry e os x s = Inr s'" and "target_inv s"
  shows "target_inv s'"
proof (cases x)
  case (Pair tag p)
  show ?thesis
  proof (cases "tag = DT_DEBUG")
    case True
    then obtain s1 k s2 and debug :: r_debug where r: "reload_dynamic_libraries e os (update_target (\<lambda>tg. tg\<lparr>tg_rendezvous := VirtAddr p\<rparr>) s) = Inr s1"
        "create_address_breakpoint os (en_junk e) (VirtAddr (r_brk debug)) False True s1 = Inr (k, s2)"
        "at_breakpoint (bp_enable os) k (install_hit_handler ReloadLibraries k s2) = Inr s'"
      using assms(1) Pair by (auto simp: use_dynamic_entry_def rbind_eq_Inr split: option.splits)
    have "target_inv s1" by (rule reload_inv [OF r(1)]) (auto intro: target_inv_update assms(2))
    then have "target_inv s2" using create_breakpoint_inv r(2) unfolding create_address_breakpoint_def by blast
    then show ?thesis using enabled.preserves [OF r(3)] install_hit_handler_inv by blast
  next
    case False
    with assms Pair show ?thesis by (simp add: use_dynamic_entry_def)
  qed
qed

lemma use_dynamic_entries_inv: "foldR (use_dynamic_entry e os) xs s = Inr s' \<Longrightarrow> target_inv s \<Longrightarrow> target_inv s'"
  by (erule foldR_invariant) (auto intro: use_dynamic_entry_inv)

lemma resolve_rendezvous_inv: "resolve_dynamic_linker_rendezvous e os s = Inr s' \<Longrightarrow> target_inv s \<Longrightarrow> target_inv s'"
  by (auto simp: resolve_dynamic_linker_rendezvous_def rbind_eq_Inr split: if_splits option.splits dest: use_dynamic_entries_inv)

text \<open>
  C14: whatever handler a hit runs, the invariant of the target survives: the libraries that
  appear, the sites that are set in them and the breakpoint on the linker included.
\<close>

theorem hit_handlers_keep_invariant:
  assumes "notify_hit e os p s = Inr (again, s')" and "target_inv s"
  shows "target_inv s'"
proof -
  obtain tg bp where "target_of s = Inr tg" "find (\<lambda>bp. bp_handle bp = p) (tg_breakpoints tg) = Some bp"
    using assms(1) by (auto simp: notify_hit_def rbind_eq_Inr split: option.splits)
  with assms show ?thesis
    by (cases "bp_on_hit bp") (auto simp: notify_hit_def rbind_eq_Inr dest: resolve_rendezvous_inv reload_inv)
qed

text \<open>
  C17: a launched program has one breakpoint, at its entry point; it is internal, switched on, and
  looks for the dynamic linker when it is hit. Its number, -1, is that of every internal breakpoint.
\<close>

theorem launch_stops_at_entry:
  assumes "target_launch e os p s = Inr s'" and "pr_sites s = []" and "auxv_entry os s = Inr entry"
  shows "target_inv s' \<and> (\<exists>tg bp b. target_of s' = Inr tg \<and> tg_breakpoints tg = [bp] \<and> pr_sites s' = [b]
     \<and> bp_on_hit bp = ResolveRendezvous \<and> bp_enabled bp \<and> bp_internal bp \<and> bp_id bp = - 1 \<and> bp_sites bp = [VirtAddr entry]
     \<and> bs_address b = VirtAddr entry \<and> bs_parent b = Some (bp_handle bp) \<and> bs_enabled b
     \<and> map fst (tg_threads tg) = map fst (pr_threads s'))"
proof -
  obtain d k s2 where r: "create_loaded_elf e os p s = Inr d"
      "create_address_breakpoint os (en_junk e) (VirtAddr entry) False True (mk_target d s) = Inr (k, s2)"
      "at_breakpoint (bp_enable os) k (install_hit_handler ResolveRendezvous k s2) = Inr s'"
    using assms(1,3) by (auto simp: target_launch_def rbind_eq_Inr Let_def auxv_entry_def get_auxv_def mk_target_def)
  let ?s1 = "mk_target d s"
  have "target_inv (mk_target d s)" using assms(2) by (simp add: target_inv_def mk_target_def site_addrs_def)
  then have "target_inv s2" using create_breakpoint_inv r(2) unfolding create_address_breakpoint_def by blast
  then have i: "target_inv s'" using enabled.preserves [OF r(3)] install_hit_handler_inv by blast
  define t0 where "t0 = \<lparr>tg_elves = [d], tg_main = e_id (di_elf d), tg_threads = map (\<lambda>(t, _). (t, mk_stack t)) (pr_threads s),
     tg_breakpoints = [], tg_next_id = 0, tg_next_handle = 0, tg_rendezvous = virt_addr_default\<rparr>"
  have s1: "mk_target d s = s\<lparr>pr_target := Some t0\<rparr>" by (simp add: mk_target_def t0_def)
  let ?m = "mk_breakpoint (AddressBp (VirtAddr entry)) False True t0"
  let ?s1 = "update_target (\<lambda>tg. tg\<lparr>tg_next_id := tg_next_id tg, tg_next_handle := tg_next_handle tg + 1\<rparr>) (s\<lparr>pr_target := Some t0\<rparr>)"
  obtain bp s3 where c: "push_site os (en_junk e) 1 (VirtAddr entry) ?m ?s1 = Inr (bp, s3)"
      "k = 0" "s2 = update_target (\<lambda>tg. tg\<lparr>tg_breakpoints := sp_push bp (tg_breakpoints tg)\<rparr>) s3"
    using r(2) unfolding s1 create_address_breakpoint_def create_breakpoint_def
    by (auto simp: target_of_def rbind_eq_Inr Let_def resolve_def mk_breakpoint_def t0_def)
  let ?b0 = "mk_breakpoint_site (en_junk e) (Some 0) 1 (VirtAddr entry) False True"
  let ?bp = "?m\<lparr>bp_sites := [VirtAddr entry], bp_next_site := 1, bp_on_hit := ResolveRendezvous\<rparr>"
  have m: "bp_handle ?m = 0" "\<not> bp_hardware ?m" "bp_internal ?m" "\<not> bp_enabled ?m" "bp_next_site ?m = 1" "bp_sites ?m = []" "bp_id ?m = - 1"
    by (simp_all add: mk_breakpoint_def t0_def)
  have c': "bp = ?m\<lparr>bp_sites := [VirtAddr entry], bp_next_site := 1\<rparr>" "s3 = ?s1\<lparr>pr_sites := [?b0]\<rparr>"
    using c(1) assms(2) m by (auto simp: push_site_def create_breakpoint_site_def rbind_eq_Inr update_target_def sp_push_def split: if_splits)
  let ?t2 = "t0\<lparr>tg_next_handle := 1, tg_breakpoints := [?bp]\<rparr>"
  have h: "install_hit_handler ResolveRendezvous k s2 = s\<lparr>pr_target := Some ?t2, pr_sites := [?b0]\<rparr>" (is "_ = ?s4")
    by (simp add: install_hit_handler_def c(2,3) c' update_target_def sp_push_def) (simp add: t0_def)
  have so: "site_of 0 (VirtAddr entry) [?b0] = Inr 0" by (simp add: site_of_def mk_breakpoint_site_def)
  obtain b1 s5 where e: "site_enable os ?b0 ?s4 = Inr (b1, s5)"
    and s': "s' = update_target (\<lambda>tg. tg\<lparr>tg_breakpoints := (tg_breakpoints tg)[0 := ?bp\<lparr>bp_enabled := True\<rparr>]\<rparr>) (s5\<lparr>pr_sites := (pr_sites s5)[0 := b1]\<rparr>)"
    using r(3) [unfolded h, unfolded c(2)] m so
    by (auto simp: at_breakpoint_def target_of_def rbind_eq_Inr bp_enable_def for_each_site_def at_site_def)
  have k5: "keeps ?s4 s5" and v: "site_view b1 = site_view (?b0\<lparr>bs_enabled := True\<rparr>)" using site_enable_keeps [OF e] by simp_all
  then have t5: "pr_target s5 = Some ?t2" "pr_sites s5 = [?b0]" "map thread_view (pr_threads s5) = map thread_view (pr_threads s)"
    by (simp_all add: keeps_def shape_def)
  have "map fst (map thread_view xs) = map fst xs" for xs by (simp add: thread_view_def comp_def case_prod_beta)
  then have f: "map fst (pr_threads s5) = map fst (pr_threads s)" using t5(3) by metis
  have "map fst (tg_threads ?t2) = map fst (pr_threads s)" by (simp add: t0_def comp_def case_prod_beta)
  moreover have "target_of s' = Inr (?t2\<lparr>tg_breakpoints := [?bp\<lparr>bp_enabled := True\<rparr>]\<rparr>)" "pr_sites s' = [b1]" "pr_threads s' = pr_threads s5"
    by (simp_all add: s' target_of_def t5) (simp_all add: update_target_def t5)
  moreover have "bs_address b1 = VirtAddr entry" "bs_parent b1 = Some 0" "bs_enabled b1"
    using v by (simp_all add: site_view_def mk_breakpoint_site_def)
  ultimately show ?thesis using i m f by simp
qed

subsection \<open>What the list of libraries does to the list of files\<close>

text \<open>The list in the memory of the process, from an address on: each entry with its name.\<close>

fun linked :: "'k os \<Rightarrow> 'k tprocess \<Rightarrow> u64 \<Rightarrow> (link_map \<times> string) list \<Rightarrow> bool" where
  "linked os s a [] \<longleftrightarrow> a = 0"
| "linked os s a ((m, name) # es) \<longleftrightarrow> a \<noteq> 0 \<and> read_link_map os a s = Inr (m, name) \<and> linked os s (l_next m) es"

text \<open>Seen from outside, loading an entry adds a path unless it is there or the name is empty.\<close>

definition vdso_path :: "env \<Rightarrow> string" where
  "vdso_path e = en_tmp_dir e @ ''/'' @ vdso_file"

definition add_library :: "env \<Rightarrow> string list \<Rightarrow> string \<Rightarrow> string list" where
  "add_library e ps name =
     (if name = [] then ps
      else if name = vdso_name then (if vdso_name \<in> path_filename ` set ps then ps else ps @ [vdso_path e])
      else if name \<in> set ps then ps else ps @ [name])"

definition target_paths :: "target \<Rightarrow> string list" where
  "target_paths tg = map (\<lambda>d. e_path (di_elf d)) (tg_elves tg)"

lemma elf_open_path: "elf_open os demangle n p = Inr f \<Longrightarrow> e_path f = p \<and> e_id f = n"
  by (auto simp: elf_open_def elf_parse_def build_symbol_maps_def rbind_eq_Inr Let_def split: option.splits)

lemma load_object_fields:
  "load_object e n p bias = Inr d \<Longrightarrow> e_path (di_elf d) = p \<and> e_id (di_elf d) = n \<and> (\<exists>f. e_bias (di_elf d) = bias f)"
  by (auto simp: load_object_def rbind_eq_Inr debug_info_of_def Let_def notify_loaded_def dest: elf_open_path)

lemma already_loaded_iff: "already_loaded tg name \<longleftrightarrow>
    (if name = vdso_name then name \<in> path_filename ` set (target_paths tg) else name \<in> set (target_paths tg))"
  by (simp add: already_loaded_def get_elf_by_filename_def get_elf_by_path_def find_None_iff target_paths_def image_image image_iff)
    (auto simp: eq_commute)

lemma load_entry_paths:
  assumes "load_entry e os m name s = Inr s'" and "target_of s = Inr tg"
  shows "\<exists>tg'. s' = update_target (\<lambda>_. tg') s \<and> target_of s' = Inr tg' \<and> target_paths tg' = add_library e (target_paths tg) name
     \<and> (\<exists>ds. tg' = tg\<lparr>tg_elves := tg_elves tg @ ds\<rparr> \<and> (\<forall>d\<in>set ds. e_bias (di_elf d) = VirtAddr (l_addr m)))"
proof -
  have t: "pr_target s = Some tg" using assms(2) by (simp add: target_of_def split: option.splits)
  show ?thesis
  proof (cases "name = [] \<or> already_loaded tg name")
    case True
    then have "s' = s" "add_library e (target_paths tg) name = target_paths tg"
      using assms by (auto simp: load_entry_def add_library_def already_loaded_iff)
    then show ?thesis using assms(2) t by (intro exI [of _ tg]) (auto simp: update_target_def intro!: exI [of _ "[]"])
  next
    case False
    then obtain p e' d where r: "(if name = vdso_name then dump_vdso e os (l_addr m) s else Inr (name, e)) = Inr (p, e')"
        "load_object e' (length (tg_elves tg)) p (\<lambda>_. VirtAddr (l_addr m)) = Inr d" "s' = push_elf d s"
      using assms by (auto simp: load_entry_def rbind_eq_Inr)
    then have p: "p = (if name = vdso_name then vdso_path e else name)"
      by (auto simp: dump_vdso_def rbind_eq_Inr Let_def vdso_path_def split: if_splits)
    let ?t = "tg\<lparr>tg_elves := tg_elves tg @ [d]\<rparr>"
    have paths: "target_paths ?t = target_paths tg @ [e_path (di_elf d)]" by (simp add: target_paths_def)
    have "target_paths ?t = add_library e (target_paths tg) name"
      using False load_object_fields [OF r(2)] p by (auto simp: paths add_library_def already_loaded_iff split: if_splits)
    then show ?thesis using r(3) t load_object_fields [OF r(2)]
      by (intro exI [of _ ?t]) (auto simp: push_elf_def update_target_def target_of_def intro!: exI [of _ "[d]"])
  qed
qed

lemma linked_update_target [simp]: "linked os (update_target f s) a es = linked os s a es"
  by (induction os s a es rule: linked.induct) (auto simp: read_link_map_def read_memory_def update_target_def)

lemma target_of_def': "target_of s = Inr tg \<longleftrightarrow> pr_target s = Some tg"
  by (simp add: target_of_def split: option.splits)

lemma update_target_twice [simp]: "update_target f (update_target g s) = update_target (\<lambda>tg. f (g tg)) s"
  by (simp add: update_target_def option.map_comp comp_def)

lemma load_entry_grows:
  assumes "load_entry e os m name s = Inr s'" and "target_of s = Inr tg"
  obtains tg' ds where "s' = update_target (\<lambda>_. tg') s" "tg' = tg\<lparr>tg_elves := tg_elves tg @ ds\<rparr>" "target_of s' = Inr tg'"
    "target_paths tg' = add_library e (target_paths tg) name" "\<forall>d\<in>set ds. e_bias (di_elf d) = VirtAddr (l_addr m)"
  using load_entry_paths [OF assms] that by blast

text \<open>A list that ends is walked entry by entry, with as much fuel as it has entries.\<close>

lemma reload_loop_walks:
  assumes "linked os s a es" and "length es \<le> n" and "target_of s = Inr tg"
  shows "reload_loop e os n a s = foldR (\<lambda>(m, name). load_entry e os m name) es s"
  using assms
proof (induction es arbitrary: n a s tg)
  case Nil
  then show ?case by (cases n) simp_all
next
  case (Cons x es)
  obtain m name where x: "x = (m, name)" by (cases x)
  obtain k where n: "n = Suc k" using Cons.prems(2) by (cases n) simp_all
  show ?case
  proof (cases "load_entry e os m name s")
    case (Inr s1)
    obtain tg1 where s1: "s1 = update_target (\<lambda>_. tg1) s" "target_of s1 = Inr tg1"
      using load_entry_grows [OF Inr Cons.prems(3)] by metis
    then have "linked os s1 (l_next m) es" using Cons.prems(1) x by simp
    then have "reload_loop e os k (l_next m) s1 = foldR (\<lambda>(m, name). load_entry e os m name) es s1"
      using Cons.IH Cons.prems(2) n s1(2) by simp
    then show ?thesis using Cons.prems(1) x n Inr by simp
  qed (use Cons.prems(1) x n in simp)
qed

text \<open>
  C13: reading the linker's list refines adding one name after the other. The walk of a list in
  the memory of the process ends, with as much fuel as the list has entries, and leaves the process
  alone; the files loaded are those before it followed by the libraries that were missing, in the
  order of the list, each at the address its entry gives.
\<close>

theorem reload_adds_missing_libraries:
  assumes "linked os s a es" and "length es \<le> n" and "target_of s = Inr tg"
  shows "reload_loop e os n a s = foldR (\<lambda>(m, name). load_entry e os m name) es s
     \<and> (\<forall>s'. reload_loop e os n a s = Inr s' \<longrightarrow> (\<exists>tg' ds. s' = update_target (\<lambda>_. tg') s \<and> tg' = tg\<lparr>tg_elves := tg_elves tg @ ds\<rparr>
          \<and> target_paths tg' = foldl (add_library e) (target_paths tg) (map snd es)
          \<and> (\<forall>d\<in>set ds. e_bias (di_elf d) \<in> (\<lambda>(m, _). VirtAddr (l_addr m)) ` set es)))"
proof -
  have "\<exists>tg' ds. s' = update_target (\<lambda>_. tg') s \<and> tg' = tg\<lparr>tg_elves := tg_elves tg @ ds\<rparr>
          \<and> target_paths tg' = foldl (add_library e) (target_paths tg) (map snd es)
          \<and> (\<forall>d\<in>set ds. e_bias (di_elf d) \<in> (\<lambda>(m, _). VirtAddr (l_addr m)) ` set es)"
    if "foldR (\<lambda>(m, name). load_entry e os m name) es s = Inr s'" for s'
    using that assms(3)
  proof (induction es arbitrary: s tg)
    case Nil
    then show ?case by (intro exI [of _ tg] exI [of _ "[]"]) (auto simp: target_of_def' update_target_def)
  next
    case (Cons x es)
    obtain m name s1 where r: "x = (m, name)" "load_entry e os m name s = Inr s1"
        "foldR (\<lambda>(m, name). load_entry e os m name) es s1 = Inr s'"
      using Cons.prems(1) by (cases x) (auto simp: rbind_eq_Inr)
    from load_entry_grows [OF r(2) Cons.prems(2)] obtain tg1 ds1 where s1: "s1 = update_target (\<lambda>_. tg1) s"
        "tg1 = tg\<lparr>tg_elves := tg_elves tg @ ds1\<rparr>" "target_of s1 = Inr tg1"
        "target_paths tg1 = add_library e (target_paths tg) name" "\<forall>d\<in>set ds1. e_bias (di_elf d) = VirtAddr (l_addr m)" .
    from Cons.IH [OF r(3) s1(3)] obtain tg' ds2 where s': "s' = update_target (\<lambda>_. tg') s1" "tg' = tg1\<lparr>tg_elves := tg_elves tg1 @ ds2\<rparr>"
        "target_paths tg' = foldl (add_library e) (target_paths tg1) (map snd es)"
        "\<forall>d\<in>set ds2. e_bias (di_elf d) \<in> (\<lambda>(m, _). VirtAddr (l_addr m)) ` set es" by blast
    show ?case
      using s1 s' r(1) by (intro exI [of _ tg'] exI [of _ "ds1 @ ds2"]) auto
  qed
  then show ?thesis using reload_loop_walks [OF assms] by simp
qed

subsection \<open>Samples\<close>

text \<open>
  A file with three sections: the names, \<open>.text\<close> and a table header with no rows. It is the
  file every path opens.
\<close>

definition mini_shdr :: "u32 \<Rightarrow> u64 \<Rightarrow> u64 \<Rightarrow> u64 \<Rightarrow> u8 list" where
  "mini_shdr name a off n = as_bytes name @ replicate 12 0 @ as_bytes a @ as_bytes off @ as_bytes n @ replicate 24 0"

definition mini_bytes :: "u8 list" where
  "mini_bytes = replicate 24 0 @ as_bytes (0x401000 :: u64) @ replicate 8 0 @ as_bytes (64 :: u64) @ replicate 10 0
     @ as_bytes (64 :: u16) @ as_bytes (3 :: u16) @ as_bytes (0 :: u16)
     @ mini_shdr 0 0 256 0 @ mini_shdr 1 0x401000 288 0x100 @ mini_shdr 7 0x402000 277 12
     @ [0] @ ascii ''.text'' @ [0] @ ascii ''.eh_frame_hdr'' @ [0] @ [1, 3, 3, 0x3b, 0, 0, 0, 0, 0, 0, 0, 0]"

definition mini_image :: image where "mini_image = \<lparr>ibase = 8, ibytes = mini_bytes\<rparr>"

definition mini_env :: env where
  "mini_env = \<lparr>en_fuel = 4, en_root = (\<lambda>cu. Inl Terminate), en_index_order = id, en_rule_order = id, en_float = no_conv,
     en_files = \<lparr>os_open = (\<lambda>p. Some 3), os_fstat_size = (\<lambda>fd. Some 289), os_mmap = (\<lambda>fd n. Some mini_image)\<rparr>,
     en_demangle = (\<lambda>s. None), en_junk = 0, en_tmp_dir = ''/tmp'', en_tmp_fd = 9, en_tmp_base = 8192\<rparr>"

definition mini_header :: elf_ehdr where
  "mini_header = \<lparr>e_entry = 0x401000, e_shoff = 64, e_shentsize = 64, e_shnum = 3, e_shstrndx = 0\<rparr>"

definition mini_sections :: "elf_shdr list" where
  "mini_sections = [\<lparr>sh_name = 0, sh_addr = 0, sh_offset = 256, sh_size = 0, sh_entsize = 0\<rparr>,
     \<lparr>sh_name = 1, sh_addr = 0x401000, sh_offset = 288, sh_size = 0x100, sh_entsize = 0\<rparr>,
     \<lparr>sh_name = 7, sh_addr = 0x402000, sh_offset = 277, sh_size = 12, sh_entsize = 0\<rparr>]"

lemmas mini_simps = bytes_at_def mini_bytes_def mini_shdr_def mini_image_def load_bytes_def iend_def

lemma mini_hdr: "map_sum id ehdr_of_bytes (load_bytes mini_image 8 64) = Inr mini_header"
  by (simp add: mini_simps ehdr_of_bytes_def mini_header_def ascii_def)

lemma mini_secs: "parse_section_headers mini_image mini_header = Inr mini_sections"
proof -
  have "chunks 64 3 bs = [take 64 bs, take 64 (drop 64 bs), take 64 (drop 128 bs)]" for bs by (simp add: numeral_3_eq_3)
  then show ?thesis
    by (simp add: mini_simps parse_section_headers_def mini_header_def mini_sections_def shdr_of_bytes_def ascii_def sizeof_shdr_def)
qed

lemma mini_names: "get_section_name mini_image mini_header mini_sections 0 = Inr []"
  "get_section_name mini_image mini_header mini_sections 1 = Inr (ascii ''.text'')"
  "get_section_name mini_image mini_header mini_sections 7 = Inr (ascii ''.eh_frame_hdr'')"
  by code_simp+


definition mini_elf :: "elf_id \<Rightarrow> string \<Rightarrow> elf" where
  "mini_elf n p = \<lparr>e_id = n, e_path = p, e_image = mini_image, e_header = mini_header, e_sections = mini_sections,
     e_secmap = [[] \<mapsto> 0, ascii ''.text'' \<mapsto> 1, ascii ''.eh_frame_hdr'' \<mapsto> 2], e_bias = virt_addr_default,
     e_symtab = [], e_names = [], e_addrs = []\<rparr>"

lemma mini_section_map: "build_section_map mini_image mini_header mini_sections
    = Inr [[] \<mapsto> 0, ascii ''.text'' \<mapsto> 1, ascii ''.eh_frame_hdr'' \<mapsto> 2]"
proof -
  have n: "[0..<length mini_sections] = [0, 1, 2]" by (simp add: mini_sections_def upt_rec)
  have "unat (sh_name (mini_sections ! 0)) = 0" "unat (sh_name (mini_sections ! 1)) = 1" "unat (sh_name (mini_sections ! 2)) = 7"
    by (simp_all add: mini_sections_def)
  with mini_names show ?thesis unfolding build_section_map_def n by simp
qed

lemma mini_opens: "elf_open (en_files mini_env) (en_demangle mini_env) n p = Inr (mini_elf n p)"
proof -
  obtain hb where h: "load_bytes mini_image 8 64 = Inr hb" "ehdr_of_bytes hb = mini_header"
    using mini_hdr by (cases "load_bytes mini_image 8 64") auto
  have b: "ibase mini_image = 8" by (simp add: mini_image_def)
  show ?thesis
    by (simp add: elf_open_def mini_env_def elf_parse_def b h mini_secs mini_section_map sizeof_ehdr_def Let_def
        parse_symbol_table_def get_section_def build_symbol_maps_def mini_elf_def ascii_def)
qed

lemma mini_table: "\<exists>h. parse_call_frame_information (mini_elf n p) = Inr h"
  by (simp add: parse_call_frame_information_def parse_eh_hdr_def required_start_def get_section_start_address_def get_section_contents_def
     get_section_def mini_elf_def mini_sections_def Let_def mk_cursor_def cu8_def fixed_int_def cursor_advance_def ascii_def mini_simps
     parse_eh_frame_pointer_with_base_def eh_base_value_def cu32_def cs32_def)

lemma mini_loads: "\<exists>d. load_object mini_env n p bias = Inr d"
proof -
  obtain h where h: "parse_call_frame_information (mini_elf n p) = Inr h" using mini_table by blast
  have "get_section_contents (mini_elf n p) (ascii ''.debug_info'') = null_span"
    by (simp add: get_section_contents_def get_section_def mini_elf_def ascii_def)
  moreover obtain k where "en_fuel mini_env = Suc k" by (cases "en_fuel mini_env") (auto simp: mini_env_def)
  ultimately have "parse_compile_units (en_fuel mini_env) r \<lparr>dw_elf = mini_elf n p, dw_units = []\<rparr> = Some (Inr [])" for r
    by (simp add: parse_compile_units_def finished_def mk_cursor_def null_span_def send_def)
  then show ?thesis by (simp add: load_object_def mini_opens at_fuel_def h)
qed

lemma toy_auxv: "auxv_entry sample_os (s :: (u64 \<Rightarrow> u8) tprocess) = Inr 0x401000"
proof -
  have "os_auxv sample_os pid k = [9, 0x401000, 0]" for pid k by (simp add: sample_os_def)
  moreover have "sint (ucast (9 :: u64) :: u32) = 9" by code_simp
  ultimately show ?thesis by (simp add: auxv_entry_def get_auxv_def AT_ENTRY_def)
qed

lemma enable_returns: "\<not> bs_hardware b \<Longrightarrow> \<exists>b' s'. site_enable sample_os b s = Inr (b', s')"
  by (simp add: site_enable_def sample_os_def request_def)

lemma toy_launches: "\<exists>s'. target_launch mini_env sample_os ''/a'' toy_process = Inr s'"
proof -
  obtain d where d: "load_object mini_env 0 ''/a'' (\<lambda>f. VirtAddr (0x401000 - e_entry (e_header f))) = Inr d"
    using mini_loads by blast
  let ?b0 = "mk_breakpoint_site 0 (Some 0) 1 (VirtAddr 0x401000) False True"
  let ?bp = "\<lparr>bp_handle = 0, bp_id = - 1, bp_kind = AddressBp (VirtAddr 0x401000), bp_enabled = False, bp_hardware = False,
     bp_internal = True, bp_next_site = 1, bp_sites = [VirtAddr 0x401000], bp_on_hit = NoHandler\<rparr>"
  let ?tg = "\<lparr>tg_elves = [d], tg_main = e_id (di_elf d), tg_threads = [(100, mk_stack 100)],
     tg_breakpoints = [?bp], tg_next_id = 0, tg_next_handle = 1, tg_rendezvous = virt_addr_default\<rparr>"
  let ?s3 = "toy_process\<lparr>pr_sites := [?b0], pr_target := Some ?tg\<rparr>"
  define s4 where "s4 = toy_process\<lparr>pr_sites := [?b0], pr_target := Some (?tg\<lparr>tg_breakpoints := [?bp\<lparr>bp_on_hit := ResolveRendezvous\<rparr>]\<rparr>)\<rparr>"
  have f: "pr_sites s4 = [?b0]" "pr_target s4 = Some (?tg\<lparr>tg_breakpoints := [?bp\<lparr>bp_on_hit := ResolveRendezvous\<rparr>]\<rparr>)" by (simp_all add: s4_def)
  have j: "en_junk mini_env = 0" by (simp add: mini_env_def)
  have c: "create_address_breakpoint sample_os 0 (VirtAddr 0x401000) False True (mk_target d toy_process) = Inr (0, ?s3)"
    by (simp add: create_address_breakpoint_def create_breakpoint_def mk_target_def target_of_def update_target_def
      resolve_def mk_breakpoint_def push_site_def create_breakpoint_site_def toy_process_fields sp_contains_address_def
      sp_find_by_address_def sp_push_def)
  have h: "install_hit_handler ResolveRendezvous 0 ?s3 = s4" by (simp add: s4_def install_hit_handler_def update_target_def)
  obtain b s where e: "site_enable sample_os ?b0 s4 = Inr (b, s)"
    using enable_returns [of ?b0 s4] by (auto simp: mk_breakpoint_site_def)
  have "site_of 0 (VirtAddr 0x401000) [?b0] = Inr 0" by (simp add: site_of_def mk_breakpoint_site_def)
  then have "\<exists>s'. at_breakpoint (bp_enable sample_os) 0 s4 = Inr s'"
    by (simp add: f at_breakpoint_def target_of_def bp_enable_def for_each_site_def at_site_def e vec_idx_def)
  then show ?thesis by (simp add: target_launch_def create_loaded_elf_def toy_auxv d Let_def j c h)
qed

lemma launch_stops_at_entry_witness:
  "\<exists>s'. target_launch mini_env sample_os ''/a'' toy_process = Inr s' \<and> target_inv s'
     \<and> (\<exists>b. pr_sites s' = [b] \<and> bs_address b = VirtAddr 0x401000 \<and> bs_enabled b)"
proof -
  obtain s' where "target_launch mini_env sample_os ''/a'' toy_process = Inr s'" using toy_launches by blast
  with launch_stops_at_entry [OF this toy_process_fields(1) toy_auxv] show ?thesis by blast
qed

text \<open>A hit of the breakpoint on the linker before the linker has said where its list is.\<close>

definition linker_bp :: breakpoint where
  "linker_bp = (mk_breakpoint (AddressBp (VirtAddr 0x7000)) False True toy_target)\<lparr>bp_on_hit := ReloadLibraries\<rparr>"

definition linker_process :: "(u64 \<Rightarrow> u8) tprocess" where
  "linker_process = toy_process\<lparr>pr_target := Some (toy_target\<lparr>tg_breakpoints := [linker_bp], tg_next_handle := 1\<rparr>)\<rparr>"

lemma hit_handlers_keep_invariant_witness:
  "notify_hit mini_env sample_os 0 linker_process = Inr (True, linker_process) \<and> target_inv linker_process"
proof -
  have b: "bp_handle linker_bp = 0" "bp_sites linker_bp = []" "bp_on_hit linker_bp = ReloadLibraries"
    by (simp_all add: linker_bp_def mk_breakpoint_def toy_target_def)
  have t: "target_of linker_process = Inr (toy_target\<lparr>tg_breakpoints := [linker_bp], tg_next_handle := 1\<rparr>)"
    by (simp add: target_of_def linker_process_def)
  have "addr (tg_rendezvous toy_target) = 0" by (simp add: toy_target_def virt_addr_default_def)
  then have r: "notify_hit mini_env sample_os 0 linker_process = Inr (True, linker_process)"
    by (simp add: notify_hit_def t b reload_dynamic_libraries_def read_dynamic_linker_rendezvous_def)
  moreover have "target_inv linker_process"
    by (simp add: target_inv_def linker_process_def bp_inv_def bp_live_def site_addrs_def toy_process_fields b)
  ultimately show ?thesis using hit_handlers_keep_invariant [OF r] by blast
qed

text \<open>A list of two entries: the program itself, at \<open>/a\<close>, and a library.\<close>

definition lib_memory :: "u64 \<Rightarrow> u8 list" where
  "lib_memory a =
     (if a = 0x5000 then as_bytes (0 :: u64) @ as_bytes (0x6000 :: u64) @ as_bytes (0 :: u64) @ as_bytes (0x5100 :: u64)
      else if a = 0x5100 then as_bytes (0x10000 :: u64) @ as_bytes (0x7000 :: u64) @ as_bytes (0 :: u64) @ as_bytes (0 :: u64)
      else if a = 0x6000 then ascii ''/a'' else ascii ''/l'')"

definition lib_os :: "(u64 \<Rightarrow> u8) os" where
  "lib_os = sample_os\<lparr>os_readv := (\<lambda>pid rs k. Some (lib_memory (fst (hd rs))))\<rparr>"

definition lib_entries :: "(link_map \<times> string) list" where
  "lib_entries = [(\<lparr>l_addr = 0, l_name = 0x6000, l_next = 0x5100\<rparr>, ''/a''), (\<lparr>l_addr = 0x10000, l_name = 0x7000, l_next = 0\<rparr>, ''/l'')]"

definition padded :: "nat \<Rightarrow> u8 list \<Rightarrow> u8 list" where
  "padded n xs = take n (xs @ replicate n 0)"

lemma lib_read: "0 < n \<Longrightarrow> read_memory lib_os (VirtAddr a) n s = Inr (padded n (lib_memory a))"
  by (simp add: padded_def read_memory_def lib_os_def read_chunks.simps [of a n] Let_def)

lemma path_of_ascii: "0 < n \<Longrightarrow> length xs < n \<Longrightarrow> 0 \<notin> set xs \<Longrightarrow> path_of_bytes (padded n xs) = Inr (map (\<lambda>b. char_of (unat b)) xs)"
  by (auto simp: padded_def path_of_bytes_def takeWhile_append)

lemma lib_maps: "link_map_of_bytes (padded 40 (lib_memory 0x5000)) = \<lparr>l_addr = 0, l_name = 0x6000, l_next = 0x5100\<rparr>"
  "link_map_of_bytes (padded 40 (lib_memory 0x5100)) = \<lparr>l_addr = 0x10000, l_name = 0x7000, l_next = 0\<rparr>"
  by (simp_all add: link_map_of_bytes_def padded_def lib_memory_def bytes_at_def)

lemma lib_names: "0 \<notin> set (lib_memory 0x6000) \<and> length (lib_memory 0x6000) = 2 \<and> map (\<lambda>b. char_of (unat b)) (lib_memory 0x6000) = ''/a''"
  "0 \<notin> set (lib_memory 0x7000) \<and> length (lib_memory 0x7000) = 2 \<and> map (\<lambda>b. char_of (unat b)) (lib_memory 0x7000) = ''/l''"
  by code_simp+

lemma lib_linked: "linked lib_os s 0x5000 lib_entries"
proof -
  have "read_link_map lib_os 0x5000 s = Inr (\<lparr>l_addr = 0, l_name = 0x6000, l_next = 0x5100\<rparr>, ''/a'')"
    using lib_names(1) by (simp add: read_link_map_def lib_read lib_maps(1) path_of_ascii Let_def)
  moreover have "read_link_map lib_os 0x5100 s = Inr (\<lparr>l_addr = 0x10000, l_name = 0x7000, l_next = 0\<rparr>, ''/l'')"
    using lib_names(2) by (simp add: read_link_map_def lib_read lib_maps(2) path_of_ascii Let_def)
  ultimately show ?thesis by (simp add: lib_entries_def)
qed

lemma reload_adds_missing_libraries_witness:
  "\<exists>s' tg'. reload_loop mini_env lib_os 9 0x5000 toy_process = Inr s' \<and> target_of s' = Inr tg' \<and> target_paths tg' = [''/a'', ''/l'']"
proof -
  have t: "target_of toy_process = Inr toy_target" by (simp add: target_of_def toy_process_fields)
  have p: "target_paths toy_target = [''/a'']"
    by (simp add: target_paths_def toy_target_def toy_info_def toy_elf_def loaded_elf_def blank_elf_def)
  have n: "length lib_entries \<le> 9" by (simp add: lib_entries_def)
  obtain d where d: "load_object mini_env 1 ''/l'' (\<lambda>_. VirtAddr 0x10000) = Inr d" using mini_loads by blast
  have a: "already_loaded toy_target ''/a''" "\<not> already_loaded toy_target ''/l''" "length (tg_elves toy_target) = 1"
    by (simp_all add: already_loaded_iff p vdso_name_def) (simp add: toy_target_def)
  have "foldR (\<lambda>(m, name). load_entry mini_env lib_os m name) lib_entries toy_process = Inr (push_elf d toy_process)"
    using d a by (simp add: lib_entries_def load_entry_def t vdso_name_def)
  with reload_adds_missing_libraries [OF lib_linked n t, of mini_env]
  obtain s' tg' where s': "reload_loop mini_env lib_os 9 0x5000 toy_process = Inr s'" "s' = update_target (\<lambda>_. tg') toy_process"
      "target_paths tg' = foldl (add_library mini_env) [''/a''] (map snd lib_entries)"
    by (auto simp: p)
  have "target_of s' = Inr tg'" by (simp add: s'(2) target_of_def update_target_def toy_process_fields)
  with s' show ?thesis by (auto simp: lib_entries_def add_library_def vdso_name_def)
qed

end
