(* ===== verification/KD_Print.thy ===== *)
theory KD_Print
  imports KD_Loader
begin

text \<open>
  What the command line prints (\<open>tools/kdebugger.cpp\<close>): numbers and lists in the formats the
  code asks for, stops and where they are, the source around a line, instructions and the stack.
\<close>

subsection \<open>Output and surroundings\<close>

text \<open>
  A text sent to the standard output or to the standard error stream, or one of the help texts,
  which are named and not spelled out.
\<close>

datatype help_topic = HelpCommands | HelpRegister | HelpBreakpoint | HelpMemory | HelpDisassemble | HelpWatchpoint
  | HelpCatchpoint | HelpThread | HelpNone

datatype printed = Out string | Err string | HelpText help_topic | What kerror

type_synonym 'k printer = "'k tprocess \<Rightarrow> printed list result"

text \<open>
  What the tool uses that is not in the repository: the surroundings of the library, the kernel, the
  instruction decoder, the name of a signal (none for a number that is no signal), the text of a source
  file (nothing when it cannot be opened), the conversions of floating point numbers, and
  \<open>print_register_value\<close>, which the tool calls but nowhere defines.
\<close>

record 'k cli =
  cl_env :: env
  cl_os :: "'k os"
  cl_stepper :: "'k stepper"
  cl_decoder :: decoder
  cl_sigabbrev :: "u8 \<Rightarrow> string option"
  cl_source :: "path \<Rightarrow> string"
  cl_double :: "string \<Rightarrow> nat \<times> u64 option"
  cl_long_double :: "string \<Rightarrow> nat \<times> u8 list option"
  cl_print_register :: "register_info \<Rightarrow> 'k printer"

subsection \<open>Formats\<close>

definition text_of :: "u8 list \<Rightarrow> string" where
  "text_of bs = map (\<lambda>b. char_of (unat b)) bs"

definition pad_left :: "nat \<Rightarrow> char \<Rightarrow> string \<Rightarrow> string" where
  "pad_left k c s = replicate (k - length s) c @ s"

definition fmt_dec :: "'a::len word \<Rightarrow> string" where
  "fmt_dec w = show_nat 10 (unat w)"

definition fmt_int :: "int \<Rightarrow> string" where
  "fmt_int i = (if i < 0 then CHR ''-'' # show_nat 10 (nat (- i)) else show_nat 10 (nat i))"

text \<open>\<open>{:#x}\<close>, and \<open>{:#0nx}\<close>, whose width counts the prefix.\<close>

definition fmt_hex :: "'a::len word \<Rightarrow> string" where
  "fmt_hex w = ''0x'' @ show_nat 16 (unat w)"

definition fmt_hex_wide :: "nat \<Rightarrow> 'a::len word \<Rightarrow> string" where
  "fmt_hex_wide n w = ''0x'' @ pad_left (n - 2) (CHR ''0'') (show_nat 16 (unat w))"

definition fmt_byte :: "u8 \<Rightarrow> string" where
  "fmt_byte b = pad_left 2 (CHR ''0'') (show_nat 16 (unat b))"

fun join_format :: "string \<Rightarrow> string list \<Rightarrow> string" where
  "join_format sep [] = []"
| "join_format sep [x] = x"
| "join_format sep (x # y # xs) = x @ sep @ join_format sep (y # xs)"

definition fmt_on :: "bool \<Rightarrow> string" where
  "fmt_on b = (if b then ''enabled'' else ''disabled'')"

abbreviation NEWLINE :: char where "NEWLINE \<equiv> char_of (10 :: nat)"

subsection \<open>Files of rows\<close>

text \<open>The file a row points to. A pointer into the list of a unit's table is followed in that unit's file.\<close>

definition file_path :: "target \<Rightarrow> file_ptr \<Rightarrow> path result" where
  "file_path tg p = (case p of
      KnownFile f \<Rightarrow> Inr (lf_path f)
    | TableFile cu i \<Rightarrow> (case find (\<lambda>d. cu \<in> set (di_units d)) (tg_elves tg) of
          None \<Rightarrow> Inl (UB ''dangling file'')
        | Some d \<Rightarrow> rbind (di_lines d cu) (\<lambda>t. rbind (vec_idx (lt_files t) i) (\<lambda>f. Inr (lf_path f)))))"

definition the_file :: "file_ptr option \<Rightarrow> file_ptr result" where
  "the_file p = (case p of None \<Rightarrow> Inl (UB ''null file entry'') | Some f \<Rightarrow> Inr f)"

subsection \<open>Source\<close>

text \<open>
  \<open>current_line\<close> and \<open>c\<close> are not declared; the count starts at 1. The first loop looks for the
  start line, the second, which prints, runs on the condition of the first. \<open>log10\<close> of the end line
  gives the width; it is taken to be exact.
\<close>

fun skip_lines :: "u64 \<Rightarrow> u64 \<Rightarrow> string \<Rightarrow> u64 \<times> string" where
  "skip_lines start cur [] = (cur, [])"
| "skip_lines start cur (c # cs) =
     (if cur = start then (cur, c # cs) else skip_lines start (if c = NEWLINE then cur + 1 else cur) cs)"

definition line_start :: "u64 \<Rightarrow> nat \<Rightarrow> u64 \<Rightarrow> printed" where
  "line_start line width cur =
     Out ((if cur = line then ''>'' else '' '') @ '' '' @ pad_left width (CHR '' '') (fmt_dec cur))"

fun print_lines :: "u64 \<Rightarrow> (u64 \<Rightarrow> printed) \<Rightarrow> u64 \<Rightarrow> string \<Rightarrow> printed list" where
  "print_lines start pr cur [] = []"
| "print_lines start pr cur (c # cs) =
     (if cur = start then []
      else if c = NEWLINE then pr (cur + 1) # print_lines start pr (cur + 1) cs else print_lines start pr cur cs)"

definition print_source :: "string \<Rightarrow> u64 \<Rightarrow> u64 \<Rightarrow> printed list result" where
  "print_source file line context =
     (let start = (if line \<le> context then 1 else line - context); end_line = line + context + 1;
          (cur, rest) = skip_lines start 1 file;
          pr = line_start line (length (fmt_dec end_line))
      in if end_line = 0 then Inl (UB ''logarithm of 0'') else Inr (pr cur # print_lines start pr cur rest))"

definition print_disassembly :: "'k cli \<Rightarrow> virt_addr \<Rightarrow> nat \<Rightarrow> 'k printer" where
  "print_disassembly c a n s =
     rbind (disassemble (cl_os c) (cl_decoder c) n (Some a) s) (\<lambda>is.
     Inr (map (\<lambda>(a, text). Out (fmt_hex_wide 18 (addr a) @ '' : '' @ text @ [NEWLINE])) is))"

definition print_code_location :: "'k cli \<Rightarrow> 'k printer" where
  "print_code_location c s =
     rbind (get_stack None s) (\<lambda>st.
     if has_frames st then
       rbind (current_frame st) (\<lambda>f.
       rbind (the_file (fst (sf_location f))) (\<lambda>p.
       rbind (target_of s) (\<lambda>tg.
       rbind (file_path tg p) (\<lambda>path. print_source (cl_source c path) (snd (sf_location f)) 3))))
     else rbind (get_pc None s) (\<lambda>pc. print_disassembly c pc 5 s))"

subsection \<open>Stops\<close>

definition get_sigtrap_info :: "stop_reason \<Rightarrow> 'k tprocess \<Rightarrow> string result" where
  "get_sigtrap_info r s = (case sr_trap r of
      Some SoftwareBreak \<Rightarrow>
        rbind (get_pc (Some (sr_tid r)) s) (\<lambda>pc.
        rbind (sp_get_by_address bs_at_address pc (pr_sites s)) (\<lambda>k.
        Inr (''(breakpoint '' @ fmt_dec (bs_id (pr_sites s ! k)) @ '')'')))
    | Some HardwareBreak \<Rightarrow>
        rbind (get_current_hardware_stoppoint (Some (sr_tid r)) s) (\<lambda>i. case i of
          Inl b \<Rightarrow> Inr (''(breakpoint '' @ fmt_dec b @ '')'')
        | Inr w \<Rightarrow> rbind (sp_get_by_id wp_id w (pr_watch s)) (\<lambda>k. let p = pr_watch s ! k in
            Inr (''(watchpoint '' @ fmt_dec (wp_id p) @ '')'' @ [NEWLINE] @
              (if wp_data p = wp_previous p then ''Value: '' @ fmt_hex (wp_data p)
               else ''Old value: '' @ fmt_hex (wp_previous p) @ [NEWLINE] @ ''Nex value '' @ fmt_hex (wp_data p)))))
    | Some SingleStep \<Rightarrow> Inr ''(single step)''
    | Some SyscallTrap \<Rightarrow> (case sr_syscall r of
          None \<Rightarrow> Inl (UB ''empty optional'')
        | Some (SyscallEntry i args) \<Rightarrow> rbind (syscall_id_to_name (uint i)) (\<lambda>name.
            Inr (''(syscall entry)'' @ [NEWLINE] @ ''syscall: '' @ name @ '' ('' @ join_format '','' (map fmt_hex args) @ '')''))
        | Some (SyscallExit i ret) \<Rightarrow> Inr (''(syscall exit)'' @ [NEWLINE] @ ''syscall returned: '' @
            (if sint ret < 0 then ''-0x'' @ show_nat 16 (nat (- sint ret)) else fmt_hex ret)))
    | _ \<Rightarrow> Inr [])"

definition the_signal :: "'k cli \<Rightarrow> u8 \<Rightarrow> string result" where
  "the_signal c i = (case cl_sigabbrev c i of None \<Rightarrow> Inl (UB ''null string'') | Some n \<Rightarrow> Inr n)"

definition line_text :: "row \<Rightarrow> string result" where
  "line_text r = (case r of
      Some (t, it) \<Rightarrow> if row_pos r = row_pos None then Inr []
        else rbind (case le_file_entry (li_current it) of None \<Rightarrow> Inl (UB ''null file entry'') | Some i \<Rightarrow> vec_idx (lt_files t) i) (\<lambda>f.
          Inr ('', '' @ path_filename (text_of (lf_path f)) @ '' : '' @ fmt_dec (le_line (row_entry r))))
    | None \<Rightarrow> Inr [])"

definition get_signal_stop_reason :: "'k cli \<Rightarrow> stop_reason \<Rightarrow> 'k tprocess \<Rightarrow> string result" where
  "get_signal_stop_reason c r s =
     rbind (get_pc (Some (sr_tid r)) s) (\<lambda>pc.
     rbind (the_signal c (sr_info r)) (\<lambda>sig.
     rbind (line_entry_at_pc (Some (sr_tid r)) s) (\<lambda>row.
     rbind (line_text row) (\<lambda>loc.
     rbind (function_name_at_address pc s) (\<lambda>name.
     rbind (if sr_info r = SIGTRAP then get_sigtrap_info r s else Inr []) (\<lambda>trap.
     Inr (''stopped with signal '' @ sig @ '' at '' @ fmt_hex (addr pc) @ loc
        @ (if name = [] then [] else ''  ('' @ text_of name @ '')'') @ trap)))))))"

text \<open>The messages of the first two cases are built and never printed.\<close>

definition print_stop_reason :: "'k cli \<Rightarrow> stop_reason \<Rightarrow> 'k printer" where
  "print_stop_reason c r s = (case sr_reason r of
      Exited \<Rightarrow> Inr []
    | Terminated \<Rightarrow> rbind (the_signal c (sr_info r)) (\<lambda>_. Inr [])
    | Stopped \<Rightarrow> rbind (get_signal_stop_reason c r s) (\<lambda>m. Inr [Out (''Thread '' @ fmt_int (sr_tid r) @ '' '' @ m @ [NEWLINE])])
    | Running \<Rightarrow> Inr [])"

definition handle_stop :: "'k cli \<Rightarrow> stop_reason \<Rightarrow> 'k printer" where
  "handle_stop c r s =
     rbind (print_stop_reason c r s) (\<lambda>out.
     rbind (if sr_reason r = Stopped then print_code_location c s else Inr []) (\<lambda>loc. Inr (out @ loc)))"

definition thread_lifecycle_callback :: "stop_reason \<Rightarrow> printed" where
  "thread_lifecycle_callback r =
     Out (''thread '' @ fmt_int (sr_tid r) @ '' '' @ (case sr_reason r of
        Exited \<Rightarrow> ''exited'' | Terminated \<Rightarrow> ''terminated'' | Stopped \<Rightarrow> ''stopped'' | Running \<Rightarrow> []) @ [NEWLINE])"

subsection \<open>The stack\<close>

definition frame_text :: "stack \<Rightarrow> nat \<times> stack_frame \<Rightarrow> 'k tprocess \<Rightarrow> printed result" where
  "frame_text st = (\<lambda>(i, f) s.
     rbind (function_name_at_address (sf_report f) s) (\<lambda>name.
     rbind (if sf_inlined f then
              rbind (target_of s) (\<lambda>tg. rbind (main_info tg) (\<lambda>d. rbind (di_name d (sf_func f)) (\<lambda>on. case on of
                None \<Rightarrow> Inl (UB ''empty optional'') | Some n \<Rightarrow> Inr (''[Inlined] '' @ text_of n))))
            else Inr []) (\<lambda>inl.
     Inr (Out ((if of_nat i = current_frame_index st then ''*'' else '' '') @ ''['' @ show_nat 10 i @ '']: ''
        @ fmt_hex (addr (sf_report f)) @ '' '' @ text_of name @ inl @ [NEWLINE])))))"

definition print_backtrace :: "'k printer" where
  "print_backtrace s =
     rbind (get_stack None s) (\<lambda>st.
     rbind (stack_frames st) (\<lambda>fs. mapR (\<lambda>x. frame_text st x s) (enumerate 0 fs)))"

subsection \<open>The source is never shown\<close>

lemma skip_lines_stops: "skip_lines start cur src = (cur', rest) \<Longrightarrow> rest = [] \<or> cur' = start"
  by (induction start cur src rule: skip_lines.induct) (auto split: if_splits)

lemma skip_lines_reaches:
  "unat cur \<le> unat start \<Longrightarrow> unat start \<le> unat cur + length (filter (\<lambda>ch. ch = NEWLINE) src) \<Longrightarrow> fst (skip_lines start cur src) = start"
proof (induction start cur src rule: skip_lines.induct)
  case (2 start cur ch cs)
  show ?case
  proof (cases "cur = start")
    case False
    then have "unat cur \<noteq> unat start" by (simp add: word_unat_eq_iff)
    then have lt: "unat cur < unat start" using "2.prems"(1) by simp
    have "unat start < 2 ^ LENGTH(64)" by (rule unsigned_less)
    then have "unat (cur + 1) = unat cur + 1"
      using lt by (subst unat_plus_no_overflow) simp_all
    then show ?thesis using "2.IH" False "2.prems" lt by (cases "ch = NEWLINE") simp_all
  qed simp
qed (metis add.right_neutral filter.simps(1) fst_conv list.size(3) order_antisym skip_lines.simps(1) word_unat_eq_iff)

text \<open>
  For a stop at a line the tool prints the number of one line and not a character of the
  source: the loop that should print runs on the condition of the loop before it. The line is the one
  the context begins with, where the file has that many lines.
\<close>

theorem print_source_shows_no_source:
  assumes "line + context + 1 \<noteq> 0"
  defines "start \<equiv> if line \<le> context then 1 else line - context"
  shows "\<exists>cur. print_source src line context = Inr [line_start line (length (fmt_dec (line + context + 1))) cur]
    \<and> (unat start \<le> 1 + length (filter (\<lambda>ch. ch = NEWLINE) src) \<longrightarrow> cur = start)"
proof -
  obtain cur rest where k: "skip_lines start 1 src = (cur, rest)" by (cases "skip_lines start 1 src")
  have "print_lines start pr cur rest = []" for pr using skip_lines_stops [OF k] by (cases rest) auto
  then have "print_source src line context = Inr [line_start line (length (fmt_dec (line + context + 1))) cur]"
    using assms(1) k by (simp add: print_source_def start_def [symmetric] Let_def)
  moreover have "1 \<le> unat start"
  proof -
    have "start \<noteq> 0" by (auto simp: start_def)
    then show ?thesis by (simp add: unat_gt_0 Suc_leI)
  qed
  then have "unat start \<le> 1 + length (filter (\<lambda>ch. ch = NEWLINE) src) \<longrightarrow> cur = start"
    using skip_lines_reaches [of 1 start src] k by simp
  ultimately show ?thesis by blast
qed

definition nine_lines :: string where
  "nine_lines = concat (replicate 9 (''int x;'' @ [NEWLINE]))"

lemma print_source_shows_no_source_witness: "print_source nine_lines 6 3 = Inr [Out ''   3'']"
proof -
  have f: "fmt_dec (10 :: u64) = ''10''" "fmt_dec (3 :: u64) = ''3''" "length (filter (\<lambda>ch. ch = NEWLINE) nine_lines) = 9" by code_simp+
  then obtain cur where "print_source nine_lines 6 3 = Inr [line_start 6 (length ''10'') cur]" "cur = 3"
    using print_source_shows_no_source [of 6 3 nine_lines] by (auto simp del: list.size)
  then show ?thesis by (simp add: line_start_def pad_left_def f)
qed

end
