(* ===== verification/KD_Cli.thy ===== *)
theory KD_Cli
  imports KD_Print
begin

text \<open>
  The commands (\<open>tools/kdebugger.cpp\<close>): each handler takes the words of the line and the
  process, and answers with what it prints and the process after it.
\<close>

unbundle bit_operations_syntax

type_synonym 'k command = "string list \<Rightarrow> 'k tprocess \<Rightarrow> (printed list \<times> 'k tprocess) result"

subsection \<open>Help\<close>

definition help_for :: "string \<Rightarrow> help_topic" where
  "help_for w =
     (if is_prefix w ''register'' then HelpRegister else if is_prefix w ''breakpoint'' then HelpBreakpoint
      else if is_prefix w ''memory'' then HelpMemory else if is_prefix w ''disassemble'' then HelpDisassemble
      else if is_prefix w ''watchpoint'' then HelpWatchpoint else if is_prefix w ''catchpoint'' then HelpCatchpoint
      else if is_prefix w ''thread'' then HelpThread else HelpNone)"

definition print_help :: "string list \<Rightarrow> printed list result" where
  "print_help args = (if length args = 1 then Inr [HelpText HelpCommands]
     else rbind (vec_idx args 1) (\<lambda>w. Inr [HelpText (help_for w)]))"

text \<open>A handler that only prints, and one that only changes the process.\<close>

definition printing :: "printed list result \<Rightarrow> 'k tprocess \<Rightarrow> (printed list \<times> 'k tprocess) result" where
  "printing out s = rbind out (\<lambda>p. Inr (p, s))"

definition silently :: "'k tprocess result \<Rightarrow> (printed list \<times> 'k tprocess) result" where
  "silently m = rbind m (\<lambda>s. Inr ([], s))"

definition help_on :: "string \<Rightarrow> 'k tprocess \<Rightarrow> (printed list \<times> 'k tprocess) result" where
  "help_on topic = printing (print_help [''help'', topic])"

text \<open>\<open>what()\<close> of a \<open>kdebugger::error\<close>; the other failures are not caught by its handlers.\<close>

fun caught :: "kerror \<Rightarrow> bool" where
  "caught (Send m) = True" | "caught (SendErrno m) = True" | "caught e = False"

subsection \<open>Threads\<close>

definition set_current_thread :: "int \<Rightarrow> ('k, 't) process \<Rightarrow> ('k, 't) process" where
  "set_current_thread tid s = s\<lparr>pr_current := tid\<rparr>"

definition thread_line :: "'k cli \<Rightarrow> int \<Rightarrow> 'k tprocess \<Rightarrow> printed result" where
  "thread_line c tid s =
     rbind (thread_at tid s) (\<lambda>th. case th_reason th of
       None \<Rightarrow> Inl (UB ''uninitialised stop reason'')
     | Some r \<Rightarrow> rbind (get_signal_stop_reason c r s) (\<lambda>m.
         Inr (Out ((if tid = pr_current s then ''*'' else '' '') @ '' Thread '' @ fmt_int tid @ '': '' @ m @ [NEWLINE]))))"

definition handle_thread_command :: "'k cli \<Rightarrow> 'k command" where
  "handle_thread_command c args s =
     (if length args < 2 then help_on ''thread'' s
      else if is_prefix (args ! 1) ''list'' then
        printing (rbind (target_of s) (\<lambda>tg. mapR (\<lambda>(tid, _). thread_line c tid s) (tg_threads tg))) s
      else if is_prefix (args ! 1) ''select'' then
        if length args \<noteq> 3 then help_on ''thread'' s
        else rbind (to_integral True 32 10 (args ! 2)) (\<lambda>tid. case tid of
            None \<Rightarrow> Inr ([Err (''Invalid thread id'' @ [NEWLINE])], s)
          | Some t \<Rightarrow> Inr ([], set_current_thread t s))
      else Inr ([], s))"

subsection \<open>Breakpoints\<close>

text \<open>The sites of a breakpoint, as places in the collection of the process.\<close>

definition sites_of :: "breakpoint \<Rightarrow> 'k tprocess \<Rightarrow> nat list result" where
  "sites_of bp s = mapR (\<lambda>a. site_of (bp_handle bp) a (pr_sites s)) (bp_sites bp)"

definition site_by_id :: "u32 \<Rightarrow> breakpoint \<Rightarrow> 'k tprocess \<Rightarrow> nat result" where
  "site_by_id i bp s =
     rbind (sites_of bp s) (\<lambda>ks. rbind (sp_get_by_id bs_id i (map ((!) (pr_sites s)) ks)) (\<lambda>j. vec_idx ks j))"

definition remove_breakpoint :: "'k os \<Rightarrow> u32 \<Rightarrow> 'k tprocess \<Rightarrow> 'k tprocess result" where
  "remove_breakpoint os i s =
     rbind (target_of s) (\<lambda>tg.
     rbind (sp_remove_by_id bp_id (bp_disable os) i (tg_breakpoints tg) s) (\<lambda>(bps, s').
     Inr (update_target (\<lambda>tg. tg\<lparr>tg_breakpoints := bps\<rparr>) s')))"

definition remove_sites :: "'k os \<Rightarrow> virt_addr list \<Rightarrow> 'k tprocess \<Rightarrow> 'k tprocess result" where
  "remove_sites os as s = foldR (\<lambda>a s. rbind (remove_site_by_address os a s) (\<lambda>(_, s'). Inr s')) as s"

text \<open>
  Deleting frees the sites, then removes the breakpoint, whose removal disables its sites.
  The command line does not call this handler.
\<close>

definition toggle_site :: "'k os \<Rightarrow> string \<Rightarrow> string \<Rightarrow> breakpoint \<Rightarrow> 'k tprocess \<Rightarrow> (printed list \<times> 'k tprocess) result" where
  "toggle_site os command site_id_str bp s =
     rbind (to_integral False 32 10 site_id_str) (\<lambda>site_id. case site_id of
       None \<Rightarrow> Inr ([Out (''Command expects breakpoint site id'' @ [NEWLINE])], s)
     | Some j \<Rightarrow>
         if is_prefix command ''enable'' then
           silently (rbind (site_by_id (of_int j) bp s) (\<lambda>k. rbind (at_site (site_enable os) k s) (\<lambda>(_, s'). Inr s')))
         else if is_prefix command ''disable'' then
           silently (rbind (site_by_id (of_int j) bp s) (\<lambda>k. rbind (at_site (site_disable os) k s) (\<lambda>(_, s'). Inr s')))
         else Inr ([], s))"

definition handle_breakpoint_toggle :: "'k os \<Rightarrow> 'k command" where
  "handle_breakpoint_toggle os args s =
     rbind (vec_idx args 1) (\<lambda>command. rbind (vec_idx args 2) (\<lambda>arg.
     let id_str = takeWhile (\<lambda>ch. ch \<noteq> CHR ''.'') arg; dot = CHR ''.'' \<in> set arg in
     rbind (to_integral False 32 10 id_str) (\<lambda>id. case id of
       None \<Rightarrow> Inr ([Out (''Command expects breakpoint id'' @ [NEWLINE])], s)
     | Some i \<Rightarrow>
         rbind (target_of s) (\<lambda>tg.
         rbind (sp_get_by_id bp_id (of_int i) (tg_breakpoints tg)) (\<lambda>k.
         let bp = tg_breakpoints tg ! k in
         if dot then toggle_site os command (drop (length id_str + 1) arg) bp s
         else if is_prefix command ''enable'' then silently (at_breakpoint (bp_enable os) k s)
         else if is_prefix command ''disable'' then silently (at_breakpoint (bp_disable os) k s)
         else if is_prefix command ''delete'' then
           silently (rbind (remove_sites os (bp_sites bp) s) (remove_breakpoint os (of_int i)))
         else Inr ([], s))))))"

definition hardware_arg :: "string list \<Rightarrow> bool result" where
  "hardware_arg args = (if length args \<noteq> 4 then Inr False
     else if args ! 3 = ''-h'' then Inr True else Inl (Send ''Invalid breakpoint command argument''))"

definition create_enabled :: "'k os \<Rightarrow> (nat, 'k, target) op \<Rightarrow> 'k tprocess \<Rightarrow> (printed list \<times> 'k tprocess) result" where
  "create_enabled os create s = rbind (create s) (\<lambda>(k, s'). silently (at_breakpoint (bp_enable os) k s'))"

text \<open>A function breakpoint is created without the hardware flag.\<close>

definition handle_breakpoint_set_command :: "'k os \<Rightarrow> u32 \<Rightarrow> 'k command" where
  "handle_breakpoint_set_command os junk args s =
     rbind (hardware_arg args) (\<lambda>hardware.
     rbind (vec_idx args 2) (\<lambda>arg.
     if take 2 arg = ''0x'' then
       rbind (to_integral False 64 16 arg) (\<lambda>a. case a of
         None \<Rightarrow> Inr ([Err (''Breakpoint command expects a hexidecimal address: 0x'' @ [NEWLINE])], s)
       | Some v \<Rightarrow> create_enabled os (create_address_breakpoint os junk (VirtAddr (of_int v)) hardware False) s)
     else if CHR '':'' \<in> set arg then
       let data = split arg (CHR '':'') in
       rbind (vec_idx data 0) (\<lambda>path. rbind (vec_idx data 1) (\<lambda>num.
       rbind (to_integral False 64 10 num) (\<lambda>line. case line of
         None \<Rightarrow> Inr ([Err (''Line number should be an int'' @ [NEWLINE])], s)
       | Some l \<Rightarrow> create_enabled os (create_line_breakpoint os junk (ascii path) (nat l) hardware False) s)))
     else create_enabled os (create_function_breakpoint os junk (ascii arg) False False) s))"

definition kind_text :: "bp_kind \<Rightarrow> string" where
  "kind_text k = (case k of
      FunctionBp name \<Rightarrow> ''function = '' @ text_of name
    | LineBp file line \<Rightarrow> ''file = '' @ text_of file @ '', line = '' @ show_nat 10 line
    | AddressBp a \<Rightarrow> ''address = '' @ fmt_hex (addr a))"

definition breakpoint_lines :: "breakpoint \<Rightarrow> 'k printer" where
  "breakpoint_lines bp s =
     (if bp_internal bp then Inr []
      else rbind (sites_of bp s) (\<lambda>ks.
        Inr (Out (fmt_int (sint (bp_id bp)) @ '': '') # Out (kind_text (bp_kind bp)) # Out ('', '' @ fmt_on (bp_enabled bp) @ '':'' @ [NEWLINE])
          # map (\<lambda>k. let b = pr_sites s ! k in Out (''    .'' @ fmt_dec (bs_id b) @ '': address = '' @ fmt_hex (addr (bs_address b))
               @ '', '' @ fmt_on (bs_enabled b) @ [NEWLINE])) ks)))"

definition handle_breakpoint_list_command :: "'k printer" where
  "handle_breakpoint_list_command s =
     rbind (target_of s) (\<lambda>tg.
     if tg_breakpoints tg = [] then Inr [Out (''No breakpoints set'' @ [NEWLINE])]
     else rbind (mapR (\<lambda>bp. breakpoint_lines bp s) (tg_breakpoints tg)) (\<lambda>ls.
       Inr (Out (''Current breakpoints:'' @ [NEWLINE]) # concat ls)))"

text \<open>
  The \<open>breakpoint\<close> command works on the sites of the process and not on the breakpoints of the
  target. The site it creates has no breakpoint, and a number that is never set.
\<close>

definition site_lines :: "breakpoint_site \<Rightarrow> printed list" where
  "site_lines b = (if bs_internal b then [] else
     [Out (fmt_dec (bs_id b) @ '': address = '' @ fmt_hex (addr (bs_address b)) @ '', '' @ fmt_on (bs_enabled b) @ [NEWLINE])])"

definition set_site :: "'k os \<Rightarrow> u32 \<Rightarrow> u64 \<Rightarrow> bool \<Rightarrow> 'k tprocess \<Rightarrow> 'k tprocess result" where
  "set_site os junk a hardware s =
     rbind (create_breakpoint_site junk None junk (VirtAddr a) hardware False s) (\<lambda>(k, s1).
     rbind (at_site (site_enable os) k s1) (\<lambda>(_, s2). Inr s2))"

definition switch_site :: "'k os \<Rightarrow> string \<Rightarrow> u32 \<Rightarrow> 'k tprocess \<Rightarrow> 'k tprocess result" where
  "switch_site os command i s =
     (if is_prefix command ''enable'' then rbind (sp_get_by_id bs_id i (pr_sites s)) (\<lambda>k. rbind (at_site (site_enable os) k s) (\<lambda>(_, s'). Inr s'))
      else if is_prefix command ''disable'' then rbind (sp_get_by_id bs_id i (pr_sites s)) (\<lambda>k. rbind (at_site (site_disable os) k s) (\<lambda>(_, s'). Inr s'))
      else if is_prefix command ''delete'' then rbind (sp_remove_by_id bs_id (site_disable os) i (pr_sites s) s) (\<lambda>(bs, s'). Inr (s'\<lparr>pr_sites := bs\<rparr>))
      else Inr s)"

definition handle_breakpoint_command :: "'k os \<Rightarrow> u32 \<Rightarrow> 'k command" where
  "handle_breakpoint_command os junk args s =
     (if length args < 2 then help_on ''breakpoint'' s
      else let command = args ! 1 in
      if is_prefix command ''list'' then
        Inr (if pr_sites s = [] then [Out (''No Breakpoints set!'' @ [NEWLINE])]
             else Out (''Current breakpoints:'' @ [NEWLINE]) # concat (map site_lines (pr_sites s)), s)
      else if length args < 3 then help_on ''breakpoint'' s
      else if is_prefix command ''set'' then
        rbind (to_integral False 64 16 (args ! 2)) (\<lambda>a. case a of
          None \<Rightarrow> Inr ([Err (''Breakpoint command expects address in hex format, prefixed with 0x'' @ [NEWLINE])], s)
        | Some v \<Rightarrow> rbind (hardware_arg args) (\<lambda>hardware. silently (set_site os junk (of_int v) hardware s)))
      else rbind (to_integral False 32 10 (args ! 2)) (\<lambda>id. case id of
          None \<Rightarrow> Inr ([Err (''Command expects a breakpoint id'' @ [NEWLINE])], s)
        | Some i \<Rightarrow> silently (switch_site os command (of_int i) s)))"

subsection \<open>Catchpoints\<close>

definition set_syscall_catch_policy :: "syscall_catch_policy \<Rightarrow> ('k, 't) process \<Rightarrow> ('k, 't) process" where
  "set_syscall_catch_policy p s = s\<lparr>pr_policy := p\<rparr>"

definition syscall_of_word :: "string \<Rightarrow> int result" where
  "syscall_of_word w =
     (if w \<noteq> [] \<and> hd w \<in> set ''0123456789'' then
        rbind (to_integral True 32 10 w) (\<lambda>v. case v of None \<Rightarrow> Inl BadOptionalAccess | Some i \<Rightarrow> Inr i)
      else syscall_name_to_id w)"

definition catch_policy_of :: "string list \<Rightarrow> syscall_catch_policy result" where
  "catch_policy_of args =
     (if length args = 3 \<and> args ! 2 = ''none'' then Inr catch_none
      else if 3 \<le> length args then rbind (mapR syscall_of_word (split (args ! 2) (CHR '',''))) (\<lambda>is. Inr (catch_some is))
      else Inr catch_all)"

definition handle_catchpoint_command :: "'k command" where
  "handle_catchpoint_command args s =
     (if length args < 2 then help_on ''catchpoint'' s
      else if is_prefix (args ! 1) ''syscall'' then
        silently (rbind (catch_policy_of args) (\<lambda>p. Inr (set_syscall_catch_policy p s)))
      else Inr ([], s))"

subsection \<open>Watchpoints\<close>

text \<open>One of the two calls for help passes its two words as a single one.\<close>

definition mode_of_word :: "string \<Rightarrow> stoppoint_mode option" where
  "mode_of_word w = (if w = ''write'' then Some WriteMode else if w = ''rw'' then Some ReadWrite
     else if w = ''execute'' then Some Execute else None)"

definition handle_watchpoint_set :: "'k os \<Rightarrow> 'k command" where
  "handle_watchpoint_set os args s =
     (if length args \<noteq> 5 then printing (print_help [''help, watchpoint'']) s
      else rbind (to_integral False 64 16 (args ! 2)) (\<lambda>address. rbind (to_integral False 64 10 (args ! 4)) (\<lambda>sz.
        case (address, sz, mode_of_word (args ! 3)) of
          (Some a, Some n, Some mode) \<Rightarrow>
            rbind (create_watchpoint os (VirtAddr (of_int a)) mode (of_int n) s) (\<lambda>(k, s1).
            rbind (at_watch (watch_enable os) k s1) (\<lambda>(_, s2). Inr ([], s2)))
        | _ \<Rightarrow> help_on ''watchpoint'' s)))"

definition mode_text :: "stoppoint_mode \<Rightarrow> string" where
  "mode_text m = (case m of Execute \<Rightarrow> ''execute'' | WriteMode \<Rightarrow> ''write'' | ReadWrite \<Rightarrow> ''read_write'')"

definition handle_watchpoint_list :: "'k tprocess \<Rightarrow> printed list" where
  "handle_watchpoint_list s =
     (if pr_watch s = [] then Out ''No watchpoints set'' else Out ''Current watchpoints'')
      # map (\<lambda>w. Out (fmt_dec (wp_id w) @ '': address = '' @ fmt_hex (addr (wp_address w)) @ '', mode = '' @ mode_text (wp_mode w)
          @ ''. size = '' @ fmt_dec (wp_size w) @ '', '' @ fmt_on (wp_enabled w) @ [NEWLINE])) (pr_watch s)"

definition switch_watchpoint :: "'k os \<Rightarrow> string \<Rightarrow> u32 \<Rightarrow> 'k tprocess \<Rightarrow> 'k tprocess result" where
  "switch_watchpoint os command i s =
     (if is_prefix command ''enable'' then rbind (sp_get_by_id wp_id i (pr_watch s)) (\<lambda>k. rbind (at_watch (watch_enable os) k s) (\<lambda>(_, s'). Inr s'))
      else if is_prefix command ''disable'' then rbind (sp_get_by_id wp_id i (pr_watch s)) (\<lambda>k. rbind (at_watch (watch_disable os) k s) (\<lambda>(_, s'). Inr s'))
      else if is_prefix command ''delete'' then rbind (sp_remove_by_id wp_id (watch_disable os) i (pr_watch s) s) (\<lambda>(ws, s'). Inr (s'\<lparr>pr_watch := ws\<rparr>))
      else Inr s)"

text \<open>After \<open>set\<close> the handler goes on, and reads the address as the number of a watchpoint.\<close>

definition handle_watchpoint_command :: "'k os \<Rightarrow> 'k command" where
  "handle_watchpoint_command os args s =
     (if length args < 2 then help_on ''watchpoint'' s
      else let command = args ! 1 in
      if is_prefix command ''list'' then Inr (handle_watchpoint_list s, s)
      else rbind (if is_prefix command ''set'' then handle_watchpoint_set os args s else Inr ([], s)) (\<lambda>(out, s1).
        rbind (if length args < 3 then help_on ''watchpoint'' s1
          else rbind (to_integral False 32 10 (args ! 2)) (\<lambda>id. case id of
              None \<Rightarrow> Inr ([Err ''Command expects watchpoint id''], s1)
            | Some i \<Rightarrow> silently (switch_watchpoint os command (of_int i) s1))) (\<lambda>(out', s2).
        Inr (out @ out', s2))))"

subsection \<open>Disassembly\<close>

text \<open>\<open>None\<close> when an argument is not understood.\<close>

fun disassemble_args :: "string list \<Rightarrow> virt_addr \<Rightarrow> nat \<Rightarrow> (virt_addr \<times> nat) option result" where
  "disassemble_args [] a n = Inr (Some (a, n))"
| "disassemble_args [x] a n = Inr None"
| "disassemble_args (x # y # args) a n =
     (if x = ''-a'' then rbind (to_integral False 64 16 y) (\<lambda>v. case v of
          None \<Rightarrow> Inl (Send (''Invalid Address format!'' @ [NEWLINE])) | Some i \<Rightarrow> disassemble_args args (VirtAddr (of_int i)) n)
      else if x = ''-c'' then rbind (to_integral False 64 10 y) (\<lambda>v. case v of
          None \<Rightarrow> Inl (Send ''Invalid instruction count'') | Some i \<Rightarrow> disassemble_args args a (nat i))
      else Inr None)"

definition handle_disassemble_command :: "'k cli \<Rightarrow> 'k command" where
  "handle_disassemble_command c args s =
     rbind (get_pc None s) (\<lambda>pc.
     rbind (disassemble_args (tl args) pc 5) (\<lambda>r. case r of
       None \<Rightarrow> help_on ''disassemble'' s | Some (a, n) \<Rightarrow> printing (print_disassembly c a n s) s))"

subsection \<open>Memory\<close>

definition handle_memory_write_command :: "'k os \<Rightarrow> 'k command" where
  "handle_memory_write_command os args s =
     (if length args \<noteq> 4 then help_on ''memory'' s
      else rbind (to_integral False 64 16 (args ! 2)) (\<lambda>a. case a of
          None \<Rightarrow> Inl (Send ''Invalid Address format'')
        | Some v \<Rightarrow> rbind (parse_vector (args ! 3)) (\<lambda>bs.
            rbind (write_memory os (VirtAddr (of_int v)) bs s) (\<lambda>(_, s'). Inr ([], s')))))"

text \<open>Sixteen bytes to a line. The number of bytes is kept in an \<open>int\<close>.\<close>

function memory_lines :: "u64 \<Rightarrow> u8 list \<Rightarrow> printed list" where
  "memory_lines a bs = (if bs = [] then []
     else Out (fmt_hex_wide 16 a @ '' : '' @ join_format '' '' (map fmt_byte (take 16 bs)) @ [NEWLINE]) # memory_lines (a + 16) (drop 16 bs))"
  by pat_completeness auto
termination
  by (relation "measure (length \<circ> snd)") auto

declare memory_lines.simps [simp del]

definition memory_count :: "string list \<Rightarrow> nat result" where
  "memory_count args = (if length args \<noteq> 4 then Inr 32
     else rbind (to_integral False 64 10 (args ! 3)) (\<lambda>n. case n of
         None \<Rightarrow> Inl (Send ''Invalid number of bytes'')
       | Some v \<Rightarrow> Inr (unat (scast (of_int v :: u32) :: u64))))"

definition handle_memory_read_command :: "'k os \<Rightarrow> 'k command" where
  "handle_memory_read_command os args s =
     rbind (to_integral False 64 16 (args ! 2)) (\<lambda>a. case a of
       None \<Rightarrow> Inl (Send ''Invalid address format'')
     | Some v \<Rightarrow> rbind (memory_count args) (\<lambda>n.
         rbind (read_memory os (VirtAddr (of_int v)) n s) (\<lambda>bs. Inr (memory_lines (of_int v) bs, s))))"

definition handle_memory_command :: "'k os \<Rightarrow> 'k command" where
  "handle_memory_command os args s =
     (if length args < 3 then help_on ''memory'' s
      else if is_prefix (args ! 1) ''read'' then handle_memory_read_command os args s
      else if is_prefix (args ! 1) ''write'' then handle_memory_write_command os args s
      else help_on ''memory'' s)"

subsection \<open>Registers\<close>

definition handle_register_read :: "'k cli \<Rightarrow> 'k command" where
  "handle_register_read c args s =
     (if length args = 2 \<or> length args = 3 \<and> args ! 2 = ''all'' then
        printing (rbind (mapR (\<lambda>info. cl_print_register c info s)
          (filter (\<lambda>info. length args = 3 \<or> reg_type info = Gpr) g_register_infos)) (\<lambda>ps. Inr (concat ps))) s
      else if length args = 3 then
        (case rbind (register_info_by_name (args ! 2)) (\<lambda>info. cl_print_register c info s) of
           Inr ps \<Rightarrow> Inr (ps, s)
         | Inl e \<Rightarrow> if caught e then Inr ([Err (''Invalid register name!'' @ [NEWLINE])], s) else Inl e)
      else printing (print_help [''help'', ''registers'']) s)"

text \<open>
  Every exception raised in the \<open>try\<close> block is caught. A number is parsed as one of 8 bits,
  whatever the size of the register.
\<close>

definition opt_value :: "'a option result \<Rightarrow> 'a result" where
  "opt_value m = rbind m (\<lambda>v. case v of None \<Rightarrow> Inl BadOptionalAccess | Some x \<Rightarrow> Inr x)"

definition parsed_register_value :: "'k cli \<Rightarrow> register_info \<Rightarrow> string \<Rightarrow> reg_value result" where
  "parsed_register_value c info text =
     (case reg_fmt info of
        UintF \<Rightarrow> if reg_size info \<in> {1, 2, 4, 8} then rbind (opt_value (to_integral False 8 16 text)) (\<lambda>v. Inr (VU8 (of_int v)))
                 else Inl (Send [])
      | DoubleFloat \<Rightarrow> rbind (opt_value (to_float (cl_double c) text)) (\<lambda>v. Inr (VDouble v))
      | LongDouble \<Rightarrow> rbind (opt_value (to_float (cl_long_double c) text)) (\<lambda>v. Inr (VLongDouble v))
      | Vector \<Rightarrow> if reg_size info = 8 then rbind (parse_vector_fixed 8 text) (\<lambda>bs. Inr (VByte64 bs))
                 else if reg_size info = 16 then rbind (parse_vector_fixed 16 text) (\<lambda>bs. Inr (VByte128 bs))
                 else Inl (Send []))"

definition parse_register_value :: "'k cli \<Rightarrow> register_info \<Rightarrow> string \<Rightarrow> reg_value result" where
  "parse_register_value c info text = (case parsed_register_value c info text of
      Inr v \<Rightarrow> Inr v
    | Inl (UB m) \<Rightarrow> Inl (UB m)
    | Inl Terminate \<Rightarrow> Inl Terminate
    | Inl e \<Rightarrow> Inl (Send (''Invalid format!'' @ [NEWLINE])))"

text \<open>
  An unknown name or a malformed value is reported and changes nothing. Where the write itself
  throws, the error is left to the main loop, which reports it with the same text: what a failing
  request leaves behind is not modelled.
\<close>

definition handle_register_write :: "'k cli \<Rightarrow> 'k command" where
  "handle_register_write c args s =
     (if length args \<noteq> 4 then help_on ''register'' s
      else case rbind (register_info_by_name (args ! 2)) (\<lambda>info. rbind (parse_register_value c info (args ! 3)) (\<lambda>v. Inr (info, v))) of
          Inr (info, v) \<Rightarrow> rbind (write_reg (cl_os c) None (reg_id info) v s) (\<lambda>(_, s'). Inr ([], s'))
        | Inl e \<Rightarrow> if caught e then Inr ([What e], s) else Inl e)"

definition handle_register_command :: "'k cli \<Rightarrow> 'k command" where
  "handle_register_command c args s =
     (if length args < 2 then help_on ''register'' s
      else rbind (if is_prefix (args ! 1) ''read'' then handle_register_read c args s else Inr ([], s)) (\<lambda>(out, s1).
        rbind (if is_prefix (args ! 1) ''write'' then handle_register_write c args s1 else help_on ''register'' s1) (\<lambda>(out', s2).
        Inr (out @ out', s2))))"


end
