(* ===== verification/KD_Launch.thy ===== *)
theory KD_Launch
  imports KD_Threads KD_Support
begin

text \<open>
  Starting a program (\<open>process::launch\<close> in \<open>src/process.cpp\<close>): what the child does between the fork
  and the program, and what the parent does until it has a process to trace.
\<close>

subsection \<open>The requests\<close>

text \<open>
  A request that fails returns the text of its \<open>errno\<close>. \<open>lo_fork\<close> is the fork as the parent sees
  it, with the number of the child.
\<close>

record 'k launch_os =
  lo_fork :: "'k \<Rightarrow> (int \<times> 'k) option"
  lo_setpgid :: "'k \<Rightarrow> string + 'k"
  lo_personality :: "'k \<Rightarrow> 'k"
  lo_dup2 :: "int \<Rightarrow> int \<Rightarrow> 'k \<Rightarrow> string + 'k"
  lo_traceme :: "'k \<Rightarrow> string + 'k"
  lo_exec :: "string \<Rightarrow> 'k \<Rightarrow> string + 'k"

subsection \<open>The child\<close>

text \<open>
  The child becomes the program, leaves, or is left with an exception: then it goes on as a second
  debugger, in the handlers of its callers.
\<close>

datatype 'k child = BecomesProgram 'k | Leaves 'k | Throws kerror

definition exit_with_perror :: "'k pipe_os \<Rightarrow> pipe \<Rightarrow> string \<Rightarrow> string \<Rightarrow> 'k \<Rightarrow> 'k child" where
  "exit_with_perror po channel prefix err k = (case pipe_write po channel (ascii (prefix @ '': '' @ err)) k of
      Inl e \<Rightarrow> Throws e | Inr k' \<Rightarrow> Leaves k')"

definition or_exit :: "'k pipe_os \<Rightarrow> pipe \<Rightarrow> string \<Rightarrow> ('k \<Rightarrow> string + 'k) \<Rightarrow> 'k \<Rightarrow> ('k \<Rightarrow> 'k child) \<Rightarrow> 'k child" where
  "or_exit po channel prefix req k f = (case req k of Inl err \<Rightarrow> exit_with_perror po channel prefix err k | Inr k' \<Rightarrow> f k')"

text \<open>The replacement of the standard output is tested by calling it; it is read as a test for a value.\<close>

definition launch_child :: "'k pipe_os \<Rightarrow> 'k launch_os \<Rightarrow> bool \<Rightarrow> int option \<Rightarrow> string \<Rightarrow> pipe \<Rightarrow> 'k \<Rightarrow> 'k child" where
  "launch_child po lo debug stdout_replacement path channel k =
     or_exit po channel ''Could not set pgid'' (lo_setpgid lo) k (\<lambda>k1.
     case close_read po channel (lo_personality lo k1) of (channel', k2) \<Rightarrow>
     or_exit po channel' ''stdout replacement failed''
       (case stdout_replacement of None \<Rightarrow> Inr | Some fd \<Rightarrow> lo_dup2 lo fd 1) k2 (\<lambda>k3.
     or_exit po channel' ''Tracing failed'' (if debug then lo_traceme lo else Inr) k3 (\<lambda>k4.
     or_exit po channel' ''exec failed'' (lo_exec lo path) k4 BecomesProgram)))"

subsection \<open>The parent\<close>

text \<open>
  The process is built with two arguments where its constructor has three; it is read as attached
  when it is debugged. The pipe is closed when the function returns.
\<close>

definition launch_parent :: "'k pipe_os \<Rightarrow> 'k os \<Rightarrow> ('k, 't) hooks \<Rightarrow> nat \<Rightarrow> bool \<Rightarrow> int \<Rightarrow> pipe \<Rightarrow> 'k \<Rightarrow> ('k, 't) process result option" where
  "launch_parent po os h n debug pid channel k =
     andthen (await_child po channel k) (\<lambda>(message, channel', k1).
     if message \<noteq> [] then Some (Inl (Send (map (\<lambda>b. char_of (unat b)) message)))
     else let proc = mk_process os pid True debug k1;
              return = (\<lambda>s. Some (Inr (s\<lparr>pr_os := pipe_destroy po channel' (pr_os s)\<rparr>)))
       in if \<not> debug then return proc
          else case wait_on_signal os h n (- 1) proc of
              None \<Rightarrow> None
            | Some out \<Rightarrow> andthen out (\<lambda>(_, s1). andthen (set_ptrace_options os s1) return))"

definition process_launch :: "'k pipe_os \<Rightarrow> 'k launch_os \<Rightarrow> 'k os \<Rightarrow> ('k, 't) hooks \<Rightarrow> nat \<Rightarrow> bool \<Rightarrow> 'k \<Rightarrow> ('k, 't) process result option" where
  "process_launch po lo os h n debug k =
     andthen (mk_pipe po True k) (\<lambda>(channel, k1). case lo_fork lo k1 of
        None \<Rightarrow> Some (Inl (SendErrno ''fork failed''))
      | Some (pid, k2) \<Rightarrow> launch_parent po os h n debug pid channel k2)"

subsection \<open>What starting a program comes to\<close>

text \<open>What the kernel promises of a pipe: its descriptors are numbers, and nothing goes over -1.\<close>

definition kernel_pipes :: "'k pipe_os \<Rightarrow> bool" where
  "kernel_pipes po \<longleftrightarrow> (\<forall>n k. po_read po (- 1) n k = None) \<and> (\<forall>bs k. po_write po (- 1) bs k = None)
     \<and> (\<forall>c k a b k'. po_pipe2 po c k = Some (a, b, k') \<longrightarrow> 0 \<le> a \<and> 0 \<le> b)"

lemma mk_pipe_ends: "kernel_pipes po \<Longrightarrow> mk_pipe po c k = Inr (p, k1) \<Longrightarrow> \<exists>a b. p = [a, b] \<and> 0 \<le> a \<and> 0 \<le> b"
  by (fastforce simp: mk_pipe_def kernel_pipes_def split: option.splits)

lemma await_child_fails: "kernel_pipes po \<Longrightarrow> mk_pipe po c k = Inr (p, k1) \<Longrightarrow> await_child po p k2 = Inl (SendErrno ''Could not read from pipe'')"
  using mk_pipe_ends [of po c k p k1] by (auto simp: await_child_def close_write_def pipe_read_def fd_defs kernel_pipes_def)

lemma process_launch_outcome:
  assumes "kernel_pipes po"
  shows "process_launch po lo os h n debug k = Some (Inl (case po_pipe2 po True k of
      None \<Rightarrow> SendErrno ''Failed to create pipe''
    | Some (_, _, k') \<Rightarrow> (case lo_fork lo k' of None \<Rightarrow> SendErrno ''fork failed'' | Some _ \<Rightarrow> SendErrno ''Could not read from pipe'')))"
proof (cases "mk_pipe po True k")
  case (Inr r)
  obtain p k1 where r: "r = (p, k1)" by fastforce
  have "await_child po p k2 = Inl (SendErrno ''Could not read from pipe'')" for k2
    using await_child_fails [OF assms] Inr r by blast
  moreover have "\<exists>a b. po_pipe2 po True k = Some (a, b, k1)" using Inr r by (auto simp: mk_pipe_def split: option.splits)
  ultimately show ?thesis using Inr r
    by (auto simp: process_launch_def launch_parent_def split: option.splits)
qed (auto simp: process_launch_def mk_pipe_def split: option.splits)

lemma launch_reads_closed_pipe:
  assumes "kernel_pipes po" and "mk_pipe po c k = Inr (p, k1)"
  shows "await_child po p k1 = Inl (SendErrno ''Could not read from pipe'') \<and> (\<exists>a. pipe_destroy po p k1 = po_close po a k1)"
  using mk_pipe_ends [OF assms] await_child_fails [OF assms] by (auto simp: pipe_destroy_def close_read_def close_write_def fd_defs)

text \<open>
  The child becomes the program exactly when every request it makes succeeds. A failure of the
  first request is reported through the pipe; after any later failure the report itself fails, for
  the child has closed the end it would write to, and the child goes on behind the exception.
\<close>

theorem child_outcome:
  assumes "kernel_pipes po" and "mk_pipe po c k0 = Inr (channel, k0')"
  shows "launch_child po lo debug out path channel k = (case lo_setpgid lo k of
      Inl err \<Rightarrow> (case po_write po (hd channel) (ascii (''Could not set pgid: '' @ err)) k of
          None \<Rightarrow> Throws (SendErrno ''Could not write to pipe'') | Some k' \<Rightarrow> Leaves k')
    | Inr k1 \<Rightarrow> (case foldR (\<lambda>req. req) [case out of None \<Rightarrow> Inr | Some fd \<Rightarrow> lo_dup2 lo fd 1, if debug then lo_traceme lo else Inr, lo_exec lo path]
          (po_close po (hd channel) (lo_personality lo k1)) of
          Inl err \<Rightarrow> Throws (SendErrno ''Could not write to pipe'') | Inr k' \<Rightarrow> BecomesProgram k'))"
proof -
  obtain a b where ch: "channel = [a, b]" "0 \<le> a" using mk_pipe_ends [OF assms] by blast
  have w: "exit_with_perror po [- 1, b] prefix err k = Throws (SendErrno ''Could not write to pipe'')" for prefix err k
    using assms(1) by (simp add: exit_with_perror_def pipe_write_def fd_defs kernel_pipes_def)
  show ?thesis
  proof (cases "lo_setpgid lo k")
    case (Inl err)
    then show ?thesis by (simp add: launch_child_def or_exit_def exit_with_perror_def pipe_write_def ch fd_defs split: option.split)
  next
    case (Inr k1)
    then show ?thesis using ch(2)
      by (simp add: launch_child_def or_exit_def close_read_def fd_defs ch(1) w foldR.simps rbind_def split: sum.split)
  qed
qed

text \<open>A kernel on which a program can be started but not found.\<close>

definition sample_pipe_os :: "'k pipe_os" where
  "sample_pipe_os = \<lparr>po_pipe2 = (\<lambda>c k. Some (3, 4, k)), po_read = (\<lambda>fd n k. if fd < 0 then None else Some ([], k)),
     po_write = (\<lambda>fd bs k. if fd < 0 then None else Some k), po_close = (\<lambda>fd k. k)\<rparr>"

definition sample_calls :: "'k launch_os" where
  "sample_calls = \<lparr>lo_fork = (\<lambda>k. Some (100, k)), lo_setpgid = Inr, lo_personality = id, lo_dup2 = (\<lambda>a b. Inr), lo_traceme = Inr,
     lo_exec = (\<lambda>p k. Inl ''No such file or directory'')\<rparr>"

lemma sample_pipes: "kernel_pipes sample_pipe_os"
  by (simp add: kernel_pipes_def sample_pipe_os_def)

lemma child_outcome_witness:
  "launch_child sample_pipe_os sample_calls True None ''/a'' [3, 4] k = Throws (SendErrno ''Could not write to pipe'')"
  using child_outcome [OF sample_pipes, of True k "[3, 4]" k sample_calls True None "''/a''" k]
  by (simp add: mk_pipe_def sample_pipe_os_def sample_calls_def)

end
