(* ===== verification/KD_Shell.thy ===== *)
theory KD_Shell
  imports KD_Cli KD_Launch
begin

text \<open>
  The session (\<open>tools/kdebugger.cpp\<close>): which handler a line goes to, the loop that reads lines, and
  how a session starts.
\<close>

subsection \<open>Dispatch\<close>

text \<open>
  The branches of \<open>handle_command\<close>, in order; a word goes to the first whose name it is a prefix
  of. The name \<open>step\<close> stands in two of them.
\<close>

datatype action = DoHelp | DoBreakpoint | DoList | DoSet | DoContinue | DoThread | DoStepInstruction | DoMemory | DoRegister
  | DoDisassemble | DoWatchpoint | DoCatchpoint | DoStepOver | DoStepOut | DoStepIn | DoStepi | DoUp | DoDown | DoBacktrace
  | DoUnknown

definition branches :: "(string \<times> action) list" where
  "branches = [(''help'', DoHelp), (''breakpoint'', DoBreakpoint), (''list'', DoList), (''set'', DoSet), (''continue'', DoContinue),
     (''thread'', DoThread), (''step'', DoStepInstruction), (''memory'', DoMemory), (''register'', DoRegister),
     (''disassemble'', DoDisassemble), (''watchpoint'', DoWatchpoint), (''catchpoint'', DoCatchpoint), (''next'', DoStepOver),
     (''finish'', DoStepOut), (''step'', DoStepIn), (''stepi'', DoStepi), (''up'', DoUp), (''down'', DoDown), (''backtrace'', DoBacktrace)]"

definition action_of :: "string \<Rightarrow> action" where
  "action_of command = (case find (\<lambda>(name, a). is_prefix command name) branches of
      None \<Rightarrow> DoUnknown | Some (name, a) \<Rightarrow> a)"

text \<open>An operation that stops the process, and what is printed about the stop.\<close>

definition reporting :: "'k cli \<Rightarrow> (stop_reason \<times> 'k tprocess) result option \<Rightarrow> (printed list \<times> 'k tprocess) result option" where
  "reporting c m = fbind m (\<lambda>(r, s). Some (printing (handle_stop c r s) s))"

text \<open>\<open>wait_on_signal()\<close> waits for any thread of the process.\<close>

definition continue_process :: "'k cli \<Rightarrow> 'k tprocess \<Rightarrow> (stop_reason \<times> 'k tprocess) result option" where
  "continue_process c s = andthen (resume_all_threads (cl_os c) s) (sp_wait (cl_stepper c) (- 1))"

definition select_frame :: "'k cli \<Rightarrow> (stack \<Rightarrow> stack) \<Rightarrow> 'k tprocess \<Rightarrow> (printed list \<times> 'k tprocess) result" where
  "select_frame c f s =
     rbind (get_stack None s) (\<lambda>_. let s' = update_stack (pr_current s) f s in printing (print_code_location c s') s')"

definition perform :: "'k cli \<Rightarrow> action \<Rightarrow> string list \<Rightarrow> 'k tprocess \<Rightarrow> (printed list \<times> 'k tprocess) result option" where
  "perform c a args s =
     (let os = cl_os c; e = cl_env c; n = en_fuel e; junk = en_junk e; sp = cl_stepper c in case a of
        DoHelp \<Rightarrow> Some (printing (print_help args) s)
      | DoBreakpoint \<Rightarrow> Some (handle_breakpoint_command os junk args s)
      | DoList \<Rightarrow> Some (printing (handle_breakpoint_list_command s) s)
      | DoSet \<Rightarrow> Some (handle_breakpoint_set_command os junk args s)
      | DoContinue \<Rightarrow> reporting c (continue_process c s)
      | DoThread \<Rightarrow> Some (handle_thread_command c args s)
      | DoStepInstruction \<Rightarrow> reporting c (sp_step sp None s)
      | DoMemory \<Rightarrow> Some (handle_memory_command os args s)
      | DoRegister \<Rightarrow> Some (handle_register_command c args s)
      | DoDisassemble \<Rightarrow> Some (handle_disassemble_command c args s)
      | DoWatchpoint \<Rightarrow> Some (handle_watchpoint_command os args s)
      | DoCatchpoint \<Rightarrow> Some (handle_catchpoint_command args s)
      | DoStepOver \<Rightarrow> reporting c (step_over os sp (cl_decoder c) n junk None s)
      | DoStepOut \<Rightarrow> reporting c (step_out os sp n junk None s)
      | DoStepIn \<Rightarrow> reporting c (step_in os sp n junk None s)
      | DoStepi \<Rightarrow> reporting c (sp_step sp None s)
      | DoUp \<Rightarrow> Some (select_frame c stack_up s)
      | DoDown \<Rightarrow> Some (select_frame c stack_down s)
      | DoBacktrace \<Rightarrow> Some (printing (print_backtrace s) s)
      | DoUnknown \<Rightarrow> Some (Inr ([Err (''> Unknown Command entered.'' @ [NEWLINE])], s)))"

definition handle_command :: "'k cli \<Rightarrow> string \<Rightarrow> 'k tprocess \<Rightarrow> (printed list \<times> 'k tprocess) result option" where
  "handle_command c line s =
     (let args = split line (CHR '' '') in andthen (vec_idx args 0) (\<lambda>command. perform c (action_of command) args s))"

subsection \<open>The loop\<close>

text \<open>
  What is run for a line, and the history after it: an empty line runs the latest line again and
  is not recorded.
\<close>

definition pick_line :: "string list \<Rightarrow> string \<Rightarrow> string list \<times> string" where
  "pick_line h line = (if line = [] then (h, if h = [] then [] else last h) else (h @ [line], line))"

text \<open>
  One turn of the loop. A \<open>kdebugger::error\<close> is printed and the loop goes on, with a process
  about which nothing is said: what an operation that throws leaves behind is not modelled. Any
  other failure ends the session.
\<close>

inductive turn :: "'k cli \<Rightarrow> string list \<times> 'k tprocess \<Rightarrow> string \<Rightarrow> printed list \<Rightarrow> string list \<times> 'k tprocess \<Rightarrow> bool" for c where
  idle: "pick_line h line = (h', []) \<Longrightarrow> turn c (h, s) line [] (h', s)"
| ran: "pick_line h line = (h', cmd) \<Longrightarrow> cmd \<noteq> [] \<Longrightarrow> handle_command c cmd s = Some (Inr (out, s')) \<Longrightarrow> turn c (h, s) line out (h', s')"
| failed: "pick_line h line = (h', cmd) \<Longrightarrow> cmd \<noteq> [] \<Longrightarrow> handle_command c cmd s = Some (Inl e) \<Longrightarrow> caught e \<Longrightarrow>
    turn c (h, s) line [What e] (h', s')"

text \<open>The loop over the lines that are entered, up to the end of the input.\<close>

inductive main_loop :: "'k cli \<Rightarrow> string list \<times> 'k tprocess \<Rightarrow> string list \<Rightarrow> printed list \<Rightarrow> string list \<times> 'k tprocess \<Rightarrow> bool" for c where
  eof: "main_loop c st [] [] st"
| line: "turn c st l out st1 \<Longrightarrow> main_loop c st1 ls outs st2 \<Longrightarrow> main_loop c st (l # ls) (out @ outs) st2"

inductive_simps turn_iff: "turn c (h, s) line out (h', s')"
inductive_cases main_loop_consE: "main_loop c st (l # ls) outs st2"
inductive_cases main_loop_nilE: "main_loop c st [] outs st2"

subsection \<open>Starting\<close>

text \<open>\<open>std::atoi\<close>; a number out of range is undefined.\<close>

definition atoi :: "string \<Rightarrow> int result" where
  "atoi str =
     (let s = dropWhile (\<lambda>ch. ch \<in> {CHR '' '', char_of (9 :: nat), NEWLINE, char_of (11 :: nat), char_of (12 :: nat), char_of (13 :: nat)}) str;
          neg = (s \<noteq> [] \<and> hd s = CHR ''-'');
          ds = takeWhile (\<lambda>ch. digit_of 10 ch \<noteq> None) (if s \<noteq> [] \<and> (hd s = CHR ''-'' \<or> hd s = CHR ''+'') then tl s else s);
          v = (if neg then - digits_value 10 0 ds else digits_value 10 0 ds)
      in if in_type True 32 v then Inr v else Inl (UB ''number out of range''))"

text \<open>What starting a program needs of the system besides the requests a running process makes.\<close>

record 'k starter =
  st_pipe :: "'k pipe_os"
  st_calls :: "'k launch_os"
  st_hooks :: "('k, target) hooks"

text \<open>
  \<open>attach\<close> of the tool: a running process is taken by its number, anything else is the path of a
  program to start.
\<close>

definition attach :: "env \<Rightarrow> 'k os \<Rightarrow> 'k starter \<Rightarrow> 'k \<Rightarrow> string list \<Rightarrow> (printed list \<times> 'k tprocess) result option" where
  "attach e os st k argv =
     (if length argv = 3 \<and> argv ! 1 = ''-p'' then
        andthen (atoi (argv ! 2)) (\<lambda>pid. Some (silently (target_attach e os pid k)))
      else andthen (vec_idx argv 1) (\<lambda>path.
        fbind (process_launch (st_pipe st) (st_calls st) os (st_hooks st) (en_fuel e) True k) (\<lambda>s0.
        andthen (target_launch e os path s0) (\<lambda>s.
        Some (Inr ([Out (''Launched process with PID '' @ fmt_int (pr_pid s) @ [NEWLINE])], s))))))"

text \<open>An interrupt from the keyboard stops the process; when it comes is not part of the loop.\<close>

definition handle_sigint :: "'k os \<Rightarrow> 'k tprocess \<Rightarrow> 'k tprocess" where
  "handle_sigint os s = s\<lparr>pr_os := os_kill os (pr_pid s) SIGSTOP (pr_os s)\<rparr>"

text \<open>
  Two helpers that nothing calls. Where the request fails the tool exits with a text on the standard
  error, which \<open>perror\<close> follows with that of the error.
\<close>

datatype last_words = LastWords string | LastError string

definition cli_resume :: "'k os \<Rightarrow> int \<Rightarrow> 'k \<Rightarrow> last_words + 'k" where
  "cli_resume os pid k = (case os_cont os pid k of
      None \<Rightarrow> Inl (LastWords (''> Couldn'' @ [CHR 0x27] @ ''t continue.'' @ [NEWLINE])) | Some k' \<Rightarrow> Inr k')"

definition cli_wait_on_signal :: "'k os \<Rightarrow> int \<Rightarrow> 'k \<Rightarrow> last_words + 'k" where
  "cli_wait_on_signal os pid k = (case os_waitpid os pid k of
      None \<Rightarrow> Inl (LastError (''> waitpid failed.'' @ [NEWLINE])) | Some (_, _, k') \<Rightarrow> Inr k')"

text \<open>Continuing a thread of a process that catches no system calls makes the request of the helper.\<close>

lemma send_continue_request:
  "send_continue os t s = Inr s' \<Longrightarrow> cp_mode (pr_policy s) = CatchNone \<Longrightarrow> cli_resume os t (pr_os s) = Inr (pr_os s')"
  by (auto simp: send_continue_def cli_resume_def rbind_eq_Inr request_Inr update_thread_def)

text \<open>
  \<open>main\<close>: what is printed, and the state the session ends in when it ends at the end of the input.
\<close>

inductive main_run :: "'k cli \<Rightarrow> 'k starter \<Rightarrow> 'k \<Rightarrow> string list \<Rightarrow> string list \<Rightarrow> printed list \<Rightarrow> 'k tprocess option \<Rightarrow> bool"
  for c st k where
  no_argument: "length argv = 1 \<Longrightarrow> main_run c st k argv ls [Err (''> No arguments were passed.'' @ [NEWLINE])] None"
| not_started: "length argv \<noteq> 1 \<Longrightarrow> attach (cl_env c) (cl_os c) st k argv = Some (Inl e) \<Longrightarrow> caught e \<Longrightarrow> main_run c st k argv ls [What e] None"
| session: "length argv \<noteq> 1 \<Longrightarrow> attach (cl_env c) (cl_os c) st k argv = Some (Inr (out, s)) \<Longrightarrow> main_loop c ([], s) ls outs (h, s') \<Longrightarrow>
    main_run c st k argv ls (out @ outs) (Some s')"

inductive_simps main_run_iff: "main_run c st k argv ls outs fin"

subsection \<open>Words of a line\<close>

definition hex_word :: "nat \<Rightarrow> string" where
  "hex_word n = ''0x'' @ show_nat 16 n"

lemma to_integral_hex_word: "to_integral False w 16 (hex_word n) = (if n < 2 ^ w then Inr (Some (int n)) else Inl (UB ''uninitialised number''))"
  using to_integral_shown [of 16 "''0x''" w n] by (simp only: hex_word_def) simp

lemmas number_words = to_integral_hex_word to_integral_shown [of 10 "[]", simplified]

definition plain :: "string \<Rightarrow> bool" where
  "plain w \<longleftrightarrow> w \<noteq> [] \<and> CHR '' '' \<notin> set w"

lemma digit_char_no_space: "d < 16 \<Longrightarrow> CHR '' '' \<noteq> digit_char d"
proof
  have "digit_of 16 (CHR '' '') = None" by code_simp
  moreover assume "d < 16" "CHR '' '' = digit_char d"
  ultimately show False using digit_of_char [of d 16] by simp
qed

lemma plain_show_nat: "2 \<le> base \<Longrightarrow> base \<le> 16 \<Longrightarrow> plain (show_nat base n)"
  using show_nat_digits [of base n] by (auto simp: plain_def digit_of_def)

lemma plain_hex: "plain (hex_word n)"
  using plain_show_nat [of 16 n] by (simp add: plain_def hex_word_def)

lemma show_byte_no_space: "CHR '' '' \<notin> set (show_byte b)"
proof -
  have "unat b < 2 ^ LENGTH(8)" by (rule unsigned_less)
  then have "unat b div 16 < 16" "unat b mod 16 < 16" by (simp_all add: less_mult_imp_div_less)
  then show ?thesis by (simp add: show_byte_def digit_char_no_space)
qed

lemma plain_show_vector: "plain (show_vector bs)"
proof -
  have "CHR '' '' \<notin> set (show_bytes bs)" by (induction bs rule: show_bytes.induct) (auto simp: show_byte_no_space)
  then show ?thesis by (simp add: plain_def show_vector_def)
qed

lemmas plain_words = plain_hex plain_show_vector plain_show_nat [of 10, simplified]

definition command_line :: "string list \<Rightarrow> string" where
  "command_line ws = join_items (CHR '' '') ws"

lemma handle_command_words:
  assumes "ws \<noteq> []" and "\<forall>w\<in>set ws. plain w"
  shows "handle_command c (command_line ws) s = perform c (action_of (hd ws)) ws s"
proof -
  have "split (join_items (CHR '' '') ws) (CHR '' '') = ws"
    using assms by (intro split_join) (auto simp: plain_def)
  then show ?thesis using assms(1) by (cases ws) (simp_all add: handle_command_def command_line_def vec_idx_def)
qed

subsection \<open>Memory\<close>

lemma memory_count_shown: "length ws = 3 \<Longrightarrow> n < 2 ^ 31 \<Longrightarrow> memory_count (ws @ [show_nat 10 n]) = Inr n"
proof -
  assume a: "length ws = 3" "n < 2 ^ 31"
  have "(ws @ [show_nat 10 n]) ! 3 = show_nat 10 n" using a(1) by (simp add: nth_append)
  moreover have "unat (scast (of_nat n :: u32) :: u64) = n"
  proof -
    have "sint (of_nat n :: u32) = int n"
      using signed_take_bit_int_eq_self [of 31 "int n"] a(2) by (simp add: signed_of_nat)
    then show ?thesis using a(2) by (simp add: scast_eq unat_of_nat)
  qed
  ultimately show ?thesis using a by (simp add: memory_count_def number_words)
qed

lemma mem_range_overwrite: "length bs \<le> 2 ^ 64 \<Longrightarrow> mem_range (overwrite a bs m) (a, length bs) = bs"
  by (rule nth_equalityI) (auto simp: mem_range_def overwrite_def unat_of_nat)

lemma action_of_memory: "action_of ''memory'' = DoMemory"
  by (simp add: action_of_def branches_def is_prefix_def)

lemma memory_words: "\<not> is_prefix ''write'' ''read''" "is_prefix ''write'' ''write''" "is_prefix ''read'' ''read''"
    "plain ''memory''" "plain ''write''" "plain ''read''"
  by (simp_all add: is_prefix_def plain_def)

lemma memory_write_runs:
  assumes "n < 2 ^ 64"
  shows "handle_command c (command_line [''memory'', ''write'', hex_word n, show_vector bs]) s
    = Some (rbind (write_memory (cl_os c) (VirtAddr (of_nat n)) bs s) (\<lambda>(_, s'). Inr ([], s')))"
proof -
  have "parse_vector (show_vector bs) = Inr bs"
    using vector_bytes_shown [of "''[''" bs] by (simp add: parse_vector_def expect_def char_at_def show_vector_def)
  then show ?thesis using assms
    by (simp add: handle_command_words plain_words perform_def Let_def action_of_memory handle_memory_command_def
      handle_memory_write_command_def memory_words number_words)
qed

lemma memory_read_runs:
  assumes "n < 2 ^ 64" and "k < 2 ^ 31"
  shows "handle_command c (command_line [''memory'', ''read'', hex_word n, show_nat 10 k]) s
    = Some (rbind (read_memory (cl_os c) (VirtAddr (of_nat n)) k s) (\<lambda>bs. Inr (memory_lines (of_nat n) bs, s)))"
  using assms memory_count_shown [of "[''memory'', ''read'', hex_word n]" k]
  by (simp add: handle_command_words plain_words perform_def Let_def action_of_memory handle_memory_command_def
      handle_memory_read_command_def memory_words number_words)

text \<open>
  C18: the bytes a \<open>memory write\<close> command puts into the process are the bytes the next
  \<open>memory read\<close> of that address and length prints; neither changes anything else.
\<close>

theorem memory_read_shows_what_was_written:
  assumes "memory_of (cl_os c) (pr_pid s) mem" and "n < 2 ^ 64" and "length bs < 2 ^ 31"
    and "handle_command c (command_line [''memory'', ''write'', hex_word n, show_vector bs]) s = Some (Inr (out, s1))"
    and "handle_command c (command_line [''memory'', ''read'', hex_word n, show_nat 10 (length bs)]) s1 = Some (Inr (out', s2))"
  shows "out = [] \<and> s1 = s\<lparr>pr_os := pr_os s1\<rparr> \<and> s2 = s1 \<and> out' = memory_lines (of_nat n) bs"
proof -
  have w: "write_memory (cl_os c) (VirtAddr (of_nat n)) bs s = Inr ((), s1)" "out = []"
    using assms(4) by (auto simp: memory_write_runs [OF assms(2)] rbind_eq_Inr)
  have k: "mem (pr_os s1) = overwrite (of_nat n) bs (mem (pr_os s)) \<and> s1 = s\<lparr>pr_os := pr_os s1\<rparr>"
    using write_from_memory [of "cl_os c" "VirtAddr (of_nat n)" bs 0 s s1 mem "mem (pr_os s)"] w(1) assms(1,3)
    by (auto simp: write_memory_def rbind_eq_Inr overwrite_def)
  have pid: "pr_pid s1 = pr_pid s" using k by (metis process.select_convs(1) process.surjective process.update_convs(13))
  obtain bs' where r: "read_memory (cl_os c) (VirtAddr (of_nat n)) (length bs) s1 = Inr bs'" "s2 = s1" "out' = memory_lines (of_nat n) bs'"
    using assms(5) by (auto simp: memory_read_runs [OF assms(2,3)] rbind_eq_Inr)
  have "bs' = bs"
    using read_memory_bytes [OF _ r(1)] assms(1,3) pid k by (simp add: mem_range_overwrite)
  then show ?thesis using w(2) k r(2,3) by simp
qed

definition toy_cli :: "(u64 \<Rightarrow> u8) cli" where
  "toy_cli = \<lparr>cl_env = mini_env, cl_os = sample_os,
     cl_stepper = \<lparr>sp_wait = (\<lambda>pid s. None), sp_step = (\<lambda>otid s. Some (Inl (SendErrno ''Could not single step'')))\<rparr>,
     cl_decoder = (\<lambda>a bs. Some (1, ''nop'')), cl_sigabbrev = (\<lambda>i. Some ''TRAP''), cl_source = (\<lambda>p. []), cl_double = (\<lambda>w. (0, None)),
     cl_long_double = (\<lambda>w. (0, None)), cl_print_register = (\<lambda>info s. Inr [])\<rparr>"

lemma memory_read_shows_what_was_written_witness:
  "\<exists>s1. handle_command toy_cli (command_line [''memory'', ''write'', hex_word 0x40, show_vector [1, 2, 3]]) toy_process = Some (Inr ([], s1))
     \<and> handle_command toy_cli (command_line [''memory'', ''read'', hex_word 0x40, show_nat 10 3]) s1
       = Some (Inr ([Out (''0x00000000000040 : 01 02 03'' @ [NEWLINE])], s1))"
proof -
  have os: "cl_os toy_cli = sample_os" and len: "length [1 :: u8, 2, 3] = 3" by (simp_all add: toy_cli_def)
  obtain s1 where "write_memory sample_os (VirtAddr (of_nat 0x40)) [1, 2, 3] toy_process = Inr ((), s1)"
    by (simp add: write_memory_def write_from.simps word_to_write_def read_memory_def request_def sample_os_def)
  then have w: "handle_command toy_cli (command_line [''memory'', ''write'', hex_word 0x40, show_vector [1, 2, 3]]) toy_process = Some (Inr ([], s1))"
    using memory_write_runs [where n = "0x40" and c = toy_cli and bs = "[1, 2, 3]" and s = toy_process] os by simp
  obtain bs where "read_memory sample_os (VirtAddr (of_nat 0x40)) 3 s1 = Inr bs" by (simp add: read_memory_def sample_os_def)
  then have r: "handle_command toy_cli (command_line [''memory'', ''read'', hex_word 0x40, show_nat 10 (length [1 :: u8, 2, 3])]) s1
      = Some (Inr (memory_lines (of_nat 0x40) bs, s1))"
    unfolding len using memory_read_runs [where n = "0x40" and k = 3 and c = toy_cli and s = s1] os by simp
  have "memory_lines (0x40 :: u64) [1, 2, 3] = [Out (''0x00000000000040 : 01 02 03'' @ [NEWLINE])]" by code_simp
  with memory_read_shows_what_was_written [where mem = "\<lambda>k. k", OF _ _ _ w r] w r show ?thesis unfolding len by (auto simp: os sample_memory)
qed

text \<open>
  No word is sent to the branch that steps into a call, since another branch stands before it under
  the same name; every other branch is reached by its own name.
\<close>

theorem commands_reach_their_branch:
  "action_of w \<noteq> DoStepIn \<and> (\<forall>(name, a)\<in>set branches. a \<noteq> DoStepIn \<longrightarrow> action_of name = a)"
proof -
  have "action_of w \<noteq> DoStepIn" by (simp add: action_of_def branches_def)
  moreover have "\<forall>(name, a)\<in>set branches. a \<noteq> DoStepIn \<longrightarrow> action_of name = a" by code_simp
  ultimately show ?thesis by blast
qed

lemma commands_reach_their_branch_witness: "action_of ''step'' \<noteq> DoStepIn \<and> action_of ''next'' = DoStepOver"
  using commands_reach_their_branch [of "''step''"] by (simp add: branches_def)

subsection \<open>The history\<close>

text \<open>
  After any session the history holds the lines entered that were not empty, in their order,
  whatever failed; an empty line does what the latest of them does, and is not recorded.
\<close>

theorem empty_line_repeats_latest:
  assumes "main_loop c ([], s) ls outs (h, s')"
  shows "h = filter (\<lambda>l. l \<noteq> []) ls
    \<and> (turn c (h, s') [] out (h2, s2) \<longleftrightarrow> h2 = h \<and> (if h = [] then out = [] \<and> s2 = s' else turn c (h, s') (last h) out (h @ [last h], s2)))"
proof -
  have "snd (pick_line h l) = [] \<longleftrightarrow> l = [] \<and> (h = [] \<or> last h = [])" for h l by (simp add: pick_line_def)
  have hist: "main_loop c (h0, s) ls outs (h, s') \<Longrightarrow> h = h0 @ filter (\<lambda>l. l \<noteq> []) ls" for h0 s
  proof (induction ls arbitrary: h0 s outs)
    case Nil
    then show ?case by (auto elim: main_loop_nilE)
  next
    case (Cons l ls)
    then obtain out1 outs1 h1 s1 where t: "turn c (h0, s) l out1 (h1, s1)" "main_loop c (h1, s1) ls outs1 (h, s')"
      by (metis main_loop_consE surj_pair)
    have "h1 = h0 @ (if l = [] then [] else [l])" using t(1) by (auto simp: turn_iff pick_line_def split: if_splits)
    then show ?case using Cons.IH [OF t(2)] by simp
  qed
  have h: "h = filter (\<lambda>l. l \<noteq> []) ls" using hist [OF assms] by simp
  then have "[] \<notin> set h" by simp
  then have "h \<noteq> [] \<Longrightarrow> last h \<noteq> []" by (metis last_in_set)
  then show ?thesis using h by (cases "h = []") (auto simp: turn_iff pick_line_def)
qed

lemma empty_line_repeats_latest_witness:
  "turn toy_cli ([''zz''], toy_process) [] [Err (''> Unknown Command entered.'' @ [NEWLINE])] ([''zz''], toy_process)"
proof -
  let ?e = "Err (''> Unknown Command entered.'' @ [NEWLINE])"
  have "action_of ''zz'' = DoUnknown" "plain ''zz''" by (simp_all add: action_of_def branches_def is_prefix_def plain_def)
  then have r: "handle_command toy_cli ''zz'' toy_process = Some (Inr ([?e], toy_process))"
    using handle_command_words [of "[''zz'']" toy_cli toy_process] by (simp add: command_line_def perform_def Let_def)
  have t: "turn toy_cli (h, toy_process) ''zz'' [?e] (h @ [''zz''], toy_process)" for h
    using r by (simp add: turn_iff pick_line_def)
  have "main_loop toy_cli ([], toy_process) [''zz''] ([?e] @ []) ([''zz''], toy_process)"
    by (rule main_loop.line [OF _ main_loop.eof]) (use t [of "[]"] in simp)
  from empty_line_repeats_latest [OF this, of "[?e]" "[''zz'']" toy_process] t [of "[''zz'']"] show ?thesis by simp
qed

subsection \<open>Starting a session\<close>

text \<open>
  C38: as it is written the tool never gets to its prompt: a program it starts is never traced,
  for the pipe it waits on is closed, and a process it attaches to is given up when the directory
  \<open>/proc\<close> is opened as its file. With the path of a program it prints why the pipe could not be
  read, or made, or why it could not fork, and ends.
\<close>

theorem no_session_starts:
  assumes "kernel_pipes (st_pipe st)" and "\<And>fd len. os_open (en_files (cl_env c)) ''/proc'' = Some fd \<Longrightarrow> os_mmap (en_files (cl_env c)) fd len = None"
  shows "\<not> main_run c st k argv ls outs (Some s)
    \<and> (\<exists>m\<in>{''Failed to create pipe'', ''fork failed'', ''Could not read from pipe''}. main_run c st k [tool, path] ls [What (SendErrno m)] None)"
proof
  have launch: "\<exists>m\<in>{''Failed to create pipe'', ''fork failed'', ''Could not read from pipe''}.
      process_launch (st_pipe st) (st_calls st) os h n debug k = Some (Inl (SendErrno m))" for os h n debug
    by (auto simp: process_launch_outcome [OF assms(1)] split: option.splits)
  have "attach (cl_env c) (cl_os c) st k argv \<noteq> Some (Inr (out, s0))" for out s0
  proof (cases "length argv = 3 \<and> argv ! 1 = ''-p''")
    case True
    have "create_loaded_elf (cl_env c) (cl_os c) ''/proc'' s \<noteq> Inr d" for s d
      using assms(2) by (auto simp: create_loaded_elf_def load_object_def rbind_eq_Inr elf_open_def split: option.splits)
    then have "target_attach (cl_env c) (cl_os c) pid k \<noteq> Inr s" for pid s by (auto simp: target_attach_def rbind_eq_Inr)
    then show ?thesis using True
      by (auto simp: attach_def andthen_def silently_def rbind_eq_Inr split: sum.splits)
  next
    case False
    from launch obtain m where "process_launch (st_pipe st) (st_calls st) (cl_os c) (st_hooks st) (en_fuel (cl_env c)) True k = Some (Inl (SendErrno m))"
      by blast
    then show ?thesis using False by (auto simp: attach_def andthen_def split: sum.splits)
  qed
  then show "\<not> main_run c st k argv ls outs (Some s)" by (auto simp: main_run_iff)
  from launch obtain m where m: "m \<in> {''Failed to create pipe'', ''fork failed'', ''Could not read from pipe''}"
      "process_launch (st_pipe st) (st_calls st) (cl_os c) (st_hooks st) (en_fuel (cl_env c)) True k = Some (Inl (SendErrno m))"
    by (rule bexE)
  then have "main_run c st k [tool, path] ls [What (SendErrno m)] None"
    by (simp add: main_run_iff attach_def vec_idx_def)
  then show "\<exists>m\<in>{''Failed to create pipe'', ''fork failed'', ''Could not read from pipe''}. main_run c st k [tool, path] ls [What (SendErrno m)] None"
    by (rule bexI [OF _ m(1)])
qed

text \<open>A system whose only file that cannot be mapped is the directory.\<close>

definition dir_files :: file_os where
  "dir_files = \<lparr>os_open = (\<lambda>p. Some (if p = ''/proc'' then 4 else 3)), os_fstat_size = (\<lambda>fd. Some 289),
     os_mmap = (\<lambda>fd n. if fd = 4 then None else Some mini_image)\<rparr>"

definition toy_starter :: "(u64 \<Rightarrow> u8) starter" where
  "toy_starter = \<lparr>st_pipe = sample_pipe_os, st_calls = sample_calls, st_hooks = target_hooks mini_env sample_os (\<lambda>r s. Inr s)\<rparr>"

lemma no_session_starts_witness:
  "(\<exists>m. main_run (toy_cli\<lparr>cl_env := mini_env\<lparr>en_files := dir_files\<rparr>\<rparr>) toy_starter (\<lambda>a. 0) [''kdebugger'', ''/a''] [] [What (SendErrno m)] None)
    \<and> (\<forall>outs s. \<not> main_run (toy_cli\<lparr>cl_env := mini_env\<lparr>en_files := dir_files\<rparr>\<rparr>) toy_starter (\<lambda>a. 0) [''kdebugger'', ''-p'', ''7''] [] outs (Some s))"
proof -
  let ?c = "toy_cli\<lparr>cl_env := mini_env\<lparr>en_files := dir_files\<rparr>\<rparr>"
  have pipes: "kernel_pipes (st_pipe toy_starter)" by (simp add: toy_starter_def sample_pipes)
  have dir: "os_open (en_files (cl_env ?c)) ''/proc'' = Some fd \<Longrightarrow> os_mmap (en_files (cl_env ?c)) fd len = None" for fd len
    by (simp add: dir_files_def)
  from no_session_starts [OF pipes dir] show ?thesis by blast
qed

subsection \<open>Registers\<close>

lemma register_info_by_mem: "register_info_by f = Inr info \<Longrightarrow> info \<in> set g_register_infos"
  by (auto simp: register_info_by_def split: option.splits dest: find_if_SomeD)

lemma uint_size: "info \<in> set g_register_infos \<Longrightarrow> reg_fmt info = UintF \<Longrightarrow> reg_size info \<in> {1, 2, 4, 8}"
  using all_infos_ok by (fastforce simp: info_ok_def)

text \<open>
  A register of any size can be given the numbers of one byte and no other: the value is
  parsed as one byte, and a larger number leaves the parser's variable unset.
\<close>

theorem register_write_takes_one_byte:
  assumes "register_info_by_name name = Inr info" and "reg_fmt info = UintF" and "plain name"
  shows "handle_command c (command_line [''register'', ''write'', name, hex_word n]) s = Some (if n < 256
    then rbind (write_reg (cl_os c) None (reg_id info) (VU8 (of_nat n)) s) (\<lambda>(_, s'). Inr ([], s'))
    else Inl (UB ''uninitialised number''))"
proof -
  have d: "action_of ''register'' = DoRegister" "plain ''register''" by (simp_all add: action_of_def branches_def is_prefix_def plain_def)
  have z: "reg_size info \<in> {1, 2, 4, 8}"
    using assms(1,2) uint_size by (auto simp: register_info_by_name_def dest: register_info_by_mem)
  have "parse_register_value c info (hex_word n) = (if n < 256 then Inr (VU8 (of_nat n)) else Inl (UB ''uninitialised number''))"
    using z assms(2) by (simp add: parse_register_value_def parsed_register_value_def opt_value_def number_words)
  then show ?thesis using assms d
    by (cases "write_reg (cl_os c) None (reg_id info) (VU8 (of_nat n)) s")
      (simp_all add: handle_command_words plain_words memory_words perform_def Let_def handle_register_command_def
        handle_register_write_def split_beta)
qed

lemma register_write_takes_one_byte_witness:
  "handle_command toy_cli (command_line [''register'', ''write'', ''rax'', hex_word 0x100]) toy_process = Some (Inl (UB ''uninitialised number''))"
proof -
  have "register_info_by_name ''rax'' = Inr (g_register_infos ! 0)"
    by (simp add: register_info_by_name_def register_info_by_def g_register_infos_def raw_registers_def info_of_raw_def gpr64_def)
  moreover have "reg_fmt (g_register_infos ! 0) = UintF" using rax_info(2) by (simp add: rid_rax_def)
  ultimately have "register_info_by_name ''rax'' = Inr (g_register_infos ! 0)" "reg_fmt (g_register_infos ! 0) = UintF" by auto
  from register_write_takes_one_byte [OF this, of toy_cli "0x100" toy_process] show ?thesis by (simp add: plain_def)
qed

subsection \<open>Threads\<close>

text \<open>
  The command that selects a thread accepts any number. After it has selected a thread that
  does not exist, the next command that needs the registers throws an exception that the main
  loop does not catch: no run of the loop gets past it.
\<close>

theorem unknown_thread_ends_session:
  assumes "\<not> has_thread (int t) s" and "t < 2 ^ 31"
  shows "\<not> main_loop c (h, s) (command_line [''thread'', ''select'', show_nat 10 t] # ''disassemble'' # ls) outs st"
proof
  assume "main_loop c (h, s) (command_line [''thread'', ''select'', show_nat 10 t] # ''disassemble'' # ls) outs st"
  then obtain out1 h1 s1 out2 h2 s2 where t: "turn c (h, s) (command_line [''thread'', ''select'', show_nat 10 t]) out1 (h1, s1)"
      "turn c (h1, s1) ''disassemble'' out2 (h2, s2)"
    by (metis main_loop_consE surj_pair)
  let ?s = "set_current_thread (int t) s"
  have d: "action_of ''thread'' = DoThread" "plain ''thread''" "plain ''select''" "\<not> is_prefix ''select'' ''list''" "is_prefix ''select'' ''select''"
      "action_of ''disassemble'' = DoDisassemble" "plain ''disassemble''"
    by (simp_all add: action_of_def branches_def is_prefix_def plain_def)
  have "to_integral True 32 10 (show_nat 10 t) = Inr (Some (int t))"
    using to_integral_digits [of "show_nat 10 t" 10 "[]" True 32] show_nat_digits [of 10 t] assms(2) by (simp add: in_type_def)
  then have 1: "handle_command c (command_line [''thread'', ''select'', show_nat 10 t]) s = Some (Inr ([], ?s))"
    by (simp add: handle_command_words plain_words d perform_def Let_def handle_thread_command_def)
  have "get_pc None ?s = Inl OutOfRange"
    using assms(1) by (simp add: get_pc_def read_reg_def get_registers_def tid_of_def thread_at_def set_current_thread_def has_thread_def map_at_def)
  then have "perform c DoDisassemble ws ?s = Some (Inl OutOfRange)" for ws
    by (simp add: perform_def Let_def handle_disassemble_command_def)
  then have 2: "handle_command c ''disassemble'' ?s = Some (Inl OutOfRange)"
    using handle_command_words [of "[''disassemble'']" c ?s] d by (simp add: command_line_def)
  have "command_line [''thread'', ''select'', show_nat 10 t] \<noteq> []" by (simp add: command_line_def)
  then have "s1 = ?s" using t(1) 1 by (auto simp: turn_iff pick_line_def)
  then show False using t(2) 2 by (auto simp: turn_iff pick_line_def)
qed

lemma unknown_thread_ends_session_witness:
  "\<not> main_loop toy_cli ([], toy_process) [command_line [''thread'', ''select'', show_nat 10 7], ''disassemble''] outs st"
  using unknown_thread_ends_session [of 7 toy_process toy_cli "[]" "[]" outs st] by (simp add: has_thread_def toy_process_fields)


subsection \<open>Deleting a breakpoint\<close>

lemma remove_site_effect:
  assumes "remove_site_by_address os a s = Inr (u, s')" and "distinct (site_addrs s)"
  shows "pr_target s' = pr_target s \<and> set (site_addrs s') = set (site_addrs s) - {a} \<and> distinct (site_addrs s')"
proof -
  obtain sites s1 where r: "sp_remove_by_address bs_at_address (site_disable os) a (pr_sites s) s = Inr (sites, s1)" "s' = s1\<lparr>pr_sites := sites\<rparr>"
    using assms(1) by (auto simp: remove_site_by_address_def rbind_eq_Inr)
  then have "pr_target s1 = pr_target s"
    by (auto simp: sp_remove_by_address_def sp_remove_at_def rbind_eq_Inr keeps_def shape_def split: option.splits dest!: site_disable_keeps)
  then show ?thesis
    using site.remove_by_address_removes [OF r(1)] assms(2) r(2) by (simp add: site_addrs_def)
qed

lemma remove_sites_effect:
  assumes "remove_sites os as s = Inr s'" and "distinct (site_addrs s)"
  shows "pr_target s' = pr_target s \<and> set (site_addrs s') = set (site_addrs s) - set as \<and> distinct (site_addrs s')"
  using assms
proof (induction as arbitrary: s)
  case Nil
  then show ?case by (simp add: remove_sites_def)
next
  case (Cons a as)
  then obtain u s1 where "remove_site_by_address os a s = Inr (u, s1)" "remove_sites os as s1 = Inr s'"
    by (auto simp: remove_sites_def rbind_eq_Inr)
  then show ?case using Cons.IH remove_site_effect Cons.prems(2) by fastforce
qed

lemma site_of_gone: "a \<notin> bs_address ` set bs \<Longrightarrow> site_of h a bs = Inl (UB ''dangling site'')"
proof -
  assume "a \<notin> bs_address ` set bs"
  then have "find_if (\<lambda>b. bs_address b = a \<and> bs_parent b = Some h) bs = None" unfolding find_if_None by blast
  then show ?thesis by (simp add: site_of_def)
qed

text \<open>
  C39: deleting a breakpoint that has a site never succeeds: the sites are freed first, and
  removing the breakpoint then switches them off.
\<close>

theorem deleting_breakpoint_uses_freed_sites:
  assumes "distinct (site_addrs s)" and "target_of s = Inr tg" and "sp_get_by_id bp_id (of_nat i) (tg_breakpoints tg) = Inr k"
    and "bp_sites (tg_breakpoints tg ! k) \<noteq> []" and "i < 2 ^ 32"
  shows "handle_breakpoint_toggle os [w, ''delete'', show_nat 10 i] s =
    (case remove_sites os (bp_sites (tg_breakpoints tg ! k)) s of Inl e \<Rightarrow> Inl e | Inr s1 \<Rightarrow> Inl (UB ''dangling site''))"
proof -
  let ?bp = "tg_breakpoints tg ! k"
  have no_dot: "CHR ''.'' \<notin> set (show_nat 10 i)" using show_nat_digits [of 10 i] by (auto simp: digit_of_def)
  then have id: "takeWhile (\<lambda>ch. ch \<noteq> CHR ''.'') (show_nat 10 i) = show_nat 10 i" by (simp add: takeWhile_eq_all_conv) blast
  have p: "\<not> is_prefix ''delete'' ''enable''" "\<not> is_prefix ''delete'' ''disable''" "is_prefix ''delete'' ''delete''" by (simp_all add: is_prefix_def)
  have d: "handle_breakpoint_toggle os [w, ''delete'', show_nat 10 i] s
      = silently (rbind (remove_sites os (bp_sites ?bp) s) (remove_breakpoint os (of_nat i)))"
    using assms(2,3,5) by (simp add: handle_breakpoint_toggle_def vec_idx_def Let_def no_dot id number_words p)
  show ?thesis
  proof (cases "remove_sites os (bp_sites ?bp) s")
    case (Inr s1)
    obtain a as where a: "bp_sites ?bp = a # as" using assms(4) by (cases "bp_sites ?bp") auto
    have t: "pr_target s1 = pr_target s" "a \<notin> bs_address ` set (pr_sites s1)"
      using remove_sites_effect [OF Inr assms(1)] a by (auto simp: site_addrs_def)
    have "target_of s1 = Inr tg" using assms(2) t(1) by (simp add: target_of_def)
    moreover have "bp_disable os ?bp s1 = Inl (UB ''dangling site'')"
      using t(2) by (simp add: bp_disable_def for_each_site_def a site_of_gone)
    ultimately have "remove_breakpoint os (of_nat i) s1 = Inl (UB ''dangling site'')"
      using assms(3) by (auto simp: remove_breakpoint_def sp_remove_by_id_def sp_remove_at_def sp_get_by_id_def split: option.splits)
    then show ?thesis using d Inr by (simp add: silently_def)
  qed (simp add: d silently_def)
qed

lemma deleting_breakpoint_uses_freed_sites_witness:
  "handle_breakpoint_toggle sample_os [''breakpoint'', ''delete'', ''1''] toy_created = Inl (UB ''dangling site'')"
proof -
  let ?bp = "toy_function_bp\<lparr>bp_sites := [VirtAddr 0x555555555104], bp_next_site := 2\<rparr>"
  have t: "target_of toy_created = Inr (toy_target\<lparr>tg_next_id := 1, tg_next_handle := 1, tg_breakpoints := [?bp]\<rparr>)"
    by (simp add: target_of_def toy_created_def)
  have b: "sp_get_by_id bp_id (of_nat 1) [?bp] = Inr 0" "show_nat 10 1 = ''1''"
    by (simp_all add: sp_get_by_id_def sp_find_by_id_def toy_function_bp_def mk_breakpoint_def toy_target_def show_nat.simps digit_char_def)
      code_simp
  have r: "remove_sites sample_os [VirtAddr 0x555555555104] toy_created = Inr (toy_created\<lparr>pr_sites := []\<rparr>)"
    by (simp add: remove_sites_def remove_site_by_address_def sp_remove_by_address_def sp_find_by_address_def sp_remove_at_def
        toy_created_def toy_site_def mk_breakpoint_site_def bs_at_address_def site_disable_def erase_at_def)
  show ?thesis
    using deleting_breakpoint_uses_freed_sites [OF _ t, of 1 0 sample_os "''breakpoint''"] b r
    by (simp add: site_addrs_def toy_created_def)
qed


subsection \<open>Further observations\<close>

text \<open>
  \<open>set\<close> hands its line to a handler that was written for \<open>breakpoint set\<close> and looks for the place
  in the third word: with only two words it reads beyond the vector.
\<close>

lemma set_needs_a_third_word: "plain w \<Longrightarrow> handle_command c (command_line [''set'', w]) s = Some (Inl (UB ''vector index''))"
proof -
  assume w: "plain w"
  have "action_of ''set'' = DoSet" "plain ''set''" by (simp_all add: action_of_def branches_def is_prefix_def plain_def)
  then show ?thesis using w
    by (simp add: handle_command_words perform_def Let_def handle_breakpoint_set_command_def hardware_arg_def vec_idx_def)
qed

lemma breakpoint_set_runs:
  assumes "n < 2 ^ 64"
  shows "handle_command c (command_line [''breakpoint'', ''set'', hex_word n]) s
    = Some (silently (set_site (cl_os c) (en_junk (cl_env c)) (of_nat n) False s))"
proof -
  have "action_of ''breakpoint'' = DoBreakpoint" "plain ''breakpoint''" "plain ''set''" "\<not> is_prefix ''set'' ''list''" "is_prefix ''set'' ''set''"
    by (simp_all add: action_of_def branches_def is_prefix_def plain_def)
  then show ?thesis using assms
    by (simp add: handle_command_words plain_words perform_def Let_def handle_breakpoint_command_def hardware_arg_def number_words)
qed

lemma exit_is_not_reported: "sr_reason r = Exited \<Longrightarrow> handle_stop c r s = Inr []"
  by (simp add: handle_stop_def print_stop_reason_def)


end
