(* ===== verification/KD_Session.thy ===== *)
theory KD_Session
  imports KD_Shell
begin

text \<open>
  What every command of a session keeps: no two breakpoint sites lie at the same address. The
  operations that add a site are those of the process, of breakpoints and of running to an address;
  the lemmas below follow the commands of \<open>tools/kdebugger.cpp\<close> down to them.
\<close>

definition apart :: "('k, 't) process \<Rightarrow> bool" where
  "apart s \<longleftrightarrow> distinct (site_addrs s)"

subsection \<open>Operations that keep sites apart\<close>

lemma apart_view: "sites_view s' = sites_view s \<Longrightarrow> apart s' = apart s"
  by (simp add: apart_def site_addrs_view)

lemma apart_sites: "pr_sites s' = pr_sites s \<Longrightarrow> apart s' = apart s"
  by (simp add: apart_def site_addrs_def)

lemma apart_keeps: "keeps s s' \<Longrightarrow> apart s' = apart s"
  by (rule apart_sites) (simp add: keeps_def)

lemma apart_fields [simp]:
  "apart (s\<lparr>pr_watch := ws\<rparr>) = apart s" "apart (s\<lparr>pr_next_watch := i\<rparr>) = apart s" "apart (s\<lparr>pr_os := k\<rparr>) = apart s"
  "apart (s\<lparr>pr_current := t\<rparr>) = apart s" "apart (s\<lparr>pr_threads := ts\<rparr>) = apart s" "apart (s\<lparr>pr_state := st\<rparr>) = apart s"
  "apart (s\<lparr>pr_policy := p\<rparr>) = apart s" "apart (s\<lparr>pr_expecting := x\<rparr>) = apart s" "apart (s\<lparr>pr_target := tg\<rparr>) = apart s"
  by (rule apart_sites, simp)+

lemma apart_operations [simp]:
  "apart (update_thread t h s) = apart s" "apart (add_thread os t s) = apart s" "apart (set_current_thread t s) = apart s"
  "apart (set_syscall_catch_policy p s) = apart s"
  by (simp_all add: update_thread_def add_thread_def set_current_thread_def set_syscall_catch_policy_def)

lemma apart_target_operations [simp]: "apart (update_target f s) = apart s" "apart (update_stack t g s) = apart s"
  by (simp_all add: update_target_def update_stack_def)

text \<open>
  What holds of the results of an operation that does not fail, and of one that may not return; the
  rules follow how operations are sequenced.
\<close>

definition ends :: "('a \<Rightarrow> bool) \<Rightarrow> 'a result \<Rightarrow> bool" where
  "ends P m \<longleftrightarrow> (\<forall>x. m = Inr x \<longrightarrow> P x)"

definition may_end :: "('a \<Rightarrow> bool) \<Rightarrow> 'a result option \<Rightarrow> bool" where
  "may_end P m \<longleftrightarrow> (\<forall>x. m = Some (Inr x) \<longrightarrow> P x)"

lemma ends_simps [simp]: "ends P (Inl e)" "ends P (Inr x) = P x" "ends P (rbind m f) = (\<forall>x. m = Inr x \<longrightarrow> ends P (f x))"
  by (auto simp: ends_def) (cases m; auto)

lemma may_end_simps [simp]: "may_end P None" "may_end P (Some m) = ends P m"
    "may_end P (andthen m f) = (\<forall>x. m = Inr x \<longrightarrow> may_end P (f x))" "may_end P (fbind om f) = (\<forall>x. om = Some (Inr x) \<longrightarrow> may_end P (f x))"
  by (auto simp: may_end_def ends_def andthen_def fbind_def split: sum.splits option.splits)

abbreviation ends_apart :: "('a \<times> ('k, 't) process) result \<Rightarrow> bool" where
  "ends_apart \<equiv> ends (\<lambda>(_, s). apart s)"

abbreviation may_end_apart :: "('a \<times> ('k, 't) process) result option \<Rightarrow> bool" where
  "may_end_apart \<equiv> may_end (\<lambda>(_, s). apart s)"

subsection \<open>Sites and watchpoints\<close>

lemma at_site_apart:
  assumes "\<And>b b' s'. f b s = Inr (b', s') \<Longrightarrow> keeps s s' \<and> site_view b' = site_view (b\<lparr>bs_enabled := en\<rparr>)"
    and "at_site f k s = Inr (u, s')"
  shows "apart s' = apart s"
proof -
  have v: "k < length (pr_sites s)" "sites_view s' = (sites_view s)[k := site_view ((pr_sites s ! k)\<lparr>bs_enabled := en\<rparr>)]"
    using at_site_keeps [OF assms(2), of "\<lambda>b. site_view (b\<lparr>bs_enabled := en\<rparr>)"] assms(1) by blast+
  have "map view_addr (sites_view s') = (map view_addr (sites_view s))[k := view_addr (sites_view s ! k)]"
    using v by (simp add: map_update nth_sites_view) (simp add: view_addr_def site_view_def)
  also have "\<dots> = map view_addr (sites_view s)"
    using list_update_id [of "map view_addr (sites_view s)" k] v(1) by (simp add: sites_view_def)
  finally have "site_addrs s' = site_addrs s" by (simp add: site_addrs_view)
  then show ?thesis by (simp add: apart_def)
qed

lemma site_switch_apart:
  "at_site (site_enable os) k s = Inr (u, s') \<Longrightarrow> apart s' = apart s" "at_site (site_disable os) k s = Inr (u, s') \<Longrightarrow> apart s' = apart s"
  by (rule at_site_apart [OF site_enable_keeps], assumption+) (rule at_site_apart [OF site_disable_keeps], assumption+)

lemma create_site_apart: "create_breakpoint_site junk p i a hw internal s = Inr (k, s') \<Longrightarrow> apart s \<Longrightarrow> apart s'"
  using site.push_distinct [of "pr_sites s" "mk_breakpoint_site junk p i a hw internal"]
  by (auto simp: create_breakpoint_site_def apart_def site_addrs_def mk_breakpoint_site_def split: if_splits)

lemma remove_site_apart: "remove_site_by_address os a s = Inr (u, s') \<Longrightarrow> apart s \<Longrightarrow> apart s'"
  using remove_site_effect by (auto simp: apart_def)

lemma remove_by_id_apart:
  assumes "sp_remove_by_id bs_id (site_disable os) i (pr_sites s) s = Inr (bs, s')" and "apart s"
  shows "apart (s'\<lparr>pr_sites := bs\<rparr>)"
proof -
  obtain k where "bs = erase_at k (pr_sites s)"
    using assms(1) by (auto simp: sp_remove_by_id_def sp_remove_at_def rbind_eq_Inr split: option.splits)
  then have "site_addrs (s'\<lparr>pr_sites := bs\<rparr>) = erase_at k (site_addrs s)" by (simp add: site_addrs_def erase_at_subseq_map)
  then show ?thesis using assms(2) distinct_erase_at by (simp add: apart_def)
qed

lemmas kept_apart = set_hardware_stoppoint_keeps [THEN apart_keeps] clear_hardware_stoppoint_keeps [THEN apart_keeps]
  write_reg_keeps [THEN apart_keeps] request_keeps_shape [THEN apart_keeps] swallow_keeps [THEN apart_keeps]
  read_all_registers_shape [THEN conjunct1, THEN apart_keeps]

text \<open>An operation on a site, a watchpoint or a breakpoint that keeps the sites of the process apart.\<close>

definition act_apart :: "('x \<Rightarrow> ('y, 'k, 't) op) \<Rightarrow> bool" where
  "act_apart f \<longleftrightarrow> (\<forall>x s. apart s \<longrightarrow> ends_apart (f x s))"

lemma at_watch_apart: "act_apart f \<Longrightarrow> at_watch f k s = Inr (u, s') \<Longrightarrow> apart s \<Longrightarrow> apart s'"
  by (fastforce simp: at_watch_def rbind_eq_Inr ends_def act_apart_def)

lemma watch_actions_apart:
  "act_apart (watch_enable os)" "act_apart (watch_disable os)" "act_apart (\<lambda>w s. rbind (watch_update_data os w s) (\<lambda>w'. Inr (w', s)))"
  by (auto simp: act_apart_def watch_enable_def set_watchpoint_def watch_disable_def split: option.splits dest!: kept_apart)

lemmas watch_apart = watch_actions_apart [THEN at_watch_apart]

lemma create_watchpoint_apart: "create_watchpoint os a m z s = Inr (i, s') \<Longrightarrow> apart s' = apart s"
  by (auto simp: create_watchpoint_def mk_watchpoint_def rbind_eq_Inr Let_def split: if_splits)

lemma remove_watchpoint_apart:
  "sp_remove_by_id wp_id (watch_disable os) j (pr_watch s) s = Inr (ws, s') \<Longrightarrow> apart s \<Longrightarrow> apart s'"
  using watch_actions_apart(2) [of os] by (fastforce simp: act_apart_def ends_def sp_remove_by_id_def sp_remove_at_def rbind_eq_Inr split: option.splits)

lemma write_from_apart: "apart s \<Longrightarrow> write_from os a bs n s = Inr s' \<Longrightarrow> apart s'"
proof (induction os a bs n s rule: write_from.induct)
  case (1 os a bs n s)
  show ?case
  proof (cases "n < length bs")
    case True
    with "1.prems"(2) obtain w s1 where w: "word_to_write os a bs n s = Inr w"
        "request ''Failed to write memory'' (os_pokedata os (pr_pid s) (addr a + of_nat n) w) s = Inr ((), s1)"
        "write_from os a bs (n + 8) s1 = Inr s'"
      by (subst (asm) write_from.simps) (auto simp: rbind_eq_Inr)
    then show ?thesis using "1.IH" [OF True w(1,2) refl _ w(3)] "1.prems"(1) kept_apart(4) [OF w(2)] by blast
  qed (use "1.prems" in \<open>simp add: write_from.simps\<close>)
qed

lemma write_memory_apart: "write_memory os a bs s = Inr (u, s') \<Longrightarrow> apart s \<Longrightarrow> apart s'"
  using write_from_apart by (auto simp: write_memory_def rbind_eq_Inr)

subsection \<open>Breakpoints\<close>

lemma at_breakpoint_apart: "act_apart f \<Longrightarrow> at_breakpoint f k s = Inr s' \<Longrightarrow> apart s \<Longrightarrow> apart s'"
  by (fastforce simp: at_breakpoint_def rbind_eq_Inr ends_def act_apart_def)

lemma breakpoint_actions_apart: "act_apart (resolve os junk)" "act_apart (bp_enable os)" "act_apart (bp_disable os)"
  using resolved.shape enabled.shape disabled.shape unfolding act_apart_def ends_def apart_def by fast+

lemmas breakpoint_apart = breakpoint_actions_apart [THEN at_breakpoint_apart]

lemma resolve_apart: "resolve os junk bp s = Inr (bp', s') \<Longrightarrow> apart s \<Longrightarrow> apart s'"
  unfolding apart_def by (drule (1) resolved.shape) blast

lemma create_breakpoint_apart: "create_breakpoint os junk kind hw internal s = Inr (i, s') \<Longrightarrow> apart s \<Longrightarrow> apart s'"
  by (auto simp: create_breakpoint_def rbind_eq_Inr Let_def dest: resolve_apart)

subsection \<open>The callbacks\<close>

lemma load_entry_apart: "load_entry e os m name s = Inr s' \<Longrightarrow> apart s' = apart s"
  by (auto simp: load_entry_def rbind_eq_Inr push_elf_def split: if_splits)

lemma reload_loop_apart: "reload_loop e os n a s = Inr s' \<Longrightarrow> apart s' = apart s"
proof (induction n arbitrary: a s)
  case (Suc n)
  then show ?case by (auto simp: rbind_eq_Inr split: if_splits dest: load_entry_apart)
qed (simp split: if_splits)

lemma resolve_all_apart: "resolve_all os junk s = Inr s' \<Longrightarrow> apart s \<Longrightarrow> apart s'"
  by (auto simp: resolve_all_def rbind_eq_Inr elim!: foldR_invariant [where P = apart] intro: breakpoint_apart)

lemma reload_apart: "reload_dynamic_libraries e os s = Inr s' \<Longrightarrow> apart s \<Longrightarrow> apart s'"
  by (auto simp: reload_dynamic_libraries_def rbind_eq_Inr split: option.splits dest!: reload_loop_apart dest: resolve_all_apart)

lemma use_dynamic_entry_apart: "use_dynamic_entry e os x s = Inr s' \<Longrightarrow> apart s \<Longrightarrow> apart s'"
proof -
  assume r: "use_dynamic_entry e os x s = Inr s'" and a: "apart s"
  obtain tag p where x: "x = (tag, p)" by (cases x)
  show "apart s'"
  proof (cases "tag = DT_DEBUG")
    case True
    with r x obtain s1 k s2 and debug :: r_debug where "reload_dynamic_libraries e os (update_target (\<lambda>tg. tg\<lparr>tg_rendezvous := VirtAddr p\<rparr>) s) = Inr s1"
        "create_address_breakpoint os (en_junk e) (VirtAddr (r_brk debug)) False True s1 = Inr (k, s2)"
        "at_breakpoint (bp_enable os) k (install_hit_handler ReloadLibraries k s2) = Inr s'"
      by (auto simp: use_dynamic_entry_def rbind_eq_Inr split: option.splits)
    moreover from this have "apart s1" using reload_apart a by fastforce
    ultimately have "apart s2" using create_breakpoint_apart unfolding create_address_breakpoint_def by blast
    then have "apart (install_hit_handler ReloadLibraries k s2)" by (simp add: install_hit_handler_def)
    then show ?thesis using breakpoint_apart(2) \<open>at_breakpoint (bp_enable os) k _ = Inr s'\<close> by blast
  qed (use r a x in \<open>simp add: use_dynamic_entry_def\<close>)
qed

lemma rendezvous_apart: "resolve_dynamic_linker_rendezvous e os s = Inr s' \<Longrightarrow> apart s \<Longrightarrow> apart s'"
  by (auto simp: resolve_dynamic_linker_rendezvous_def rbind_eq_Inr split: if_splits option.splits
      elim!: foldR_invariant [where P = apart] intro: use_dynamic_entry_apart)

lemma notify_hit_apart: "notify_hit e os p s = Inr (again, s') \<Longrightarrow> apart s \<Longrightarrow> apart s'"
proof -
  assume r: "notify_hit e os p s = Inr (again, s')" and "apart s"
  then obtain tg bp where "target_of s = Inr tg" "find (\<lambda>bp. bp_handle bp = p) (tg_breakpoints tg) = Some bp"
    by (auto simp: notify_hit_def rbind_eq_Inr split: option.splits)
  with r \<open>apart s\<close> show ?thesis
    by (cases "bp_on_hit bp") (auto simp: notify_hit_def rbind_eq_Inr dest: rendezvous_apart reload_apart)
qed

lemma unwind_frames_apart: "unwind_frames os n regs v f fs s = Inr (fs', s') \<Longrightarrow> apart s' = apart s"
proof (induction n arbitrary: regs v f fs s)
  case (Suc n)
  then show ?case
    by (fastforce simp: rbind_eq_Inr Let_def split: if_splits dest: foldR_keeps [OF _ send_user_req_keeps, THEN apart_keeps])
qed simp

lemma notify_stop_apart: "notify_stop os n r s = Inr s' \<Longrightarrow> apart s \<Longrightarrow> apart s'"
  by (auto simp: notify_stop_def stack_unwind_def rbind_eq_Inr Let_def split: if_splits dest!: unwind_frames_apart)

text \<open>What the callbacks of a process owe: the report of threads is the one that the source leaves open.\<close>

definition report_apart :: "(stop_reason \<Rightarrow> ('k, 't) process \<Rightarrow> ('k, 't) process result) \<Rightarrow> bool" where
  "report_apart f \<longleftrightarrow> (\<forall>r s. apart s \<longrightarrow> ends apart (f r s))"

definition hooks_apart :: "('k, 't) hooks \<Rightarrow> bool" where
  "hooks_apart h \<longleftrightarrow> (\<forall>p s. apart s \<longrightarrow> ends_apart (hk_hit h p s)) \<and> report_apart (hk_stop h) \<and> report_apart (hk_lifecycle h)"

lemma hooks_apartD:
  "hk_hit h p s = Inr (b, s') \<Longrightarrow> hooks_apart h \<Longrightarrow> apart s \<Longrightarrow> apart s'"
  "hk_stop h r s = Inr s' \<Longrightarrow> hooks_apart h \<Longrightarrow> apart s \<Longrightarrow> apart s'"
  "hk_lifecycle h r s = Inr s' \<Longrightarrow> hooks_apart h \<Longrightarrow> apart s \<Longrightarrow> apart s'"
  unfolding hooks_apart_def report_apart_def ends_def by fast+

lemma hook_after_add_apart: "hk_lifecycle h r (add_thread os t s) = Inr s' \<Longrightarrow> hooks_apart h \<Longrightarrow> apart s \<Longrightarrow> apart s'"
  by (erule hooks_apartD(3)) simp_all

lemma target_hooks_apart: "report_apart f \<Longrightarrow> hooks_apart (target_hooks e os f)"
  using notify_hit_apart notify_stop_apart by (fastforce simp: hooks_apart_def target_hooks_def report_apart_def ends_def)

subsection \<open>Continuing and waiting\<close>

lemma resume_apart: "resume os otid s = Inr s' \<Longrightarrow> apart s' = apart s"
  by (rule apart_view) (rule resume_view)

lemma resume_all_apart: "resume_all_threads os s = Inr s' \<Longrightarrow> apart s' = apart s"
proof -
  assume "resume_all_threads os s = Inr s'"
  then obtain s1 where r: "foldR (step_over_breakpoint os) (map fst (pr_threads s)) s = Inr s1"
      "foldR (send_continue os) (map fst (pr_threads s1)) s1 = Inr s'"
    by (auto simp: resume_all_threads_def rbind_eq_Inr)
  have "sites_view s' = sites_view s1"
    by (rule foldR_invariant [OF r(2), of "\<lambda>t. sites_view t = sites_view s1"]) (auto dest: send_continue_effect)
  then show ?thesis using step_over_all [OF r(1)] apart_view [of s' s] by simp
qed

lemma software_break_apart:
  "handle_software_break os h t a s = Inr (again, s') \<Longrightarrow> hooks_apart h \<Longrightarrow> apart s \<Longrightarrow> apart s'"
  by (auto simp: handle_software_break_def set_pc_def notify_parent_def rbind_eq_Inr split: option.splits
      dest!: kept_apart dest: hooks_apartD)

lemma hardware_break_apart: "handle_hardware_break os t s = Inr s' \<Longrightarrow> apart s \<Longrightarrow> apart s'"
proof -
  assume r: "handle_hardware_break os t s = Inr s'" and a: "apart s"
  then obtain i where i: "get_current_hardware_stoppoint t s = Inr i" by (auto simp: handle_hardware_break_def rbind_eq_Inr)
  with r a show ?thesis by (cases i) (auto simp: handle_hardware_break_def rbind_eq_Inr dest: watch_apart(3))
qed

lemma augment_apart: "augment_stop_reason os r s = Inr (r', s') \<Longrightarrow> apart s' = apart s"
  by (auto simp: augment_stop_reason_def augment_syscall_def rbind_eq_Inr Let_def split: option.splits if_splits)

lemma tell_target_apart: "tell_target h r s = Inr s' \<Longrightarrow> hooks_apart h \<Longrightarrow> apart s \<Longrightarrow> apart s'"
  by (auto simp: tell_target_def split: if_splits dest: hooks_apartD)

lemmas stop_apart = software_break_apart hardware_break_apart tell_target_apart

lemma handle_trap_apart: "handle_trap os h r is_main s = Inr (again, s') \<Longrightarrow> hooks_apart h \<Longrightarrow> apart s \<Longrightarrow> apart s'"
  by (auto simp: handle_trap_def rbind_eq_Inr Let_def split: if_splits dest: stop_apart)

lemma handle_stopped_apart: "handle_stopped os h r is_main s = Inr (r', s') \<Longrightarrow> hooks_apart h \<Longrightarrow> apart s \<Longrightarrow> apart s'"
  by (auto simp: handle_stopped_def rbind_eq_Inr split: if_splits dest!: kept_apart augment_apart dest: stop_apart handle_trap_apart)

lemma handle_signal_apart: "handle_signal os h r is_main s = Inr (r', s') \<Longrightarrow> hooks_apart h \<Longrightarrow> apart s \<Longrightarrow> apart s'"
  by (auto simp: handle_signal_def rbind_eq_Inr split: if_splits dest: hook_after_add_apart handle_stopped_apart)

lemma report_stop_apart: "report_stop os h r s = Inr (r', s') \<Longrightarrow> hooks_apart h \<Longrightarrow> apart s \<Longrightarrow> apart s'"
  by (auto simp: report_stop_def report_trap_def rbind_eq_Inr split: if_splits
      dest!: kept_apart augment_apart resume_apart dest: stop_apart)

text \<open>The two operations that wait, which stepping takes as arguments.\<close>

definition stepper_apart :: "'k stepper \<Rightarrow> bool" where
  "stepper_apart sp \<longleftrightarrow> (\<forall>t s. apart s \<longrightarrow> may_end_apart (sp_wait sp t s)) \<and> (\<forall>t s. apart s \<longrightarrow> may_end_apart (sp_step sp t s))"

lemma stepper_apartD:
  "sp_wait sp t s = Some (Inr (r, s')) \<Longrightarrow> stepper_apart sp \<Longrightarrow> apart s \<Longrightarrow> apart s'"
  "sp_step sp ot s = Some (Inr (r, s')) \<Longrightarrow> stepper_apart sp \<Longrightarrow> apart s \<Longrightarrow> apart s'"
  unfolding stepper_apart_def may_end_def by fast+

lemma wait_loop_apart:
  "wait_loop assign os h n t s = Some (Inr (r, s')) \<Longrightarrow> hooks_apart h \<Longrightarrow> apart s \<Longrightarrow> apart s'"
proof (induction n arbitrary: t s)
  case (Suc n)
  obtain waited status k where w: "os_waitpid os t (pr_os s) = Some (waited, status, k)"
    using Suc.prems(1) by (auto split: option.splits)
  with Suc.prems(1) obtain r0 final s1 where s1: "handle_signal os h r0 True (s\<lparr>pr_os := k\<rparr>) = Inr (final, s1)"
    and rest: "(case final of None \<Rightarrow> andthen (resume os (Some (assign waited)) s1) (wait_loop assign os h n t)
          | Some r \<Rightarrow> andthen (thread_at (assign waited) s1) (\<lambda>_.
              let s2 = update_thread (assign waited) (\<lambda>th. th\<lparr>th_reason := Some r, th_state := sr_reason r\<rparr>) s1 in
              if sr_reason r = Exited \<or> sr_reason r = Terminated then
                andthen (hk_lifecycle h r s2) (\<lambda>s3.
                if assign waited = pr_pid s3 then Some (Inr (r, s3\<lparr>pr_state := sr_reason r\<rparr>)) else wait_loop assign os h n (- 1) s3)
              else andthen (report_stop os h r s2) (\<lambda>(r', s3). case r' of
                None \<Rightarrow> wait_loop assign os h n (- 1) s3 | Some r'' \<Rightarrow> Some (Inr (r'', s3))))) = Some (Inr (r, s'))"
    by (auto simp: andthen_eq_Inr Let_def)
  have a: "apart s1" using handle_signal_apart [OF s1 Suc.prems(2)] Suc.prems(3) by simp
  show ?case
  proof (cases final)
    case None
    with rest show ?thesis using a Suc.IH Suc.prems(2) by (auto simp: andthen_eq_Inr dest!: resume_apart)
  next
    case (Some x)
    let ?s2 = "update_thread (assign waited) (\<lambda>th. th\<lparr>th_reason := Some x, th_state := sr_reason x\<rparr>) s1"
    have a2: "apart ?s2" using a by simp
    show ?thesis
    proof (cases "sr_reason x = Exited \<or> sr_reason x = Terminated")
      case True
      with rest Some obtain s3 where s3: "hk_lifecycle h x ?s2 = Inr s3"
          "(if assign waited = pr_pid s3 then Some (Inr (x, s3\<lparr>pr_state := sr_reason x\<rparr>)) else wait_loop assign os h n (- 1) s3) = Some (Inr (r, s'))"
        by (auto simp: andthen_eq_Inr Let_def)
      have "apart s3" by (rule hooks_apartD(3) [OF s3(1) Suc.prems(2) a2])
      then show ?thesis using s3(2) Suc.IH Suc.prems(2) by (auto split: if_splits)
    next
      case False
      with rest Some obtain r' s3 where s3: "report_stop os h x ?s2 = Inr (r', s3)"
          "(case r' of None \<Rightarrow> wait_loop assign os h n (- 1) s3 | Some r'' \<Rightarrow> Some (Inr (r'', s3))) = Some (Inr (r, s'))"
        by (auto simp: andthen_eq_Inr Let_def)
      have "apart s3" by (rule report_stop_apart [OF s3(1) Suc.prems(2) a2])
      then show ?thesis using s3(2) Suc.IH Suc.prems(2) by (auto split: option.splits)
    qed
  qed
qed simp

lemma step_instruction_apart:
  assumes "step_instruction os h n ot s = Some (Inr (r, s'))" and "hooks_apart h" and "apart s"
  shows "apart s'"
  using assms
  by (auto simp: step_instruction_def Let_def andthen_eq_Inr rbind_eq_Inr wait_on_signal_def split: if_splits option.splits
      dest!: kept_apart site_switch_apart dest: wait_loop_apart)

text \<open>The operations of the source meet what is asked of them.\<close>

lemma stepper_of_apart: "hooks_apart h \<Longrightarrow> stepper_apart (stepper_of os h n)"
  using wait_loop_apart step_instruction_apart
  by (fastforce simp: stepper_apart_def may_end_def stepper_of_def wait_on_signal_def)

subsection \<open>Stepping\<close>

lemma set_thread_reason_apart: "set_thread_reason t r s = Inr s' \<Longrightarrow> apart s' = apart s"
  by (auto simp: set_thread_reason_def rbind_eq_Inr)

lemma temporary_apart:
  "place_temporary os junk a s = Inr (mine, s') \<Longrightarrow> apart s \<Longrightarrow> apart s'"
  "remove_temporary os mine a s = Inr s' \<Longrightarrow> apart s \<Longrightarrow> apart s'"
  by (auto simp: place_temporary_def remove_temporary_def rbind_eq_Inr split: if_splits
      dest!: site_switch_apart dest: create_site_apart remove_site_apart)

lemma run_until_apart:
  assumes "run_until_address os sp junk a t s = Some (Inr (r, s'))" and "stepper_apart sp" and "apart s"
  shows "apart s'"
proof -
  obtain mine s1 s2 r0 s3 s4 where p: "place_temporary os junk a s = Inr (mine, s1)" "resume os (Some (tid_of t s)) s1 = Inr s2"
      "sp_wait sp (tid_of t s) s2 = Some (Inr (r0, s3))" "remove_temporary os mine a s3 = Inr s4" "set_thread_reason (tid_of t s) r s4 = Inr s'"
    using assms(1) by (auto simp: run_until_address_def Let_def andthen_eq_Inr fbind_eq_Inr)
  have "apart s2" using temporary_apart(1) [OF p(1) assms(3)] resume_apart [OF p(2)] by simp
  then have "apart s4" using stepper_apartD(1) [OF p(3) assms(2)] temporary_apart(2) [OF p(4)] by blast
  then show ?thesis using set_thread_reason_apart [OF p(5)] by simp
qed

lemma step_in_loop_apart:
  "step_in_loop sp n orig t s = Some (Inr (r, s')) \<Longrightarrow> stepper_apart sp \<Longrightarrow> apart s \<Longrightarrow> apart s'"
proof (induction n arbitrary: s)
  case (Suc n)
  then obtain r1 s1 where s1: "sp_step sp (Some t) s = Some (Inr (r1, s1))" by (auto simp: fbind_eq_Inr)
  have "apart s1" by (rule stepper_apartD(2) [OF s1 Suc.prems(2,3)])
  then show ?case using Suc.prems(1,2) Suc.IH s1 by (auto simp: andthen_eq_Inr split: if_splits dest!: set_thread_reason_apart)
qed simp

lemma step_in_apart: "step_in os sp n junk t s = Some (Inr (r, s')) \<Longrightarrow> stepper_apart sp \<Longrightarrow> apart s \<Longrightarrow> apart s'"
  by (auto simp: step_in_def Let_def andthen_eq_Inr fbind_eq_Inr split: if_splits option.splits
      dest!: set_thread_reason_apart dest: step_in_loop_apart run_until_apart)

lemma step_over_turn_apart:
  assumes "step_over_turn os sp dec junk t s = Some (Inr (r, s'))" and "stepper_apart sp" and "apart s"
  shows "apart s'"
proof -
  obtain oa where oa: "over_address os dec t s = Inr oa" using assms(1) by (auto simp: step_over_turn_def andthen_eq_Inr)
  with assms show ?thesis
    by (cases oa) (auto simp: step_over_turn_def andthen_eq_Inr fbind_eq_Inr split: if_splits
      dest!: set_thread_reason_apart dest: stepper_apartD run_until_apart)
qed

lemma step_over_loop_apart:
  "step_over_loop os sp dec junk n orig t s = Some (Inr (r, s')) \<Longrightarrow> stepper_apart sp \<Longrightarrow> apart s \<Longrightarrow> apart s'"
proof (induction n arbitrary: s)
  case (Suc n)
  then obtain x s1 where s1: "step_over_turn os sp dec junk t s = Some (Inr (x, s1))" by (auto simp: fbind_eq_Inr)
  have "apart s1" by (rule step_over_turn_apart [OF s1 Suc.prems(2,3)])
  then show ?case using Suc.prems(1,2) Suc.IH s1 by (auto simp: andthen_eq_Inr split: if_splits prod.splits)
qed simp

lemma step_over_apart: "step_over os sp dec n junk t s = Some (Inr (r, s')) \<Longrightarrow> stepper_apart sp \<Longrightarrow> apart s \<Longrightarrow> apart s'"
  by (auto simp: step_over_def Let_def andthen_eq_Inr dest: step_over_loop_apart)

lemma step_out_loop_apart:
  "step_out_loop os sp junk n k a t s = Some (Inr (r, s')) \<Longrightarrow> stepper_apart sp \<Longrightarrow> apart s \<Longrightarrow> apart s'"
proof (induction n arbitrary: s)
  case (Suc n)
  then obtain r1 s1 where s1: "run_until_address os sp junk a (Some t) s = Some (Inr (r1, s1))" by (auto simp: fbind_eq_Inr)
  have "apart s1" by (rule run_until_apart [OF s1 Suc.prems(2,3)])
  then show ?case using Suc.prems(1,2) Suc.IH s1 by (auto simp: andthen_eq_Inr split: if_splits)
qed simp

lemma step_out_apart: "step_out os sp n junk t s = Some (Inr (r, s')) \<Longrightarrow> stepper_apart sp \<Longrightarrow> apart s \<Longrightarrow> apart s'"
  by (auto simp: step_out_def Let_def andthen_eq_Inr split: if_splits dest: step_out_loop_apart run_until_apart)

subsection \<open>The commands\<close>

lemma printing_apart: "printing out s = Inr (p, s') \<Longrightarrow> apart s' = apart s" "help_on topic s = Inr (p, s') \<Longrightarrow> apart s' = apart s"
  by (auto simp: printing_def help_on_def rbind_eq_Inr)

lemma silently_Inr: "silently m = Inr (p, s') \<Longrightarrow> m = Inr s'"
  by (auto simp: silently_def rbind_eq_Inr)

lemma create_enabled_apart:
  assumes "create_enabled os create s = Inr (p, s')" and "\<And>k s1. create s = Inr (k, s1) \<Longrightarrow> apart s1"
  shows "apart s'"
  using assms by (auto simp: create_enabled_def rbind_eq_Inr dest!: silently_Inr dest: breakpoint_apart(2))

lemma breakpoint_set_apart: "handle_breakpoint_set_command os junk args s = Inr (p, s') \<Longrightarrow> apart s \<Longrightarrow> apart s'"
proof -
  have created: "apart s'" if "create_enabled os (create_breakpoint os junk kind hw i) s = Inr (p, s')" "apart s" for kind hw i
    using create_enabled_apart [OF that(1)] create_breakpoint_apart that(2) by blast
  then show "handle_breakpoint_set_command os junk args s = Inr (p, s') \<Longrightarrow> apart s \<Longrightarrow> apart s'"
    by (auto simp: handle_breakpoint_set_command_def rbind_eq_Inr Let_def create_address_breakpoint_def create_line_breakpoint_def
        create_function_breakpoint_def split: if_splits option.splits)
qed

lemma switch_site_apart: "switch_site os command i s = Inr s' \<Longrightarrow> apart s \<Longrightarrow> apart s'"
  by (auto simp: switch_site_def rbind_eq_Inr split: if_splits dest!: site_switch_apart dest: remove_by_id_apart)

lemma set_site_apart: "set_site os junk a hw s = Inr s' \<Longrightarrow> apart s \<Longrightarrow> apart s'"
  by (auto simp: set_site_def rbind_eq_Inr dest!: site_switch_apart dest: create_site_apart)

lemma breakpoint_command_apart: "handle_breakpoint_command os junk args s = Inr (p, s') \<Longrightarrow> apart s \<Longrightarrow> apart s'"
  by (auto simp: handle_breakpoint_command_def rbind_eq_Inr Let_def split: if_splits option.splits
      dest!: printing_apart silently_Inr dest: switch_site_apart set_site_apart)

lemma switch_watchpoint_apart: "switch_watchpoint os command i s = Inr s' \<Longrightarrow> apart s \<Longrightarrow> apart s'"
  by (auto simp: switch_watchpoint_def rbind_eq_Inr split: if_splits dest: watch_apart remove_watchpoint_apart)

lemma watchpoint_set_apart: "handle_watchpoint_set os args s = Inr (p, s') \<Longrightarrow> apart s \<Longrightarrow> apart s'"
proof -
  assume r: "handle_watchpoint_set os args s = Inr (p, s')" and a: "apart s"
  show ?thesis
  proof (cases "length args = 5")
    case True
    with r obtain oa on where "to_integral False 64 16 (args ! 2) = Inr oa" "to_integral False 64 10 (args ! 4) = Inr on"
      by (auto simp: handle_watchpoint_set_def rbind_eq_Inr)
    with r a True show ?thesis
      by (cases oa; cases on; cases "mode_of_word (args ! 3)")
        (auto simp: handle_watchpoint_set_def rbind_eq_Inr dest!: printing_apart create_watchpoint_apart dest: watch_apart)
  qed (use r a in \<open>auto simp: handle_watchpoint_set_def dest!: printing_apart\<close>)
qed

lemma watchpoint_command_apart: "handle_watchpoint_command os args s = Inr (p, s') \<Longrightarrow> apart s \<Longrightarrow> apart s'"
  by (auto simp: handle_watchpoint_command_def rbind_eq_Inr Let_def split: if_splits option.splits
      dest!: printing_apart silently_Inr dest: switch_watchpoint_apart watchpoint_set_apart)

lemma memory_command_apart: "handle_memory_command os args s = Inr (p, s') \<Longrightarrow> apart s \<Longrightarrow> apart s'"
  by (auto simp: handle_memory_command_def handle_memory_read_command_def handle_memory_write_command_def rbind_eq_Inr
      split: if_splits option.splits dest!: printing_apart dest: write_memory_apart)

lemma register_read_apart: "handle_register_read c args s = Inr (p, s') \<Longrightarrow> apart s' = apart s"
  by (auto simp: handle_register_read_def split: if_splits sum.splits dest!: printing_apart)

lemma register_write_apart: "handle_register_write c args s = Inr (p, s') \<Longrightarrow> apart s' = apart s"
  by (auto simp: handle_register_write_def rbind_eq_Inr split: if_splits sum.splits dest!: printing_apart kept_apart)

lemma register_command_apart: "handle_register_command c args s = Inr (p, s') \<Longrightarrow> apart s' = apart s"
  by (auto simp: handle_register_command_def rbind_eq_Inr split: if_splits
      dest!: printing_apart register_read_apart register_write_apart)

lemma other_commands_apart:
  "handle_thread_command c args s = Inr (p, s') \<Longrightarrow> apart s' = apart s"
  "handle_catchpoint_command args s = Inr (p, s') \<Longrightarrow> apart s' = apart s"
  "handle_disassemble_command c args s = Inr (p, s') \<Longrightarrow> apart s' = apart s"
  "select_frame c f s = Inr (p, s') \<Longrightarrow> apart s' = apart s"
  by (auto simp: handle_thread_command_def handle_catchpoint_command_def handle_disassemble_command_def select_frame_def
      rbind_eq_Inr Let_def split: if_splits option.splits dest!: printing_apart silently_Inr)

lemma reporting_apart: "reporting c m = Some (Inr (p, s')) \<Longrightarrow> \<exists>r s1. m = Some (Inr (r, s1)) \<and> apart s' = apart s1"
  by (auto simp: reporting_def fbind_eq_Inr dest!: printing_apart)

lemma perform_apart:
  assumes "perform c a args s = Some (Inr (p, s'))" and "stepper_apart (cl_stepper c)" and "apart s"
  shows "apart s'"
proof -
  have "apart s1" if "continue_process c s = Some (Inr (r, s1))" for r s1
    using that assms(2,3) by (auto simp: continue_process_def andthen_eq_Inr dest!: resume_all_apart dest: stepper_apartD)
  with assms show ?thesis
    by (cases a) (auto simp: perform_def Let_def dest!: reporting_apart printing_apart other_commands_apart register_command_apart
        dest: stepper_apartD step_in_apart step_over_apart step_out_apart memory_command_apart watchpoint_command_apart
          breakpoint_command_apart breakpoint_set_apart)
qed

lemma handle_command_apart:
  "handle_command c line s = Some (Inr (out, s')) \<Longrightarrow> stepper_apart (cl_stepper c) \<Longrightarrow> apart s \<Longrightarrow> apart s'"
  by (auto simp: handle_command_def Let_def andthen_eq_Inr dest: perform_apart)

subsection \<open>Sessions\<close>

text \<open>Commands that succeed, one after the other, with all that they print.\<close>

fun run_commands :: "'k cli \<Rightarrow> string list \<Rightarrow> 'k tprocess \<Rightarrow> (printed list \<times> 'k tprocess) result option" where
  "run_commands c [] s = Some (Inr ([], s))"
| "run_commands c (l # ls) s = fbind (handle_command c l s) (\<lambda>(out, s1). fbind (run_commands c ls s1) (\<lambda>(out', s2). Some (Inr (out @ out', s2))))"

lemma run_commands_Cons:
  assumes "run_commands c (l # ls) s = Some (Inr (out, s'))"
  obtains out1 s1 out2 where "handle_command c l s = Some (Inr (out1, s1))" "run_commands c ls s1 = Some (Inr (out2, s'))" "out = out1 @ out2"
  using assms by (auto simp: fbind_eq_Inr)

lemma run_commands_loop:
  "run_commands c ls s = Some (Inr (out, s')) \<Longrightarrow> [] \<notin> set ls \<Longrightarrow> main_loop c (h, s) ls out (h @ ls, s')"
proof (induction ls arbitrary: s h out)
  case (Cons l ls)
  then obtain out1 s1 out2 where r: "handle_command c l s = Some (Inr (out1, s1))" "run_commands c ls s1 = Some (Inr (out2, s'))"
      "out = out1 @ out2"
    by (blast elim: run_commands_Cons)
  have "turn c (h, s) l out1 (h @ [l], s1)" using r(1) Cons.prems(2) by (auto simp: turn_iff pick_line_def)
  from main_loop.line [OF this Cons.IH [OF r(2), of "h @ [l]"]] Cons.prems(2) r(3) show ?case by simp
qed (simp add: main_loop.eof)

lemma run_commands_apart:
  "run_commands c ls s = Some (Inr (out, s')) \<Longrightarrow> stepper_apart (cl_stepper c) \<Longrightarrow> apart s \<Longrightarrow> apart s'"
proof (induction ls arbitrary: s out)
  case (Cons l ls)
  then show ?case by (blast elim: run_commands_Cons intro: handle_command_apart)
qed simp

text \<open>
  C15: no command that succeeds puts two breakpoint sites at one address: not the commands on
  breakpoints and sites, nor the temporary sites of stepping, nor the sites that hit handlers set in
  libraries while the program runs. What the waits have to keep is met by those of the source
  (\<open>stepper_of_apart\<close>, \<open>target_hooks_apart\<close>). The commands are those of a run of the loop that
  reads lines, so a session without errors keeps its sites a map from addresses (\<open>sites_refine_map\<close>).
\<close>

theorem sessions_keep_sites_apart:
  assumes "run_commands c ls s = Some (Inr (out, s'))" and "[] \<notin> set ls"
    and "stepper_apart (cl_stepper c)" and "distinct (site_addrs s)"
  shows "distinct (site_addrs s') \<and> main_loop c (h, s) ls out (h @ ls, s')"
  using run_commands_apart [OF assms(1,3)] run_commands_loop [OF assms(1,2)] assms(4) by (simp add: apart_def)

definition session_cli :: "(u64 \<Rightarrow> u8) cli" where
  "session_cli = toy_cli\<lparr>cl_stepper := stepper_of sample_os (target_hooks mini_env sample_os (\<lambda>r s. Inr s)) 5\<rparr>"

lemma sessions_keep_sites_apart_witness:
  "\<exists>s'. run_commands session_cli [command_line [''breakpoint'', ''set'', hex_word 0x40]] toy_process = Some (Inr ([], s'))
     \<and> site_addrs s' = [VirtAddr 0x40] \<and> distinct (site_addrs s')"
proof -
  let ?b = "mk_breakpoint_site (en_junk mini_env) None (en_junk mini_env) (VirtAddr 0x40) False False"
  let ?s1 = "toy_process\<lparr>pr_sites := [?b]\<rparr>"
  obtain w k where e: "site_enable sample_os ?b ?s1 = Inr (?b\<lparr>bs_saved := w, bs_enabled := True\<rparr>, ?s1\<lparr>pr_os := k\<rparr>)"
    using sample_site_enable [of ?b ?s1] by (auto simp: mk_breakpoint_site_def)
  define s' where "s' = ?s1\<lparr>pr_os := k, pr_sites := [?b\<lparr>bs_saved := w, bs_enabled := True\<rparr>]\<rparr>"
  have "set_site sample_os (en_junk mini_env) (of_nat 0x40) False toy_process = Inr s'"
    using e by (simp add: set_site_def create_breakpoint_site_def toy_process_fields sp_contains_address_def sp_find_by_address_def
      sp_push_def at_site_def vec_idx_def s'_def)
  moreover have "cl_os session_cli = sample_os" "cl_env session_cli = mini_env" by (simp_all add: session_cli_def toy_cli_def)
  ultimately have r: "run_commands session_cli [command_line [''breakpoint'', ''set'', hex_word 0x40]] toy_process = Some (Inr ([], s'))"
    using breakpoint_set_runs [of "0x40" session_cli toy_process] by (simp add: silently_def)
  have sp: "stepper_apart (cl_stepper session_cli)"
    by (simp add: session_cli_def) (rule stepper_of_apart, rule target_hooks_apart, simp add: report_apart_def)
  have "distinct (site_addrs s')"
    by (rule sessions_keep_sites_apart [OF r _ sp, THEN conjunct1]) (simp_all add: command_line_def site_addrs_def toy_process_fields)
  moreover have "site_addrs s' = [VirtAddr 0x40]" by (simp add: s'_def site_addrs_def mk_breakpoint_site_def)
  ultimately show ?thesis using r by blast
qed

end
