(* ===== verification/KD_Expr.thy ===== *)
theory KD_Expr
  imports KD_Breakpoints
begin

text \<open>
  DWARF location expressions (\<open>dwarf_expression::eval\<close> in \<open>src/dwarf.cpp\<close>): a stack machine over a
  byte string. The function is unfinished: it has no return statement.
\<close>

unbundle bit_operations_syntax

subsection \<open>Locations\<close>

datatype simple_location = AddressResult virt_addr | RegisterResult u64 | DataResult span | LiteralResult u64 | EmptyResult

record piece =
  pc_location :: simple_location
  pc_bit_size :: u64
  pc_offset :: u64

datatype expr_result = Simple simple_location | Pieces "piece list"

text \<open>The stack, its back first, and the two variables the location is made from.\<close>

record expr_state =
  ex_stack :: "u64 list"
  ex_recent :: "simple_location option"
  ex_is_address :: bool

text \<open>
  What an expression belongs to: the file, the bytes, whether it is part of frame information; and the
  evaluation of a frame base, a member of \<open>attr\<close> that is called and not declared.
\<close>

record dwarf_expression =
  de_parent :: debug_info
  de_data :: span
  de_in_frame_info :: bool

type_synonym frame_base = "die \<Rightarrow> registers \<Rightarrow> expr_result result"

definition read_frame_base_result :: "expr_result \<Rightarrow> virt_addr result" where
  "read_frame_base_result loc = (case loc of
      Simple (AddressResult a) \<Rightarrow> Inr a | _ \<Rightarrow> Inl (Send ''Unsupported frame base location''))"

subsection \<open>The stack\<close>

definition push :: "u64 \<Rightarrow> expr_state \<Rightarrow> expr_state" where
  "push v st = st\<lparr>ex_stack := v # ex_stack st\<rparr>"

definition nth_from_back :: "nat \<Rightarrow> expr_state \<Rightarrow> u64 result" where
  "nth_from_back i st = (if i < length (ex_stack st) then Inr (ex_stack st ! i) else Inl (UB ''read beyond a stack''))"

text \<open>The helpers for operators, which no opcode uses yet.\<close>

definition binop :: "(u64 \<Rightarrow> u64 \<Rightarrow> u64) \<Rightarrow> expr_state \<Rightarrow> expr_state result" where
  "binop f st = (case ex_stack st of
      rhs # lhs # vs \<Rightarrow> Inr (st\<lparr>ex_stack := f lhs rhs # vs\<rparr>) | _ \<Rightarrow> Inl (UB ''back of an empty vector''))"

definition relop :: "(u64 \<Rightarrow> u64 \<Rightarrow> bool) \<Rightarrow> expr_state \<Rightarrow> expr_state result" where
  "relop f = binop (\<lambda>lhs rhs. if f lhs rhs then 1 else 0)"

definition get_current_location :: "expr_state \<Rightarrow> simple_location \<times> expr_state" where
  "get_current_location st = (case ex_stack st of
      [] \<Rightarrow> (case ex_recent st of None \<Rightarrow> EmptyResult | Some l \<Rightarrow> l, st\<lparr>ex_recent := None\<rparr>)
    | v # vs \<Rightarrow> if ex_is_address st then (AddressResult (VirtAddr v), st\<lparr>ex_stack := vs\<rparr>)
               else (LiteralResult v, st\<lparr>ex_stack := vs, ex_is_address := True\<rparr>))"

subsection \<open>Opcodes\<close>

definition dwarf_register :: "registers \<Rightarrow> int \<Rightarrow> u64 result" where
  "dwarf_register regs i = rbind (register_info_by_dwarf i) (\<lambda>info. rbind (reg_read info regs) get_u64)"

text \<open>The three ranges, before the switch.\<close>

definition exec_range :: "dwarf_expression \<Rightarrow> registers \<Rightarrow> u8 \<Rightarrow> expr_state \<Rightarrow> expr_state reader" where
  "exec_range de regs opcode st c =
     (let img = e_image (di_elf (de_parent de)) in
      if 0x30 \<le> opcode \<and> opcode \<le> 0x4f then Inr (push (ucast (opcode - 0x30)) st, c)
      else if 0x70 \<le> opcode \<and> opcode \<le> 0x8f then
        rbind (dwarf_register regs (uint (opcode - 0x70))) (\<lambda>v.
        rbind (sleb128 img c) (\<lambda>(off, c'). Inr (push (v + off) st, c')))
      else if 0x50 \<le> opcode \<and> opcode \<le> 0x6f then
        if de_in_frame_info de then rbind (dwarf_register regs (uint (opcode - 0x50))) (\<lambda>v. Inr (push v st, c))
        else Inr (st\<lparr>ex_recent := Some (RegisterResult (ucast (opcode - 0x50)))\<rparr>, c)
      else Inr (st, c))"

definition push_read :: "('a \<Rightarrow> u64) \<Rightarrow> 'a reader \<Rightarrow> expr_state \<Rightarrow> expr_state reader" where
  "push_read f rd st c = rbind (rd c) (\<lambda>(v, c'). Inr (push (f v) st, c'))"

text \<open>
  The switch. \<open>DW_OP_swap\<close> (0x16) pushes with two arguments, which is read as swapping the two
  values; \<open>DW_OP_fbreg\<close> (0x91) reads its offset as an unsigned number. An opcode that is not
  listed does nothing.
\<close>

definition exec_switch :: "dwarf_expression \<Rightarrow> registers \<Rightarrow> frame_base \<Rightarrow> die option \<Rightarrow> u8 \<Rightarrow> expr_state \<Rightarrow> expr_state reader" where
  "exec_switch de regs base func opcode st c =
     (let f = di_elf (de_parent de); img = e_image f in
      if opcode = 0x03 then
        rbind (cu64 img c) (\<lambda>(v, c'). rbind (to_virt_addr f (mk_file_addr (e_id f) v)) (\<lambda>a. Inr (push (addr a) st, c')))
      else if opcode = 0x08 then push_read ucast (cu8 img) st c
      else if opcode = 0x09 then push_read scast (cs8 img) st c
      else if opcode = 0x0a then push_read ucast (cu16 img) st c
      else if opcode = 0x0b then push_read scast (cs16 img) st c
      else if opcode = 0x0c then push_read ucast (cu32 img) st c
      else if opcode = 0x0d then push_read scast (cs32 img) st c
      else if opcode = 0x0e then push_read id (cu64 img) st c
      else if opcode = 0x0f then push_read id (cs64 img) st c
      else if opcode = 0x10 then push_read id (uleb128 img) st c
      else if opcode = 0x11 then push_read id (sleb128 img) st c
      else if opcode = 0x92 then
        rbind (uleb128 img c) (\<lambda>(r, c1). rbind (dwarf_register regs (sint (ucast r :: u32))) (\<lambda>v.
        rbind (sleb128 img c1) (\<lambda>(off, c2). Inr (push (v + off) st, c2))))
      else if opcode = 0x91 then
        rbind (uleb128 img c) (\<lambda>(off, c').
        rbind (case func of None \<Rightarrow> Inl BadOptionalAccess | Some d \<Rightarrow> base d regs) (\<lambda>loc.
        rbind (read_frame_base_result loc) (\<lambda>a. Inr (push (addr a + off) st, c'))))
      else if opcode = 0x12 then rbind (nth_from_back 0 st) (\<lambda>v. Inr (push v st, c))
      else if opcode = 0x13 then rbind (nth_from_back 0 st) (\<lambda>_. Inr (st\<lparr>ex_stack := tl (ex_stack st)\<rparr>, c))
      else if opcode = 0x15 then rbind (cu8 img c) (\<lambda>(i, c'). rbind (nth_from_back (unat i) st) (\<lambda>v. Inr (push v st, c')))
      else if opcode = 0x14 then rbind (nth_from_back 1 st) (\<lambda>v. Inr (push v st, c))
      else if opcode = 0x16 then (case ex_stack st of
          a # b # vs \<Rightarrow> Inr (st\<lparr>ex_stack := b # a # vs\<rparr>, c) | _ \<Rightarrow> Inl (UB ''read beyond a stack''))
      else if opcode = 0x17 then (case ex_stack st of
          x # y # z # vs \<Rightarrow> Inr (st\<lparr>ex_stack := y # z # x # vs\<rparr>, c) | _ \<Rightarrow> Inl (UB ''read beyond a stack''))
      else Inr (st, c))"

definition exec_opcode :: "dwarf_expression \<Rightarrow> registers \<Rightarrow> frame_base \<Rightarrow> die option \<Rightarrow> expr_state \<Rightarrow> expr_state reader" where
  "exec_opcode de regs base func st c =
     rbind (cu8 (e_image (di_elf (de_parent de))) c) (\<lambda>(opcode, c1).
     rbind (exec_range de regs opcode st c1) (\<lambda>(st1, c2). exec_switch de regs base func opcode st1 c2))"

lemma push_read_forward: "push_read f rd st c = Inr (st', c') \<Longrightarrow> (\<And>v c'. rd c = Inr (v, c') \<Longrightarrow> cpos c \<le> cpos c') \<Longrightarrow> cpos c \<le> cpos c'"
  by (auto simp: push_read_def rbind_eq_Inr)

lemma exec_range_forward: "exec_range de regs opcode st c = Inr (st', c') \<Longrightarrow> cpos c \<le> cpos c'"
  by (auto simp: exec_range_def Let_def rbind_eq_Inr split: if_splits dest: sleb.forward)

lemma exec_switch_forward: "exec_switch de regs base func opcode st c = Inr (st', c') \<Longrightarrow> cpos c \<le> cpos c'"
  unfolding exec_switch_def Let_def push_read_def
  by (auto simp: rbind_eq_Inr cs8_def cs16_def cs32_def cs64_def fixed_int_Inr split: if_splits list.splits
      dest: uleb.forward sleb.forward cu8.forward cu16.forward cu32.forward cu64.forward)
    (meson le_trans uleb.forward sleb.forward)?

lemma exec_opcode_progress:
  assumes "exec_opcode de regs base func st c = Inr (st', c')"
  shows "cpos c < cpos c' \<and> cpos c < iend (e_image (di_elf (de_parent de)))"
proof -
  obtain opcode c1 st1 c2 where r: "cu8 (e_image (di_elf (de_parent de))) c = Inr (opcode, c1)"
      "exec_range de regs opcode st c1 = Inr (st1, c2)" "exec_switch de regs base func opcode st1 c2 = Inr (st', c')"
    using assms by (auto simp: exec_opcode_def rbind_eq_Inr)
  then have "cpos c1 \<le> cpos c'" using exec_range_forward exec_switch_forward le_trans by blast
  then show ?thesis using cu8.strict [OF r(1)] cu8.inside [OF r(1)] by simp
qed

function expr_loop :: "dwarf_expression \<Rightarrow> registers \<Rightarrow> frame_base \<Rightarrow> die option \<Rightarrow> expr_state \<Rightarrow> cursor \<Rightarrow> expr_state result" where
  "expr_loop de regs base func st c =
     (if finished c then Inr st
      else rbind (exec_opcode de regs base func st c) (\<lambda>(st', c'). expr_loop de regs base func st' c'))"
  by pat_completeness auto
termination
  by (relation "measure (\<lambda>(de, regs, base, func, st, c). iend (e_image (di_elf (de_parent de))) - cpos c)")
     (auto dest: exec_opcode_progress)

declare expr_loop.simps [simp del]

definition initial_state :: "registers \<Rightarrow> bool \<Rightarrow> expr_state" where
  "initial_state regs push_cfa =
     \<lparr>ex_stack = (if push_cfa then [addr (rg_cfa regs)] else []), ex_recent = None, ex_is_address = True\<rparr>"

text \<open>Control flows off the end of the function once the bytes are used up.\<close>

definition eval :: "dwarf_expression \<Rightarrow> frame_base \<Rightarrow> registers \<Rightarrow> bool \<Rightarrow> expr_result result" where
  "eval de base regs push_cfa =
     rbind (read_by_id_as_u64 rid_rip regs) (\<lambda>pc.
     rbind (di_function_at (de_parent de) (to_file_addr (di_elf (de_parent de)) (VirtAddr pc))) (\<lambda>func.
     rbind (expr_loop de regs base func (initial_state regs push_cfa) (mk_cursor (de_data de))) (\<lambda>_.
     Inl (UB ''no return statement''))))"

subsection \<open>Reference\<close>

text \<open>The operations as the standard names them, their bytes, and what each does to the stack.\<close>

datatype expr_op = Lit u8 | Addr u64 | Const1u u8 | Const1s u8 | Const2u u16 | Const2s u16 | Const4u u32 | Const4s u32
  | Const8u u64 | Const8s u64 | Constu u64 | Consts int | Reg u8 | Breg u8 int | Bregx u64 int | Fbreg u64
  | Dup | Drop | Pick u8 | Over | Swap | Rot

fun encode_op :: "expr_op \<Rightarrow> u8 list" where
  "encode_op (Lit n) = [0x30 + n]"
| "encode_op (Addr v) = 0x03 # as_bytes v"
| "encode_op (Const1u v) = 0x08 # as_bytes v"
| "encode_op (Const1s v) = 0x09 # as_bytes v"
| "encode_op (Const2u v) = 0x0a # as_bytes v"
| "encode_op (Const2s v) = 0x0b # as_bytes v"
| "encode_op (Const4u v) = 0x0c # as_bytes v"
| "encode_op (Const4s v) = 0x0d # as_bytes v"
| "encode_op (Const8u v) = 0x0e # as_bytes v"
| "encode_op (Const8s v) = 0x0f # as_bytes v"
| "encode_op (Constu v) = 0x10 # encode_uleb128 (unat v)"
| "encode_op (Consts v) = 0x11 # encode_sleb128 v"
| "encode_op (Reg n) = [0x50 + n]"
| "encode_op (Breg n v) = (0x70 + n) # encode_sleb128 v"
| "encode_op (Bregx r v) = 0x92 # encode_uleb128 (unat r) @ encode_sleb128 v"
| "encode_op (Fbreg v) = 0x91 # encode_uleb128 (unat v)"
| "encode_op Dup = [0x12]"
| "encode_op Drop = [0x13]"
| "encode_op (Pick i) = [0x15, i]"
| "encode_op Over = [0x14]"
| "encode_op Swap = [0x16]"
| "encode_op Rot = [0x17]"

fun op_ok :: "expr_op \<Rightarrow> bool" where
  "op_ok (Lit n) \<longleftrightarrow> n < 32"
| "op_ok (Reg n) \<longleftrightarrow> n < 32"
| "op_ok (Breg n v) \<longleftrightarrow> n < 32 \<and> - 64 \<le> v \<and> v < 2 ^ 63"
| "op_ok (Bregx r v) \<longleftrightarrow> - 64 \<le> v \<and> v < 2 ^ 63"
| "op_ok (Consts v) \<longleftrightarrow> - 64 \<le> v \<and> v < 2 ^ 63"
| "op_ok _ \<longleftrightarrow> True"

fun op_effect :: "dwarf_expression \<Rightarrow> registers \<Rightarrow> frame_base \<Rightarrow> die option \<Rightarrow> expr_op \<Rightarrow> expr_state \<Rightarrow> expr_state result" where
  "op_effect de regs base func (Lit n) st = Inr (push (ucast n) st)"
| "op_effect de regs base func (Addr v) st =
     rbind (to_virt_addr (di_elf (de_parent de)) (mk_file_addr (e_id (di_elf (de_parent de))) v)) (\<lambda>a. Inr (push (addr a) st))"
| "op_effect de regs base func (Const1u v) st = Inr (push (ucast v) st)"
| "op_effect de regs base func (Const1s v) st = Inr (push (scast v) st)"
| "op_effect de regs base func (Const2u v) st = Inr (push (ucast v) st)"
| "op_effect de regs base func (Const2s v) st = Inr (push (scast v) st)"
| "op_effect de regs base func (Const4u v) st = Inr (push (ucast v) st)"
| "op_effect de regs base func (Const4s v) st = Inr (push (scast v) st)"
| "op_effect de regs base func (Const8u v) st = Inr (push v st)"
| "op_effect de regs base func (Const8s v) st = Inr (push v st)"
| "op_effect de regs base func (Constu v) st = Inr (push v st)"
| "op_effect de regs base func (Consts v) st = Inr (push (word_of_int v) st)"
| "op_effect de regs base func (Reg n) st =
     (if de_in_frame_info de then rbind (dwarf_register regs (uint n)) (\<lambda>v. Inr (push v st))
      else Inr (st\<lparr>ex_recent := Some (RegisterResult (ucast n))\<rparr>))"
| "op_effect de regs base func (Breg n off) st =
     rbind (dwarf_register regs (uint n)) (\<lambda>v. Inr (push (v + word_of_int off) st))"
| "op_effect de regs base func (Bregx r off) st =
     rbind (dwarf_register regs (sint (ucast r :: u32))) (\<lambda>v. Inr (push (v + word_of_int off) st))"
| "op_effect de regs base func (Fbreg off) st =
     rbind (case func of None \<Rightarrow> Inl BadOptionalAccess | Some d \<Rightarrow> base d regs) (\<lambda>loc.
     rbind (read_frame_base_result loc) (\<lambda>a. Inr (push (addr a + off) st)))"
| "op_effect de regs base func Dup st = rbind (nth_from_back 0 st) (\<lambda>v. Inr (push v st))"
| "op_effect de regs base func Drop st = rbind (nth_from_back 0 st) (\<lambda>_. Inr (st\<lparr>ex_stack := tl (ex_stack st)\<rparr>))"
| "op_effect de regs base func (Pick i) st = rbind (nth_from_back (unat i) st) (\<lambda>v. Inr (push v st))"
| "op_effect de regs base func Over st = rbind (nth_from_back 1 st) (\<lambda>v. Inr (push v st))"
| "op_effect de regs base func Swap st = (case ex_stack st of
      a # b # vs \<Rightarrow> Inr (st\<lparr>ex_stack := b # a # vs\<rparr>) | _ \<Rightarrow> Inl (UB ''read beyond a stack''))"
| "op_effect de regs base func Rot st = (case ex_stack st of
      x # y # z # vs \<Rightarrow> Inr (st\<lparr>ex_stack := y # z # x # vs\<rparr>) | _ \<Rightarrow> Inl (UB ''read beyond a stack''))"

definition encode_ops :: "expr_op list \<Rightarrow> u8 list" where
  "encode_ops ops = concat (map encode_op ops)"

text \<open>The opcodes of the three ranges meet no other opcode.\<close>

lemma range_opcodes:
  fixes n :: u8
  assumes "n < 32"
  shows "0x30 \<le> 0x30 + n \<and> 0x30 + n \<le> 0x4f \<and> 0x50 \<le> 0x50 + n \<and> 0x50 + n \<le> 0x6f \<and> 0x70 \<le> 0x70 + n \<and> 0x70 + n \<le> 0x8f
    \<and> 0x30 + n \<notin> set [0x03, 0x08, 0x09, 0x0a, 0x0b, 0x0c, 0x0d, 0x0e, 0x0f, 0x10, 0x11, 0x92, 0x91, 0x12, 0x13, 0x15, 0x14, 0x16, 0x17]
    \<and> 0x50 + n \<notin> set [0x03, 0x08, 0x09, 0x0a, 0x0b, 0x0c, 0x0d, 0x0e, 0x0f, 0x10, 0x11, 0x92, 0x91, 0x12, 0x13, 0x15, 0x14, 0x16, 0x17]
    \<and> 0x70 + n \<notin> set [0x03, 0x08, 0x09, 0x0a, 0x0b, 0x0c, 0x0d, 0x0e, 0x0f, 0x10, 0x11, 0x92, 0x91, 0x12, 0x13, 0x15, 0x14, 0x16, 0x17]
    \<and> \<not> 0x50 + n \<le> 0x4f \<and> \<not> 0x70 + n \<le> 0x4f \<and> \<not> 0x70 \<le> 0x50 + n" (is "?Q n")
proof -
  have n: "unat n < 32" using assms by (simp add: word_less_nat_alt)
  have u: "unat (0x30 + n) = 0x30 + unat n" "unat (0x50 + n) = 0x50 + unat n" "unat (0x70 + n) = 0x70 + unat n"
    using n by (simp_all add: unat_word_ariths)
  show ?thesis using n by (simp add: word_le_nat_alt word_unat_eq_iff u)
qed


definition switch_opcodes :: "u8 list" where
  "switch_opcodes = [0x03, 0x08, 0x09, 0x0a, 0x0b, 0x0c, 0x0d, 0x0e, 0x0f, 0x10, 0x11, 0x92, 0x91, 0x12, 0x13, 0x15, 0x14, 0x16, 0x17]"

lemma exec_switch_other: "opcode \<notin> set switch_opcodes \<Longrightarrow> exec_switch de regs base func opcode st c = Inr (st, c)"
  by (simp add: exec_switch_def switch_opcodes_def)

lemma exec_ranges:
  fixes n :: u8
  assumes "n < 32"
  shows "exec_range de regs (0x30 + n) st c = Inr (push (ucast n) st, c)"
    and "exec_range de regs (0x70 + n) st c = rbind (dwarf_register regs (uint n)) (\<lambda>v.
      rbind (sleb128 (e_image (di_elf (de_parent de))) c) (\<lambda>(off, c'). Inr (push (v + off) st, c')))"
    and "exec_range de regs (0x50 + n) st c = (if de_in_frame_info de then rbind (dwarf_register regs (uint n)) (\<lambda>v. Inr (push v st, c))
      else Inr (st\<lparr>ex_recent := Some (RegisterResult (ucast n))\<rparr>, c))"
    and "0x30 + n \<notin> set switch_opcodes" and "0x70 + n \<notin> set switch_opcodes" and "0x50 + n \<notin> set switch_opcodes"
proof -
  note r = range_opcodes [OF assms]
  have s: "(0x30 + n) - 0x30 = n" "(0x50 + n) - 0x50 = n" "(0x70 + n) - 0x70 = n" by simp_all
  show "exec_range de regs (0x30 + n) st c = Inr (push (ucast n) st, c)"
    unfolding exec_range_def Let_def s using r by (simp only: if_True simp_thms)
  show "exec_range de regs (0x70 + n) st c = rbind (dwarf_register regs (uint n)) (\<lambda>v.
      rbind (sleb128 (e_image (di_elf (de_parent de))) c) (\<lambda>(off, c'). Inr (push (v + off) st, c')))"
    unfolding exec_range_def Let_def s using r by (simp only: if_True if_False simp_thms)
  show "exec_range de regs (0x50 + n) st c = (if de_in_frame_info de then rbind (dwarf_register regs (uint n)) (\<lambda>v. Inr (push v st, c))
      else Inr (st\<lparr>ex_recent := Some (RegisterResult (ucast n))\<rparr>, c))"
    unfolding exec_range_def Let_def s using r by (simp only: if_True if_False simp_thms)
  show "0x30 + n \<notin> set switch_opcodes" "0x70 + n \<notin> set switch_opcodes" "0x50 + n \<notin> set switch_opcodes"
    unfolding switch_opcodes_def using r by blast+
qed

lemma exec_encoded_op:
  assumes "op_ok x" and "has_bytes (e_image (di_elf (de_parent de))) (cpos c) (encode_op x)"
  shows "exec_opcode de regs base func st c
    = rbind (op_effect de regs base func x st) (\<lambda>st'. Inr (st', cursor_advance (length (encode_op x)) c))"
proof -
  let ?img = "e_image (di_elf (de_parent de))" and ?c = "cursor_advance 1 c"
  note defs = exec_opcode_def cu8_load exec_range_def exec_switch_def push_read_def
    cu16_def cu32_def cu64_def cs8_def cs16_def cs32_def cs64_def
  have uleb: "has_bytes ?img (cpos c) (encode_uleb128 (unat v)) \<Longrightarrow>
      uleb128 ?img c = Inr (v, cursor_advance (length (encode_uleb128 (unat v))) c)" for v :: u64 and c
    by (rule uleb128_encode_word)
  have sleb: "has_bytes ?img (cpos c) (encode_sleb128 v) \<Longrightarrow> - 64 \<le> v \<Longrightarrow> v < 2 ^ 63 \<Longrightarrow>
      sleb128 ?img c = Inr (word_of_int v, cursor_advance (length (encode_sleb128 v)) c)" for v and c
    using sleb128_encode [of ?img c v] by (simp add: sleb128_value_def)
  have fixed: "has_bytes ?img (cpos ?c) (as_bytes v) \<Longrightarrow> 8 dvd LENGTH('a) \<Longrightarrow>
      fixed_int ?img ?c = Inr (v, cursor_advance (LENGTH('a) div 8) ?c)" for v :: "'a::len word"
    by (rule fixed_int_has_bytes)
  show ?thesis
  proof (cases x)
    case (Lit n)
    then show ?thesis using assms exec_ranges [of n] by (simp add: exec_opcode_def cu8_load exec_switch_other)
  next
    case (Reg n)
    then show ?thesis using assms exec_ranges [of n] by (simp add: exec_opcode_def cu8_load exec_switch_other rbind_assoc)
  next
    case (Breg n v)
    then show ?thesis using assms exec_ranges [of n] sleb [of ?c v]
      by (simp add: exec_opcode_def cu8_load exec_switch_other rbind_assoc)
  next
    case (Bregx r v)
    then show ?thesis using assms uleb [of ?c r] sleb [of "cursor_advance (length (encode_uleb128 (unat r))) ?c" v]
      by (simp add: defs rbind_assoc add.assoc)
  next
    case (Consts v)
    then show ?thesis using assms sleb [of ?c v] by (simp add: defs)
  next
    case (Constu v)
    then show ?thesis using assms uleb [of ?c v] by (simp add: defs)
  next
    case (Fbreg v)
    then show ?thesis using assms uleb [of ?c v] by (simp add: defs rbind_assoc)
  next
    case (Addr v)
    then show ?thesis using assms fixed [of v] by (simp add: defs rbind_assoc Let_def)
  next
    case Swap
    then show ?thesis using assms by (auto simp: defs split: list.splits)
  next
    case Rot
    then show ?thesis using assms by (auto simp: defs split: list.splits)
  next
    case (Const1u v)
    then show ?thesis using assms cu_reads(1) [of ?img ?c v] by (simp add: defs)
  next
    case (Const1s v)
    then show ?thesis using assms fixed [of v] by (simp add: defs)
  next
    case (Const2u v)
    then show ?thesis using assms fixed [of v] by (simp add: defs)
  next
    case (Const2s v)
    then show ?thesis using assms fixed [of v] by (simp add: defs)
  next
    case (Const4u v)
    then show ?thesis using assms fixed [of v] by (simp add: defs)
  next
    case (Const4s v)
    then show ?thesis using assms fixed [of v] by (simp add: defs)
  next
    case (Const8u v)
    then show ?thesis using assms fixed [of v] by (simp add: defs)
  next
    case (Const8s v)
    then show ?thesis using assms fixed [of v] by (simp add: defs)
  next
    case (Pick i)
    then show ?thesis using assms by (simp add: defs rbind_assoc)
  qed (use assms in \<open>simp_all add: defs rbind_assoc\<close>)
qed


lemma encode_op_nonempty: "0 < length (encode_op x)"
  by (cases x) simp_all

lemma expr_loop_ops:
  "\<forall>x\<in>set ops. op_ok x \<Longrightarrow> has_bytes (e_image (di_elf (de_parent de))) (cpos c) (encode_ops ops) \<Longrightarrow>
   cpos c + length (encode_ops ops) = send (cdata c) \<Longrightarrow>
   expr_loop de regs base func st c = foldR (op_effect de regs base func) ops st"
proof (induction ops arbitrary: st c)
  case Nil
  then show ?case by (subst expr_loop.simps) (simp add: finished_def encode_ops_def)
next
  case (Cons x ops)
  have nf: "\<not> finished c"
    using Cons.prems(3) encode_op_nonempty [of x] by (auto simp: finished_def encode_ops_def simp del: length_greater_0_conv)
  let ?c = "cursor_advance (length (encode_op x)) c"
  have "exec_opcode de regs base func st c = rbind (op_effect de regs base func x st) (\<lambda>st'. Inr (st', ?c))"
    using Cons.prems by (intro exec_encoded_op) (auto simp: encode_ops_def)
  moreover have "expr_loop de regs base func st' ?c = foldR (op_effect de regs base func) ops st'" for st'
    using Cons.prems by (intro Cons.IH) (auto simp: encode_ops_def add.assoc)
  ultimately show ?case using nf by (subst expr_loop.simps) (simp add: rbind_assoc)
qed

subsection \<open>Properties\<close>

text \<open>
  C6: on the bytes of a sequence of operations the loop has the effect of the operations in their
  order, failures included; but the function never returns a location, since it ends without a return.
\<close>

theorem expression_executes_operations:
  assumes "\<forall>x\<in>set ops. op_ok x" and "has_bytes (e_image (di_elf (de_parent de))) (cpos c) (encode_ops ops)"
    and "cpos c + length (encode_ops ops) = send (cdata c)"
  shows "expr_loop de regs base func st c = foldR (op_effect de regs base func) ops st
    \<and> (\<forall>push_cfa. \<exists>e. eval de base regs push_cfa = Inl e)"
proof
  show "expr_loop de regs base func st c = foldR (op_effect de regs base func) ops st"
    using assms by (rule expr_loop_ops)
  have "eval de base regs p \<noteq> Inr r" for p r by (simp add: eval_def rbind_eq_Inr)
  then show "\<forall>push_cfa. \<exists>e. eval de base regs push_cfa = Inl e" by (metis sum.exhaust)
qed

definition expr_ops :: "expr_op list" where
  "expr_ops = [Lit 5, Constu 300, Consts (- 2), Swap, Rot, Pick 2, Dup, Drop]"

definition expr_info :: "expr_op list \<Rightarrow> debug_info" where
  "expr_info ops = toy_info\<lparr>di_elf := toy_elf\<lparr>e_image := \<lparr>ibase = 4096, ibytes = [7] @ encode_ops ops @ []\<rparr>\<rparr>\<rparr>"

definition toy_expr :: "expr_op list \<Rightarrow> dwarf_expression" where
  "toy_expr ops = \<lparr>de_parent = expr_info ops, de_data = mk_span 4097 (4097 + length (encode_ops ops)), de_in_frame_info = False\<rparr>"

lemma toy_expr_bytes: "has_bytes (e_image (di_elf (de_parent (toy_expr ops)))) 4097 (encode_ops ops)"
  using image_has_bytes [of 4096 "[7]" "encode_ops ops" "[]"] by (simp add: toy_expr_def expr_info_def)

lemma expression_executes_operations_witness:
  "\<exists>st. expr_loop (toy_expr expr_ops) zero_registers (\<lambda>d r. Inl Terminate) None (initial_state zero_registers False)
      (mk_cursor (de_data (toy_expr expr_ops))) = Inr st \<and> ex_stack st = [300, - 2, 5, 300]"
proof -
  let ?c = "mk_cursor (de_data (toy_expr expr_ops))"
  have c: "cpos ?c = 4097" "send (cdata ?c) = 4097 + length (encode_ops expr_ops)"
    by (simp_all add: mk_cursor_def toy_expr_def mk_span_def send_def)
  have ok: "\<forall>x\<in>set expr_ops. op_ok x" by (simp add: expr_ops_def)
  have "expr_loop (toy_expr expr_ops) zero_registers (\<lambda>d r. Inl Terminate) None (initial_state zero_registers False) ?c
      = foldR (op_effect (toy_expr expr_ops) zero_registers (\<lambda>d r. Inl Terminate) None) expr_ops (initial_state zero_registers False)"
    using expression_executes_operations [OF ok, of "toy_expr expr_ops" ?c zero_registers] toy_expr_bytes c by simp
  then show ?thesis by (simp add: expr_ops_def initial_state_def push_def nth_from_back_def)
qed

text \<open>
  The offset of a variable from the frame base, which compilers encode as a signed number, is read
  as an unsigned one: an offset from -64 to -1 addresses 128 bytes more.
\<close>

theorem frame_offset_read_unsigned:
  assumes "has_bytes (e_image (di_elf (de_parent de))) (cpos c) (0x91 # encode_sleb128 v)" and "- 64 \<le> v" and "v < 0"
    and "base d regs = Inr (Simple (AddressResult a))"
  shows "\<exists>c'. exec_opcode de regs base (Some d) st c = Inr (push (addr a + word_of_int v + 128) st, c')"
proof -
  define k where "k = nat (v + 128)"
  have k: "v + 128 = int k" "k < 128" using assms(2,3) by (simp_all add: k_def)
  have "v mod 128 = (v + 128) mod 128" by simp
  also have "\<dots> = int k" using k by simp
  finally have "encode_sleb128 v = [of_nat k]" using assms(2,3) by (subst encode_sleb128.simps) simp
  moreover have "encode_uleb128 k = [of_nat k]" using k(2) by (subst encode_uleb128.simps) simp
  moreover have "unat (of_nat k :: u64) = k" using k(2) by (simp add: unat_of_nat)
  ultimately have "has_bytes (e_image (di_elf (de_parent de))) (cpos c) (encode_op (Fbreg (of_nat k)))" using assms(1) by simp
  from exec_encoded_op [OF _ this] have e: "\<exists>c'. exec_opcode de regs base (Some d) st c = Inr (push (addr a + of_nat k) st, c')"
    using assms(4) by (simp add: read_frame_base_result_def)
  have "(of_nat k :: u64) = word_of_int (v + 128)" unfolding k(1) by simp
  then have "(of_nat k :: u64) = word_of_int v + 128" by simp
  with e show ?thesis by (simp add: add.assoc)
qed

lemma frame_offset_read_unsigned_witness:
  "\<exists>c'. exec_opcode (toy_expr [Fbreg 0x70]) zero_registers (\<lambda>d r. Inr (Simple (AddressResult (VirtAddr 0x1000)))) (Some toy_die)
      (initial_state zero_registers False) (mk_cursor (mk_span 4097 4099)) = Inr (push 0x1070 (initial_state zero_registers False), c')"
proof -
  have "encode_sleb128 (- 16) = [0x70]" "encode_uleb128 0x70 = [0x70]"
    by (subst encode_sleb128.simps; simp) (subst encode_uleb128.simps; simp)
  then have "has_bytes (e_image (di_elf (de_parent (toy_expr [Fbreg 0x70])))) (cpos (mk_cursor (mk_span 4097 4099))) (0x91 # encode_sleb128 (- 16))"
    using toy_expr_bytes [of "[Fbreg 0x70]"] by (simp add: encode_ops_def mk_cursor_def mk_span_def)
  from frame_offset_read_unsigned [OF this, of "\<lambda>d r. Inr (Simple (AddressResult (VirtAddr 0x1000)))" toy_die zero_registers "VirtAddr 0x1000"]
  show ?thesis by simp
qed

end
