(* ===== verification/Spec2Isabelle.thy ===== *)
theory Spec2Isabelle
  imports KD_Abbrev KD_Session KD_Expr
begin

text \<open>
  A verification library of KDebugger, the source-level debugger for x86-64 Linux under \<open>src/\<close>: its
  library (\<open>src/src\<close>, \<open>src/include/libkdebugger\<close>) and its command line (\<open>src/tools/kdebugger.cpp\<close>).

  THE PROGRAM. The tool reads lines and calls the operations of a \<open>target\<close>: a traced \<open>process\<close>, the
  files loaded into it with their debugging information, its breakpoints, and a call stack for each
  thread. A \<open>process\<close> holds the threads with a copy of their registers, the breakpoint sites, the
  watchpoints and the policy for system calls, and turns its operations into requests to the kernel.
  A breakpoint of the target resolves to places in the loaded files and owns a site of the process
  for each; the process calls the target back when a site is hit or a thread stops, and the target
  then reloads the list of the dynamic linker or unwinds the stack. An \<open>elf\<close> is an image of a file
  and indexes into it; its \<open>dwarf\<close> parses entries, ranges, line programs, frame programs and location
  expressions out of the bytes of that image whenever they are asked for.

  THEORIES, in the order in which they build on each other.
  KD_Prelude: the results of functions that throw (\<open>error.hpp\<close>; undefined behaviour is a failure too),
    loops over lists and other lemmas shared by all.
  KD_Bits, KD_Types: \<open>bit.hpp\<close> and \<open>types.hpp\<close>, \<open>types.cpp\<close>: bytes and words, spans, the three kinds of
    addresses.
  KD_Cursor, KD_Leb, KD_Forms: the \<open>cursor\<close> of \<open>dwarf.hpp\<close>: fixed integers, LEB128, strings, skipping. The
    locales \<open>forward_reader\<close> and \<open>consuming_reader\<close> hold what every reader promises: it moves on and stays
    within the image.
  KD_Elf: \<open>elf.hpp\<close>, \<open>elf.cpp\<close>: opening a file, sections, symbols, the collection of files.
  KD_Abbrev, KD_Die, KD_Children, KD_Ranges, KD_Line, KD_Units, KD_Index: the parts of \<open>dwarf.cpp\<close> on
    abbreviations, entries and attributes, the iterator over children, range lists, line tables,
    compile units, the index of functions and the stack of inlined calls.
  KD_Registers: \<open>registers.cpp\<close>, \<open>register_info.hpp\<close>, \<open>registers.inc\<close>.
  KD_Cfi, KD_Unwind: frame programs, the binary search of \<open>eh_frame_hdr\<close>, and unwinding one frame.
  KD_Expr: \<open>dwarf_expression::eval\<close>.
  KD_Stoppoints: \<open>stoppoint_collection.hpp\<close>, with the locale \<open>stoppoint\<close> that sites and watchpoints
    interpret.
  KD_Inferior: the state of a process, its sites as a map from addresses, wait statuses, access to
    registers (\<open>process.hpp\<close>, \<open>process.cpp\<close>).
  KD_Debugregs, KD_Memory, KD_Threads: the other operations of \<open>process.cpp\<close>: debug registers; memory,
    sites and watchpoints (with \<open>breakpoint_site.cpp\<close>, \<open>watchpoint.cpp\<close>); waiting, resuming, signals
    and system calls.
  KD_Parse: \<open>parse.hpp\<close>. KD_Support: \<open>pipe.cpp\<close>, \<open>syscalls.cpp\<close>, \<open>disassembler.cpp\<close>.
  KD_Launch: \<open>process::launch\<close>, the child and the parent.
  KD_Breakpoints, KD_Stack, KD_Stepping, KD_Loader: \<open>breakpoint.cpp\<close>, \<open>stack.cpp\<close> and \<open>target.cpp\<close>: resolving
    breakpoints (the locales \<open>site_action\<close> and \<open>breakpoint_action\<close> state what switching and resolving keep), frames, stepping by source line, launching, attaching and following the dynamic linker.
  KD_Print, KD_Cli, KD_Shell: \<open>kdebugger.cpp\<close>: what is printed, the commands, and the session with its
    history. KD_Session: what every command keeps of the process, through all that it calls.

  HOW THE CODE IS READ. A class is a record, an operation a function that takes the state and
  returns it; an operation that throws returns \<open>Inl\<close> with the error, and the state it leaves behind is
  not described. Undefined behaviour the code can run into (reading beyond a vector, an empty
  optional, an uninitialised variable, a function that ends without its return) is the failure
  \<open>UB\<close> with a word on its cause. Machine integers are words of their width. Pointers into a file
  are addresses in its image. Objects that own each other by pointers carry numbers instead: a
  breakpoint its \<open>bp_handle\<close>, a file its place in the collection.
  The sources do not compile as they stand: names are misspelt, a few members are used and not
  declared. Where it is evident which member is meant it is taken; each such reading is stated in
  the text before the definition. What compiles is taken as it is written, mistakes included.

  PARAMETERS. The kernel is a record of requests over a state of any type (\<open>os\<close>, \<open>pipe_os\<close>, \<open>launch_os\<close>,
  \<open>file_os\<close>); what a property needs of it is a named hypothesis (\<open>memory_of\<close>, \<open>kernel_threads\<close>,
  \<open>kernel_pipes\<close>), which the witnesses discharge on concrete kernels. The demangler, the instruction
  decoder, conversions of floating point numbers, the order in which hash tables are walked, \<open>readline\<close>
  and the values of uninitialised members are arguments as well, and so are the functions that the
  source calls and nowhere defines: \<open>compile_unit::root\<close>, \<open>report_thread_lifecycle_event\<close>,
  \<open>as_evaluated_location\<close> and \<open>print_register_value\<close>.

  THE LEMMAS. For each parser of KD_Leb to KD_Line, KD_Cfi and KD_Expr there is an encoder of what it
  reads, and the parser is shown to read back, or to run, what was encoded: numbers, abbreviations,
  trees of entries, range lists, unit headers, line programs, frame programs, expressions. Lookups
  (sections, symbols, rows, functions, frame descriptions) are shown to answer with the entry that
  covers the address. For the state of the process there are invariants over runs of operations:
  reading without traps shows the bytes of the program, each place of a breakpoint has a site of its
  own that is on when the breakpoint is, hit handlers keep both, entries and exits of system calls
  alternate, and no command of a session puts two sites at one address, so that the collection of
  sites stays a map from addresses. Operations of the tool are composed with these: what
  \<open>memory write\<close> stores \<open>memory read\<close> prints. Where the code does not do what it means to, the theorem states what it does.

  LOOPS. Loops over bytes end because the cursor moves on: their functions are total, with the bytes
  left as the measure. Loops that can run for ever on some input have fuel and return \<open>None\<close> without
  it: the units of a file, siblings of entries, waiting, stepping, the list of the dynamic linker.
  Each theorem about them says which fuel is enough (the number of entries, of units or of turns plus
  one) or, for the units, that on a length that wraps around no fuel is.

  NOT MODELLED. The state an exception leaves behind; the signal handler of the tool as a step of its
  own (it is a definition, but when the user presses the key is not part of the loop); the texts of
  the help pages, which are named and not spelled out; \<open>init_debugger\<close>, which prints a word; the
  tests. Paths are compared as strings in the collection of files. The caches of abbreviation tables and of CIEs hold what a
  fresh parse returns and are modelled as maps; the width of line numbers is that of their decimal digits.
\<close>

end
